(* ===== verification/Prelude.thy ===== *)
theory Prelude
  imports Complex_Main "HOL-Library.Word" "HOL-Library.Sublist" "HOL-Library.Log_Nat"
begin

text \<open>
  Shared material of the development: the collections of simplification rules, the result
  type of fallible code, and the part of the JavaScript runtime that the sources use on
  strings, numbers and byte buffers.

  A JavaScript string is modelled as an Isabelle \<open>string\<close>, one \<open>char\<close> per UTF-16 code
  unit, for the code units \<open>U+0000\<close> to \<open>U+00FF\<close>. On this range the case mapping, the
  white space and the character classes below are those of the language, not an
  approximation. Code units above \<open>U+00FF\<close> are outside the model of every theory but
  \<open>Log_Sanitize\<close> and \<open>Log_Line\<close>, which work on code-unit numbers.
\<close>

named_theorems js_simps \<open>evaluation of the JavaScript runtime functions\<close>
named_theorems db_simps \<open>what a database operation returns or keeps\<close>
named_theorems inv_intros \<open>operations that keep an invariant\<close>

type_synonym js_string = string
type_synonym byte = "8 word"
type_synonym buffer = "byte list"
type_synonym time_ms = int

section \<open>Fallible code\<close>

text \<open>A call that may throw returns \<open>Inl\<close> with what it throws or \<open>Inr\<close> with its value.\<close>

definition bind_result :: "'e + 'a \<Rightarrow> ('a \<Rightarrow> 'e + 'b) \<Rightarrow> 'e + 'b" where
  "bind_result r f = (case r of Inl e \<Rightarrow> Inl e | Inr x \<Rightarrow> f x)"

lemma bind_result_simps [simp, js_simps]:
  "bind_result (Inl e) f = Inl e"
  "bind_result (Inr x) f = f x"
  by (simp_all add: bind_result_def)

lemma bind_result_Inr_iff:
  "bind_result r f = Inr y \<longleftrightarrow> (\<exists>x. r = Inr x \<and> f x = Inr y)"
  by (cases r) auto

definition is_ok :: "'e + 'a \<Rightarrow> bool" where
  "is_ok r = (case r of Inl _ \<Rightarrow> False | Inr _ \<Rightarrow> True)"

lemma is_ok_simps [simp, js_simps]: "\<not> is_ok (Inl e)" "is_ok (Inr x)"
  by (simp_all add: is_ok_def)

lemma is_okE: "is_ok r \<Longrightarrow> \<exists>x. r = Inr x"
  by (cases r) (simp_all add: is_ok_def)

section \<open>Characters and strings\<close>

definition code_in :: "nat \<Rightarrow> nat \<Rightarrow> char \<Rightarrow> bool" where
  "code_in lo hi c \<longleftrightarrow> lo \<le> of_char c \<and> of_char c \<le> hi"

text \<open>The regular-expression classes \<open>\d\<close>, \<open>[a-z]\<close> and \<open>[0-9a-fA-F]\<close>.\<close>

definition is_digit :: "char \<Rightarrow> bool" where
  "is_digit = code_in 48 57"

definition is_lower :: "char \<Rightarrow> bool" where
  "is_lower = code_in 97 122"

definition is_hex :: "char \<Rightarrow> bool" where
  "is_hex c \<longleftrightarrow> is_digit c \<or> code_in 97 102 c \<or> code_in 65 70 c"

text \<open>
  \<open>String.prototype.toLowerCase\<close> on Latin-1 code units: \<open>A\<close> to \<open>Z\<close> and \<open>U+00C0\<close> to
  \<open>U+00DE\<close> without the multiplication sign move up by 32, everything else stays.
\<close>

definition js_lower_char :: "char \<Rightarrow> char" where
  "js_lower_char c =
     (if code_in 65 90 c \<or> (code_in 192 222 c \<and> of_char c \<noteq> (215 :: nat))
      then char_of (of_char c + 32 :: nat) else c)"

definition toLowerCase :: "js_string \<Rightarrow> js_string" where
  "toLowerCase = map js_lower_char"

text \<open>
  \<open>String.prototype.toUpperCase\<close> restricted to ASCII; the sources use it on an HTTP
  method only, which is an ASCII token.
\<close>

definition ascii_upper_char :: "char \<Rightarrow> char" where
  "ascii_upper_char c = (if code_in 97 122 c then char_of (of_char c - 32 :: nat) else c)"

definition toUpperCase :: "js_string \<Rightarrow> js_string" where
  "toUpperCase = map ascii_upper_char"

text \<open>White space of \<open>trim\<close>: tab to carriage return, space, no-break space.\<close>

definition js_space :: "char \<Rightarrow> bool" where
  "js_space c \<longleftrightarrow> code_in 9 13 c \<or> of_char c = (32 :: nat) \<or> of_char c = (160 :: nat)"

definition trim :: "js_string \<Rightarrow> js_string" where
  "trim s = rev (dropWhile js_space (rev (dropWhile js_space s)))"

definition startsWith :: "js_string \<Rightarrow> js_string \<Rightarrow> bool" where
  "startsWith s p \<longleftrightarrow> take (length p) s = p"

text \<open>\<open>s.includes(w)\<close>: some suffix of \<open>s\<close> starts with \<open>w\<close>.\<close>

fun str_includes :: "js_string \<Rightarrow> js_string \<Rightarrow> bool" where
  "str_includes [] w = (w = [])"
| "str_includes (c # s) w = (startsWith (c # s) w \<or> str_includes s w)"

text \<open>A string is falsy exactly when it is empty; \<open>null\<close> and \<open>undefined\<close> are \<open>None\<close>.\<close>

definition truthy :: "js_string option \<Rightarrow> bool" where
  "truthy s \<longleftrightarrow> (case s of None \<Rightarrow> False | Some t \<Rightarrow> t \<noteq> [])"

lemma truthy_simps [simp, js_simps]: "\<not> truthy None" "truthy (Some s) \<longleftrightarrow> s \<noteq> []"
  by (simp_all add: truthy_def)

text \<open>\<open>v ?? dflt\<close> on strings.\<close>

definition nullish :: "js_string option \<Rightarrow> js_string \<Rightarrow> js_string" where
  "nullish v dflt = (case v of None \<Rightarrow> dflt | Some s \<Rightarrow> s)"

text \<open>\<open>/^\d{m,n}$/.test(s)\<close>, and \<open>/^\d+$/\<close> as the case without an upper bound.\<close>

definition digits_between :: "nat \<Rightarrow> nat \<Rightarrow> js_string \<Rightarrow> bool" where
  "digits_between m n s \<longleftrightarrow> m \<le> length s \<and> length s \<le> n \<and> list_all is_digit s"

definition all_digits :: "js_string \<Rightarrow> bool" where
  "all_digits s \<longleftrightarrow> s \<noteq> [] \<and> list_all is_digit s"

definition all_hex :: "js_string \<Rightarrow> bool" where
  "all_hex s \<longleftrightarrow> s \<noteq> [] \<and> list_all is_hex s"

section \<open>Numbers\<close>

text \<open>The value of a string of decimal digits.\<close>

definition digit_val :: "char \<Rightarrow> nat" where
  "digit_val c = of_char c - 48"

definition dec_val :: "js_string \<Rightarrow> nat" where
  "dec_val s = foldl (\<lambda>n c. 10 * n + digit_val c) 0 s"

text \<open>
  The nearest double to a natural number, ties to even. Below \<open>2^53\<close> every natural number
  is a double; above, a double is a 53-bit significand times a power of two.
\<close>

definition to_double :: "nat \<Rightarrow> nat" where
  "to_double n =
     (if n < 2 ^ 53 then n
      else let k = floorlog 2 n - 53; q = n div 2 ^ k; r = n mod 2 ^ k in
        (if 2 * r < 2 ^ k \<or> (2 * r = 2 ^ k \<and> even q) then q else q + 1) * 2 ^ k)"

definition MAX_SAFE_INTEGER :: nat where
  "MAX_SAFE_INTEGER = 2 ^ 53 - 1"

text \<open>\<open>Number(s)\<close> for a string of decimal digits.\<close>

definition js_Number :: "js_string \<Rightarrow> nat" where
  "js_Number s = to_double (dec_val s)"

lemma to_double_small [simp]: "n < 2 ^ 53 \<Longrightarrow> to_double n = n"
  by (simp add: to_double_def)

text \<open>Rounding never brings a number down into the range of the safe integers.\<close>

lemma to_double_large:
  assumes "2 ^ 53 \<le> n"
  shows "2 ^ 53 \<le> to_double n"
proof -
  define k where "k = floorlog 2 n - 53"
  have n0: "0 < n" using assms by (simp add: Suc_le_eq)
  have "2 ^ 53 < (2 :: nat) ^ floorlog 2 n"
    using floorlog_bounds [of n 2] n0 assms by simp
  then have "53 < floorlog 2 n" by (rule power_less_imp_less_exp [rotated]) simp
  then have k: "1 \<le> k" "floorlog 2 n - 1 = 52 + k" by (simp_all add: k_def)
  have le: "2 ^ (52 + k) \<le> n"
    using floorlog_bounds [of n 2] n0 k(2) by simp
  have q: "2 ^ 52 \<le> n div 2 ^ k"
    using div_le_mono [OF le, of "2 ^ k"] by (simp add: power_add)
  have "(2 :: nat) ^ 1 \<le> 2 ^ k" using k(1) by (rule power_increasing) simp
  then have "2 ^ 53 \<le> 2 ^ 52 * (2 ^ k :: nat)" by simp
  also have "\<dots> \<le> n div 2 ^ k * 2 ^ k" using q by (rule mult_le_mono1)
  finally have main: "2 ^ 53 \<le> n div 2 ^ k * 2 ^ k" .
  then have "2 ^ 53 \<le> (n div 2 ^ k + 1) * 2 ^ k" by simp
  with main assms show ?thesis
    unfolding to_double_def Let_def k_def [symmetric] by simp
qed

text \<open>So a number that passes \<open>Number.isSafeInteger\<close> was read without rounding.\<close>

lemma safe_to_double: "to_double n \<le> MAX_SAFE_INTEGER \<Longrightarrow> to_double n = n"
  using to_double_large [of n] by (cases "n < 2 ^ 53") (auto simp: MAX_SAFE_INTEGER_def)


text \<open>\<open>String(n)\<close> for an integer; its digits are read back by \<open>dec_val\<close>.\<close>

fun dec_str :: "nat \<Rightarrow> js_string" where
  "dec_str n = (if n < 10 then [char_of (48 + n)] else dec_str (n div 10) @ [char_of (48 + n mod 10)])"

declare dec_str.simps [simp del]

lemma digit_char [simp]:
  "n < 10 \<Longrightarrow> is_digit (char_of (48 + n))" "n < 10 \<Longrightarrow> digit_val (char_of (48 + n)) = n"
  by (simp_all add: is_digit_def code_in_def digit_val_def)

lemma dec_val_snoc: "dec_val (s @ [c]) = 10 * dec_val s + digit_val c"
  by (simp add: dec_val_def)

lemma dec_val_single [simp]: "dec_val [c] = digit_val c"
  by (simp add: dec_val_def)

lemma dec_val_str [simp]: "dec_val (dec_str n) = n"
  by (induction n rule: dec_str.induct) (subst dec_str.simps, simp add: dec_val_snoc)

lemma dec_str_digits: "all_digits (dec_str n)"
proof (induction n rule: dec_str.induct)
  case (1 n)
  then show ?case
    by (cases "n < 10") (simp_all add: dec_str.simps [of n] all_digits_def)
qed

definition int_str :: "int \<Rightarrow> js_string" where
  "int_str i = (if i < 0 then ''-'' @ dec_str (nat (- i)) else dec_str (nat i))"

text \<open>
  \<open>BigInt(s)\<close>: white space is trimmed, the empty string is 0, a sign may precede decimal
  digits only, and \<open>0x\<close>, \<open>0o\<close>, \<open>0b\<close> select another base. Anything else throws.
\<close>

definition hex_val :: "char \<Rightarrow> nat" where
  "hex_val c = (if is_digit c then of_char c - 48
                else if code_in 97 102 c then of_char c - 87 else of_char c - 55)"

definition base_digits :: "nat \<Rightarrow> js_string \<Rightarrow> int option" where
  "base_digits b s =
     (if s \<noteq> [] \<and> list_all (\<lambda>c. is_hex c \<and> hex_val c < b) s
      then Some (int (foldl (\<lambda>n c. b * n + hex_val c) 0 s)) else None)"

definition js_BigInt :: "js_string \<Rightarrow> int option" where
  "js_BigInt s = (case trim s of
       [] \<Rightarrow> Some 0
     | c # t \<Rightarrow>
         if c = CHR ''-'' then map_option uminus (base_digits 10 t)
         else if c = CHR ''+'' then base_digits 10 t
         else (case t of
             d # u \<Rightarrow>
               if c = CHR ''0'' \<and> js_lower_char d = CHR ''x'' then base_digits 16 u
               else if c = CHR ''0'' \<and> js_lower_char d = CHR ''o'' then base_digits 8 u
               else if c = CHR ''0'' \<and> js_lower_char d = CHR ''b'' then base_digits 2 u
               else base_digits 10 (c # t)
           | [] \<Rightarrow> base_digits 10 (c # t)))"

section \<open>JSON text\<close>

text \<open>\<open>JSON.stringify\<close> of a string and of an array of already printed values.\<close>

definition hex_char :: "nat \<Rightarrow> char" where
  "hex_char n = (if n < 10 then char_of (48 + n) else char_of (87 + n))"

definition json_escape :: "char \<Rightarrow> js_string" where
  "json_escape c =
     (let n = of_char c :: nat in
      if n = 34 then [char_of (92 :: nat), c]
      else if n = 92 then [char_of (92 :: nat), c]
      else if n = 8 then [char_of (92 :: nat), CHR ''b'']
      else if n = 9 then [char_of (92 :: nat), CHR ''t'']
      else if n = 10 then [char_of (92 :: nat), CHR ''n'']
      else if n = 12 then [char_of (92 :: nat), CHR ''f'']
      else if n = 13 then [char_of (92 :: nat), CHR ''r'']
      else if n < 32 then char_of (92 :: nat) # ''u00'' @ [hex_char (n div 16), hex_char (n mod 16)]
      else [c])"

definition json_string :: "js_string \<Rightarrow> js_string" where
  "json_string s = char_of (34 :: nat) # concat (map json_escape s) @ [char_of (34 :: nat)]"

fun join :: "js_string \<Rightarrow> js_string list \<Rightarrow> js_string" where
  "join sep [] = []"
| "join sep [x] = x"
| "join sep (x # xs) = x @ sep @ join sep xs"

definition json_array :: "js_string list \<Rightarrow> js_string" where
  "json_array xs = ''['' @ join '','' xs @ '']''"


section \<open>Byte buffers\<close>

text \<open>
  \<open>Buffer.from(s, 'hex')\<close> decodes pairs of hex digits up to the first pair that is not one;
  \<open>buf.toString('hex')\<close> prints lower case.
\<close>

fun hex_to_bytes :: "js_string \<Rightarrow> buffer" where
  "hex_to_bytes (a # b # s) =
     (if is_hex a \<and> is_hex b then of_nat (16 * hex_val a + hex_val b) # hex_to_bytes s else [])"
| "hex_to_bytes _ = []"

definition byte_hex :: "byte \<Rightarrow> js_string" where
  "byte_hex w = [hex_char (unat w div 16), hex_char (unat w mod 16)]"

definition bytes_to_hex :: "buffer \<Rightarrow> js_string" where
  "bytes_to_hex b = concat (map byte_hex b)"

lemma hex_char_props [simp]:
  assumes "n < 16"
  shows "is_hex (hex_char n)" "hex_val (hex_char n) = n"
  using assms by (auto simp: hex_char_def is_hex_def is_digit_def code_in_def hex_val_def)

lemma unat_byte_less [simp]: "unat (w :: byte) < 256"
proof -
  have "(unsigned w :: nat) < 2 ^ LENGTH(8)" by (rule unsigned_less)
  then show ?thesis by simp
qed

lemma hex_to_bytes_hex [simp]: "hex_to_bytes (bytes_to_hex b @ s) = b @ hex_to_bytes s"
proof (induction b)
  case Nil
  show ?case by (simp add: bytes_to_hex_def)
next
  case (Cons w b)
  have "unat w div 16 < 16" using unat_byte_less [of w] by linarith
  moreover have "16 * (unat w div 16) + unat w mod 16 = unat w" by simp
  ultimately have "hex_to_bytes (byte_hex w @ t) = w # hex_to_bytes t" for t
    by (simp add: byte_hex_def)
  with Cons show ?case by (simp add: bytes_to_hex_def)
qed

lemma hex_to_bytes_inv [simp]: "hex_to_bytes (bytes_to_hex b) = b"
  using hex_to_bytes_hex [of b "[]"] by simp

lemma length_bytes_to_hex [simp]: "length (bytes_to_hex b) = 2 * length b"
  by (induction b) (simp_all add: bytes_to_hex_def byte_hex_def)

lemma bytes_to_hex_is_hex [simp]: "list_all is_hex (bytes_to_hex b)"
proof (induction b)
  case (Cons w b)
  have "unat w div 16 < 16" using unat_byte_less [of w] by linarith
  with Cons show ?case by (simp add: bytes_to_hex_def byte_hex_def)
qed (simp add: bytes_to_hex_def)

lemma bytes_to_hex_lower [simp]: "toLowerCase (bytes_to_hex b) = bytes_to_hex b"
proof (induction b)
  case (Cons w b)
  have "unat w div 16 < 16" using unat_byte_less [of w] by linarith
  moreover have "js_lower_char (hex_char n) = hex_char n" if "n < 16" for n
    using that by (auto simp: hex_char_def js_lower_char_def code_in_def)
  ultimately show ?case using Cons by (simp add: bytes_to_hex_def byte_hex_def toLowerCase_def)
qed (simp add: bytes_to_hex_def toLowerCase_def)

lemma length_hex_to_bytes: "list_all is_hex s \<Longrightarrow> length (hex_to_bytes s) = length s div 2"
  by (induction s rule: hex_to_bytes.induct) auto

text \<open>\<open>Buffer.from(s, 'utf8')\<close> on code units up to \<open>U+00FF\<close>: one byte below \<open>U+0080\<close>, else two.\<close>

definition utf8_char :: "char \<Rightarrow> buffer" where
  "utf8_char c =
     (let n = of_char c :: nat
      in if n < 128 then [of_nat n] else [of_nat (192 + n div 64), of_nat (128 + n mod 64)])"

definition utf8_bytes :: "js_string \<Rightarrow> buffer" where
  "utf8_bytes s = concat (map utf8_char s)"

text \<open>\<open>[...new Set(xs)]\<close>: the distinct elements in the order of their first occurrence.\<close>

definition js_dedupe :: "'a list \<Rightarrow> 'a list" where
  "js_dedupe xs = rev (remdups (rev xs))"

lemma set_js_dedupe [simp]: "set (js_dedupe xs) = set xs"
  by (simp add: js_dedupe_def)

lemma distinct_js_dedupe [simp]: "distinct (js_dedupe xs)"
  by (simp add: js_dedupe_def)

text \<open>\<open>buf[i]\<close>: out of range it is \<open>undefined\<close>.\<close>

definition byte_at :: "'a list \<Rightarrow> nat \<Rightarrow> 'a option" where
  "byte_at xs i = (if i < length xs then Some (xs ! i) else None)"

lemma at_append [simp]: "byte_at (xs @ ys) i = (if i < length xs then byte_at xs i else byte_at ys (i - length xs))"
  by (auto simp: byte_at_def nth_append)

lemma at_Nil [simp]: "byte_at [] i = None"
  by (simp add: byte_at_def)

lemma at_Cons [simp]: "byte_at (x # xs) i = (case i of 0 \<Rightarrow> Some x | Suc j \<Rightarrow> byte_at xs j)"
  by (cases i) (simp_all add: byte_at_def)

lemma list_all_dropWhile_id: "list_all (\<lambda>c. \<not> p c) s \<Longrightarrow> dropWhile p s = s"
  by (cases s) auto

lemma map_sum_Inr: "map_sum f id x = Inr y \<longleftrightarrow> x = Inr y"
  by (cases x) auto

end
