(* ===== verification/Swap_State_Machine.thy ===== *)
theory Swap_State_Machine
  imports Prelude
begin

text \<open>
  The lifecycle of a Flashnet order: \<open>src/swap/flashnet-order-status.ts\<close> and
  \<open>src/swap/swap-state-machine.ts\<close>. The enum is a datatype; a status column and the
  arguments of the functions are strings at run time, so the functions take the string and
  read it through \<open>status_of\<close>.
\<close>

section \<open>Statuses and transitions\<close>

datatype FlashnetOrderStatus =
    PENDING_PAYMENT | PROCESSING | CONFIRMING | BRIDGING | SWAPPING | AWAITING_APPROVAL
  | PAUSED | DELIVERING | DELIVERED | REFUNDING | REFUNDED | FAILED | EXPIRED | UNFULFILLED

primrec status_name :: "FlashnetOrderStatus \<Rightarrow> js_string" where
  "status_name PENDING_PAYMENT = ''PENDING_PAYMENT''"
| "status_name PROCESSING = ''PROCESSING''"
| "status_name CONFIRMING = ''CONFIRMING''"
| "status_name BRIDGING = ''BRIDGING''"
| "status_name SWAPPING = ''SWAPPING''"
| "status_name AWAITING_APPROVAL = ''AWAITING_APPROVAL''"
| "status_name PAUSED = ''PAUSED''"
| "status_name DELIVERING = ''DELIVERING''"
| "status_name DELIVERED = ''DELIVERED''"
| "status_name REFUNDING = ''REFUNDING''"
| "status_name REFUNDED = ''REFUNDED''"
| "status_name FAILED = ''FAILED''"
| "status_name EXPIRED = ''EXPIRED''"
| "status_name UNFULFILLED = ''UNFULFILLED''"

definition all_statuses :: "FlashnetOrderStatus list" where
  "all_statuses = [PENDING_PAYMENT, PROCESSING, CONFIRMING, BRIDGING, SWAPPING,
     AWAITING_APPROVAL, PAUSED, DELIVERING, DELIVERED, REFUNDING, REFUNDED, FAILED, EXPIRED,
     UNFULFILLED]"

definition status_of :: "js_string \<Rightarrow> FlashnetOrderStatus option" where
  "status_of s = find (\<lambda>x. status_name x = s) all_statuses"

text \<open>The table, each set in its insertion order.\<close>

primrec ALLOWED_TRANSITIONS :: "FlashnetOrderStatus \<Rightarrow> FlashnetOrderStatus list" where
  "ALLOWED_TRANSITIONS PENDING_PAYMENT = [PROCESSING]"
| "ALLOWED_TRANSITIONS PROCESSING =
     [CONFIRMING, BRIDGING, SWAPPING, AWAITING_APPROVAL, PAUSED, REFUNDING, DELIVERING,
      DELIVERED, FAILED, EXPIRED, UNFULFILLED, REFUNDED]"
| "ALLOWED_TRANSITIONS CONFIRMING =
     [BRIDGING, SWAPPING, REFUNDING, PAUSED, DELIVERING, DELIVERED, FAILED, EXPIRED, REFUNDED]"
| "ALLOWED_TRANSITIONS BRIDGING =
     [SWAPPING, PAUSED, DELIVERING, DELIVERED, FAILED, REFUNDED]"
| "ALLOWED_TRANSITIONS SWAPPING =
     [AWAITING_APPROVAL, PAUSED, REFUNDING, BRIDGING, DELIVERING, DELIVERED, FAILED, REFUNDED]"
| "ALLOWED_TRANSITIONS AWAITING_APPROVAL =
     [PROCESSING, CONFIRMING, SWAPPING, REFUNDING, PAUSED, FAILED, REFUNDED]"
| "ALLOWED_TRANSITIONS PAUSED = [PROCESSING, FAILED]"
| "ALLOWED_TRANSITIONS REFUNDING = [PAUSED, REFUNDED, FAILED]"
| "ALLOWED_TRANSITIONS DELIVERING =
     [CONFIRMING, PAUSED, REFUNDING, DELIVERED, FAILED, REFUNDED]"
| "ALLOWED_TRANSITIONS UNFULFILLED = [CONFIRMING, BRIDGING, SWAPPING, DELIVERING, DELIVERED]"
| "ALLOWED_TRANSITIONS DELIVERED = []"
| "ALLOWED_TRANSITIONS FAILED = []"
| "ALLOWED_TRANSITIONS EXPIRED = []"
| "ALLOWED_TRANSITIONS REFUNDED = []"

section \<open>Object lookups\<close>

text \<open>
  Both tables are plain objects indexed by a run-time string. A key that is not an own
  property is looked up on \<open>Object.prototype\<close>, whose property names are these; each of them
  has a truthy value there.
\<close>

definition object_prototype_keys :: "js_string list" where
  "object_prototype_keys =
     [''constructor'', ''__defineGetter__'', ''__defineSetter__'', ''hasOwnProperty'',
      ''__lookupGetter__'', ''__lookupSetter__'', ''isPrototypeOf'', ''propertyIsEnumerable'',
      ''toString'', ''valueOf'', ''__proto__'', ''toLocaleString'']"

text \<open>What \<open>mapping[event]\<close> may yield: a status, or an inherited property.\<close>

datatype event_status = Mapped FlashnetOrderStatus | Inherited js_string

datatype sm_error =
    UnknownCurrentState js_string
  | NotAFunction js_string \<comment> \<open>\<open>allowed.has\<close> on an inherited property\<close>
  | IllegalTransition js_string event_status "FlashnetOrderStatus list"
  | UnknownEvent js_string

text \<open>\<open>ALLOWED_TRANSITIONS[current]\<close> followed by the \<open>!allowed\<close> test and \<open>allowed.has\<close>.\<close>

definition allowed_for :: "js_string \<Rightarrow> sm_error + FlashnetOrderStatus list" where
  "allowed_for current =
     (case status_of current of
        Some s \<Rightarrow> Inr (ALLOWED_TRANSITIONS s)
      | None \<Rightarrow> if current \<in> set object_prototype_keys then Inl (NotAFunction current)
                else Inl (UnknownCurrentState current))"

fun set_has :: "FlashnetOrderStatus list \<Rightarrow> event_status \<Rightarrow> bool" where
  "set_has allowed (Mapped s) = (s \<in> set allowed)"
| "set_has allowed (Inherited p) = False"

definition validateTransition :: "js_string \<Rightarrow> event_status \<Rightarrow> sm_error + event_status" where
  "validateTransition current next =
     bind_result (allowed_for current) (\<lambda>allowed.
       if \<not> set_has allowed next then Inl (IllegalTransition current next allowed)
       else Inr next)"

datatype TransitionDecision =
    Apply FlashnetOrderStatus
  | Noop
  | Skip "FlashnetOrderStatus list"

fun is_status :: "js_string \<Rightarrow> event_status \<Rightarrow> bool" where
  "is_status s (Mapped x) = (s = status_name x)"
| "is_status s (Inherited p) = False"

definition classifyTransition :: "js_string \<Rightarrow> event_status \<Rightarrow> sm_error + TransitionDecision" where
  "classifyTransition current next =
     (if is_status current next then Inr Noop
      else bind_result (allowed_for current) (\<lambda>allowed.
        case next of
          Inherited _ \<Rightarrow> Inr (Skip allowed)
        | Mapped s \<Rightarrow> if s \<notin> set allowed then Inr (Skip allowed) else Inr (Apply s)))"

definition event_mapping :: "(js_string \<times> FlashnetOrderStatus) list" where
  "event_mapping =
     [(''order.paused'', PAUSED),
      (''order.expired'', EXPIRED),
      (''order.processing'', PROCESSING),
      (''order.confirming'', CONFIRMING),
      (''order.bridging'', BRIDGING),
      (''order.swapping'', SWAPPING),
      (''order.awaiting_approval'', AWAITING_APPROVAL),
      (''order.refunding'', REFUNDING),
      (''order.delivering'', DELIVERING),
      (''order.completed'', DELIVERED),
      (''order.failed'', FAILED),
      (''order.unfulfilled'', UNFULFILLED),
      (''order.refunded'', REFUNDED)]"

definition mapEventToStatus :: "js_string \<Rightarrow> sm_error + event_status" where
  "mapEventToStatus event =
     (case map_of event_mapping event of
        Some s \<Rightarrow> Inr (Mapped s)
      | None \<Rightarrow> if event \<in> set object_prototype_keys then Inr (Inherited event)
                else Inl (UnknownEvent event))"

section \<open>The order machine\<close>

text \<open>
  The abstract machine that the webhook handler is meant to implement: an order moves along
  the table, or straight to a terminal status. A pending order may start with any event,
  since the processing event may be late.
\<close>

definition terminal :: "FlashnetOrderStatus list" where
  "terminal = [DELIVERED, REFUNDED, FAILED, EXPIRED]"

inductive order_step :: "FlashnetOrderStatus \<Rightarrow> FlashnetOrderStatus \<Rightarrow> bool" where
  table: "t \<in> set (ALLOWED_TRANSITIONS s) \<Longrightarrow> order_step s t"
| late_start: "t \<in> set (ALLOWED_TRANSITIONS PROCESSING) \<Longrightarrow> order_step PENDING_PAYMENT t"
| settle: "s \<notin> set terminal \<Longrightarrow> t \<in> set terminal \<Longrightarrow> order_step s t"

inductive_cases order_stepE: "order_step s t"

inductive_simps order_step_from [simp]:
  "order_step DELIVERED t" "order_step REFUNDED t" "order_step FAILED t" "order_step EXPIRED t"

lemma status_of_name [simp]: "status_of (status_name s) = Some s"
  by (cases s) (simp_all add: status_of_def all_statuses_def)

lemma status_name_eq [simp]: "status_name s = status_name t \<longleftrightarrow> s = t"
  by (metis option.inject status_of_name)

lemma status_of_Some: "status_of x = Some s \<longleftrightarrow> x = status_name s"
  by (auto simp: status_of_def find_Some_iff)
     (metis find_Some_iff option.inject status_of_def status_of_name)

lemma not_prototype_key [simp]: "status_name s \<notin> set object_prototype_keys"
  by (cases s) (simp_all add: object_prototype_keys_def)

declare status_name.simps [simp del]

lemma allowed_for_status [simp]: "allowed_for (status_name s) = Inr (ALLOWED_TRANSITIONS s)"
  by (simp add: allowed_for_def)

lemma no_self_loop: "s \<notin> set (ALLOWED_TRANSITIONS s)"
  by (cases s) simp_all

lemma terminal_no_step: "s \<in> set terminal \<Longrightarrow> \<not> order_step s t"
  by (auto simp: terminal_def)

lemma never_back_to_pending: "\<not> order_step s PENDING_PAYMENT"
  by (cases s) (auto elim: order_stepE simp: terminal_def)

lemma mapEventToStatus_Mapped:
  "mapEventToStatus e = Inr (Mapped s) \<longleftrightarrow> (e, s) \<in> set event_mapping"
proof -
  have "distinct (map fst event_mapping)" by (simp add: event_mapping_def)
  then have "map_of event_mapping e = Some s \<longleftrightarrow> (e, s) \<in> set event_mapping"
    by (rule map_of_eq_Some_iff)
  then show ?thesis
    by (cases "map_of event_mapping e") (auto simp: mapEventToStatus_def)
qed

text \<open>
  On a known current status the non-throwing classifier and the throwing validator agree:
  the classifier applies a status exactly when the validator accepts it, reports a redelivery
  exactly when the status is unchanged, and skips, without throwing, exactly when the
  validator rejects a change; a skip carries the validator's list of allowed statuses.
\<close>

theorem classify_matches_validate:
  "classifyTransition (status_name s) (Mapped t) =
     (if s = t then Inr Noop
      else case validateTransition (status_name s) (Mapped t) of
             Inr _ \<Rightarrow> Inr (Apply t)
           | Inl _ \<Rightarrow> Inr (Skip (ALLOWED_TRANSITIONS s)))
   \<and> validateTransition (status_name s) (Mapped t) =
       (if t \<in> set (ALLOWED_TRANSITIONS s) then Inr (Mapped t)
        else Inl (IllegalTransition (status_name s) (Mapped t) (ALLOWED_TRANSITIONS s)))"
  by (simp add: classifyTransition_def validateTransition_def)

text \<open>
  Every order can still settle: from each status that is not terminal the machine reaches
  delivery and reaches failure, and no sequence of steps leads back to the initial
  status or out of a terminal one.
\<close>

theorem order_machine_settles:
  "(s \<notin> set terminal \<longrightarrow> order_step s DELIVERED \<and> order_step s FAILED)
   \<and> (s \<in> set terminal \<longrightarrow> order_step\<^sup>*\<^sup>* s t \<longrightarrow> t = s)
   \<and> (order_step\<^sup>*\<^sup>* s PENDING_PAYMENT \<longrightarrow> s = PENDING_PAYMENT)"
proof (intro conjI impI)
  assume "s \<in> set terminal" and "order_step\<^sup>*\<^sup>* s t"
  then show "t = s" by (auto elim: converse_rtranclpE dest: terminal_no_step)
next
  assume "order_step\<^sup>*\<^sup>* s PENDING_PAYMENT"
  then show "s = PENDING_PAYMENT" using never_back_to_pending by (blast elim: rtranclp.cases)
qed (simp_all add: order_step.settle terminal_def)

theorem order_machine_settles_witness:
  "order_step PAUSED DELIVERED \<and> order_step PAUSED FAILED"
  using order_machine_settles [of PAUSED] by (simp add: terminal_def)

end
