(* ===== verification/Db.thy ===== *)
theory Db
  imports Prelude
begin

text \<open>
  The relational store as the services see it through the Prisma client: the rows of
  \<open>prisma/schema.prisma\<close> as records, a table as the list of its rows in insertion order,
  and the calls \<open>create\<close>, \<open>update\<close>, \<open>findUnique\<close>, \<open>findFirst\<close> with the unique indexes and
  foreign keys that the schema and its migrations declare.

  String columns use the collation \<open>utf8mb4_unicode_ci\<close> of the migrations. The collation
  is the database server's code, so it is a parameter \<open>ck\<close> of every operation: it maps a
  string to its sort key, and two strings are equal to the database when their keys are.
  Nothing is assumed about it unless a theorem says so.
\<close>

section \<open>Rows\<close>

text \<open>
  The columns that some operation of the services reads are fields. Columns that are written
  once and never read back are left out: \<open>createdAt\<close> and \<open>updatedAt\<close> where nothing returns
  them, \<open>metadataJson\<close> of a nonce, \<open>rawBody\<close> and \<open>signature\<close> of a webhook event.
\<close>

datatype ReceivingCurrency = SATS | USDB

record User =
  user_id :: js_string
  user_updatedAt :: time_ms
  defaultReceivingCurrency :: ReceivingCurrency
  bonusUsernameChanges :: int

record LightningName =
  ln_id :: js_string
  ln_username :: js_string
  ln_userId :: js_string
  linkingPubKeyHex :: js_string
  ln_active :: bool
  activePubKey :: "js_string option"
  ln_createdAt :: time_ms

record AuthNonce =
  an_id :: js_string
  an_k1 :: js_string
  an_expiresAt :: time_ms
  usedAt :: "time_ms option"

record Invoice =
  inv_id :: js_string
  usernameId :: js_string
  amountMsat :: int
  bolt11 :: js_string
  inv_expiresAt :: time_ms
  inv_status :: js_string
  receivingCurrency :: ReceivingCurrency
  destinationSparkAddress :: "js_string option"

record FlashnetOrder =
  fo_id :: js_string
  fo_invoiceId :: js_string
  fo_quoteId :: "js_string option"
  fo_orderId :: "js_string option"
  lightningReceiveRequestId :: "js_string option"
  estimatedOut :: "rat option"
  lockedMinAmountOut :: "rat option"
  actualOut :: "rat option"
  fo_feeAmount :: "rat option"
  roundingFeeAmount :: "rat option"
  totalFeeAmount :: "rat option"
  fo_feeBps :: "int option"
  fo_feeAsset :: "js_string option"
  fo_route :: "js_string option"
  fo_priceLockMode :: "js_string option"
  fo_status :: "js_string option"
  errorCode :: "js_string option"
  errorMessage :: "js_string option"

record FlashnetWebhookEvent =
  we_id :: js_string
  we_orderId :: js_string
  we_event :: js_string
  we_timestamp :: int
  processedAt :: "time_ms option"

record RefundCase =
  rc_id :: js_string
  rc_invoiceId :: js_string
  rc_amountSats :: int
  rc_reason :: js_string
  rc_externalRef :: "js_string option"
  rc_payeeLnAddress :: "js_string option"
  rc_status :: js_string
  rc_createdAt :: time_ms
  rc_resolvedAt :: "time_ms option"

record db =
  users :: "User list"
  lightning_names :: "LightningName list"
  auth_nonces :: "AuthNonce list"
  invoices :: "Invoice list"
  flashnet_orders :: "FlashnetOrder list"
  webhook_events :: "FlashnetWebhookEvent list"
  refund_cases :: "RefundCase list"

definition empty_db :: db where
  "empty_db = \<lparr>users = [], lightning_names = [], auth_nonces = [], invoices = [],
     flashnet_orders = [], webhook_events = [], refund_cases = []\<rparr>"

section \<open>Unique indexes\<close>

text \<open>
  A unique index has a name and a key, a tuple of cells; a key with a \<open>NULL\<close> part is
  \<open>None\<close> and never clashes. The error codes are Prisma's: a unique violation carries the
  name of the index.
\<close>

datatype cell = Text js_string | Num int

type_synonym collation = "js_string \<Rightarrow> js_string"
type_synonym 'r uindex = "js_string \<times> ('r \<Rightarrow> cell list option)"

datatype db_error =
    P2002 js_string \<comment> \<open>unique constraint, with the index name\<close>
  | P2003 \<comment> \<open>foreign key constraint\<close>
  | P2025 \<comment> \<open>record to update not found\<close>
  | P2028 \<comment> \<open>transaction timeout\<close>
  | P2034 \<comment> \<open>write conflict or deadlock\<close>

fun cell_key :: "collation \<Rightarrow> cell \<Rightarrow> cell" where
  "cell_key ck (Text s) = Text (ck s)"
| "cell_key ck (Num i) = Num i"

definition text_eq :: "collation \<Rightarrow> js_string \<Rightarrow> js_string \<Rightarrow> bool" where
  "text_eq ck a b \<longleftrightarrow> ck a = ck b"

definition row_key :: "collation \<Rightarrow> ('r \<Rightarrow> cell list option) \<Rightarrow> 'r \<Rightarrow> cell list option" where
  "row_key ck k r = map_option (map (cell_key ck)) (k r)"

definition clash :: "collation \<Rightarrow> 'r uindex \<Rightarrow> 'r \<Rightarrow> 'r \<Rightarrow> bool" where
  "clash ck ix r r' \<longleftrightarrow>
     row_key ck (snd ix) r \<noteq> None \<and> row_key ck (snd ix) r = row_key ck (snd ix) r'"

text \<open>The first index that a row would violate next to the rows of \<open>t\<close>.\<close>

definition violated :: "collation \<Rightarrow> 'r uindex list \<Rightarrow> 'r \<Rightarrow> 'r list \<Rightarrow> js_string option" where
  "violated ck ixs r t = map_option fst (find (\<lambda>ix. list_ex (clash ck ix r) t) ixs)"

section \<open>Table operations\<close>

definition tbl_create :: "collation \<Rightarrow> 'r uindex list \<Rightarrow> 'r \<Rightarrow> 'r list \<Rightarrow> db_error + 'r list" where
  "tbl_create ck ixs r t =
     (case violated ck ixs r t of Some n \<Rightarrow> Inl (P2002 n) | None \<Rightarrow> Inr (t @ [r]))"

text \<open>\<open>update\<close> with a \<open>where\<close> that selects one row by a unique field.\<close>

definition tbl_update ::
  "collation \<Rightarrow> 'r uindex list \<Rightarrow> ('r \<Rightarrow> bool) \<Rightarrow> ('r \<Rightarrow> 'r) \<Rightarrow> 'r list \<Rightarrow> db_error + 'r list" where
  "tbl_update ck ixs P f t =
     (case find P t of
        None \<Rightarrow> Inl P2025
      | Some r \<Rightarrow>
          (case violated ck ixs (f r) (filter (\<lambda>x. \<not> P x) t) of
             Some n \<Rightarrow> Inl (P2002 n)
           | None \<Rightarrow> Inr (map (\<lambda>x. if P x then f x else x) t)))"

definition where_key :: "collation \<Rightarrow> ('r \<Rightarrow> cell list option) \<Rightarrow> cell list \<Rightarrow> 'r \<Rightarrow> bool" where
  "where_key ck k v r \<longleftrightarrow> row_key ck k r = Some (map (cell_key ck) v)"

definition find_unique ::
  "collation \<Rightarrow> ('r \<Rightarrow> cell list option) \<Rightarrow> cell list \<Rightarrow> 'r list \<Rightarrow> 'r option" where
  "find_unique ck k v t = find (where_key ck k v) t"

text \<open>The invariant that the indexes enforce: no two rows clash on any of them.\<close>

definition no_clash :: "collation \<Rightarrow> 'r uindex list \<Rightarrow> 'r \<Rightarrow> 'r \<Rightarrow> bool" where
  "no_clash ck ixs r r' \<longleftrightarrow> list_all (\<lambda>ix. \<not> clash ck ix r r') ixs"

definition uniq :: "collation \<Rightarrow> 'r uindex list \<Rightarrow> 'r list \<Rightarrow> bool" where
  "uniq ck ixs t \<longleftrightarrow> sorted_wrt (no_clash ck ixs) t"

lemma clash_sym: "clash ck ix r r' \<longleftrightarrow> clash ck ix r' r"
  unfolding clash_def by metis

lemma no_clash_sym: "no_clash ck ixs r r' \<longleftrightarrow> no_clash ck ixs r' r"
  by (simp add: no_clash_def clash_sym [of ck _ r])

lemma violated_None [db_simps]:
  "violated ck ixs r t = None \<longleftrightarrow> (\<forall>x \<in> set t. no_clash ck ixs r x)"
  by (auto simp: violated_def find_None_iff list_ex_iff list_all_iff no_clash_def)

lemma violated_Some:
  assumes "violated ck ixs r t = Some n"
  shows "\<exists>k x. (n, k) \<in> set ixs \<and> x \<in> set t \<and> clash ck (n, k) r x"
proof -
  from assms obtain ix where "find (\<lambda>ix. list_ex (clash ck ix r) t) ixs = Some ix" "n = fst ix"
    by (auto simp: violated_def)
  then have "ix \<in> set ixs" "list_ex (clash ck ix r) t"
    by (auto simp: find_Some_iff)
  with \<open>n = fst ix\<close> show ?thesis by (cases ix) (auto simp: list_ex_iff)
qed

lemma uniq_Nil [simp]: "uniq ck ixs []"
  by (simp add: uniq_def)

lemma uniq_append1 [db_simps]:
  "uniq ck ixs (t @ [r]) \<longleftrightarrow> uniq ck ixs t \<and> (\<forall>x \<in> set t. no_clash ck ixs r x)"
  using no_clash_sym [of ck ixs r] by (auto simp: uniq_def sorted_wrt_append)

lemma uniq_middle:
  "uniq ck ixs (xs @ r # ys) \<longleftrightarrow>
     uniq ck ixs (xs @ ys) \<and> (\<forall>x \<in> set (xs @ ys). no_clash ck ixs r x)"
  using no_clash_sym [of ck ixs r] by (auto simp: uniq_def sorted_wrt_append)

lemma uniq_clash_eq:
  assumes "uniq ck ixs t" and "ix \<in> set ixs" and "r \<in> set t" and "r' \<in> set t"
    and "clash ck ix r r'"
  shows "r = r'"
proof (rule ccontr)
  assume ne: "r \<noteq> r'"
  from assms(3) obtain xs ys where t: "t = xs @ r # ys" by (auto simp: in_set_conv_decomp)
  with ne assms(4) have "r' \<in> set (xs @ ys)" by auto
  with assms(1) t have "no_clash ck ixs r r'" by (auto simp: uniq_middle)
  with assms(2,5) show False by (auto simp: no_clash_def list_all_iff)
qed

text \<open>A unique field selects one row: the table splits around it.\<close>

lemma find_unique_split:
  assumes u: "uniq ck ixs t" and ix: "(n, k) \<in> set ixs"
    and f: "find (where_key ck k v) t = Some r"
  shows "\<exists>xs ys. t = xs @ r # ys \<and> where_key ck k v r
           \<and> (\<forall>x \<in> set (xs @ ys). \<not> where_key ck k v x)"
proof -
  have r: "r \<in> set t" "where_key ck k v r"
    using f by (auto simp: find_Some_iff)
  then obtain xs ys where t: "t = xs @ r # ys" by (auto simp: in_set_conv_decomp)
  have "\<not> where_key ck k v x" if x: "x \<in> set (xs @ ys)" for x
  proof
    assume "where_key ck k v x"
    with r(2) have "clash ck (n, k) r x" by (simp add: clash_def where_key_def)
    moreover have "no_clash ck ixs r x" using u t x by (auto simp: uniq_middle)
    ultimately show False using ix by (auto simp: no_clash_def list_all_iff)
  qed
  with r t show ?thesis by blast
qed

lemma tbl_create_Inr:
  "tbl_create ck ixs r t = Inr t' \<longleftrightarrow> t' = t @ [r] \<and> (\<forall>x \<in> set t. no_clash ck ixs r x)"
  using violated_None [of ck ixs r t] by (auto simp: tbl_create_def split: option.splits)

lemma tbl_create_uniq [inv_intros]:
  "uniq ck ixs t \<Longrightarrow> tbl_create ck ixs r t = Inr t' \<Longrightarrow> uniq ck ixs t'"
  by (auto simp: tbl_create_Inr uniq_append1)

lemma tbl_create_Inl:
  assumes "tbl_create ck ixs r t = Inl e"
  shows "\<exists>n. e = P2002 n"
  using assms by (auto simp: tbl_create_def split: option.splits)

lemma tbl_update_split:
  assumes u: "uniq ck ixs t" and ix: "(n, k) \<in> set ixs"
    and up: "tbl_update ck ixs (where_key ck k v) f t = Inr t'"
  shows "\<exists>xs r ys. t = xs @ r # ys \<and> t' = xs @ f r # ys \<and> where_key ck k v r
           \<and> find (where_key ck k v) t = Some r
           \<and> (\<forall>x \<in> set (xs @ ys). \<not> where_key ck k v x \<and> no_clash ck ixs (f r) x)"
proof -
  from up obtain r where f: "find (where_key ck k v) t = Some r"
    and v: "violated ck ixs (f r) (filter (\<lambda>x. \<not> where_key ck k v x) t) = None"
    and t': "t' = map (\<lambda>x. if where_key ck k v x then f x else x) t"
    by (auto simp: tbl_update_def split: option.splits)
  from find_unique_split [OF u ix f] obtain xs ys where
    s: "t = xs @ r # ys" "where_key ck k v r" "\<forall>x \<in> set (xs @ ys). \<not> where_key ck k v x"
    by blast
  then have "filter (\<lambda>x. \<not> where_key ck k v x) t = xs @ ys"
    by (auto simp: filter_id_conv)
  moreover have "t' = xs @ f r # ys"
    using s t' by (auto intro!: map_idI)
  ultimately show ?thesis using s v f by (auto simp: violated_None)
qed

lemma tbl_update_uniq [inv_intros]:
  assumes "uniq ck ixs t" and "(n, k) \<in> set ixs"
    and "tbl_update ck ixs (where_key ck k v) f t = Inr t'"
  shows "uniq ck ixs t'"
  using tbl_update_split [OF assms] assms(1) by (auto simp: uniq_middle)

section \<open>The contract of a table with a unique field\<close>

text \<open>
  What the services rely on when they look a row up by a unique field: a row that was
  created is found, rows are never displaced by a create, and a taken key is refused.
\<close>

locale keyed_table =
  fixes create :: "'r \<Rightarrow> 't \<Rightarrow> db_error + 't"
    and lookup :: "'k \<Rightarrow> 't \<Rightarrow> 'r option"
    and key :: "'r \<Rightarrow> 'k"
    and good :: "'t \<Rightarrow> bool"
  assumes create_lookup: "create r t = Inr t' \<Longrightarrow> lookup (key r) t' = Some r"
    and create_frame: "create r t = Inr t' \<Longrightarrow> lookup k t = Some x \<Longrightarrow> lookup k t' = Some x"
    and create_new: "create r t = Inr t' \<Longrightarrow> lookup k t' = Some x \<Longrightarrow> lookup k t = Some x \<or> x = r"
    and create_taken: "lookup (key r) t \<noteq> None \<Longrightarrow> \<exists>n. create r t = Inl (P2002 n)"
    and create_good: "good t \<Longrightarrow> create r t = Inr t' \<Longrightarrow> good t'"
begin

lemma created_key_was_free: "create r t = Inr t' \<Longrightarrow> lookup (key r) t = None"
  using create_taken by fastforce

lemma second_create_refused:
  assumes "create r t = Inr t'" and "key r' = key r"
  shows "\<exists>n. create r' t' = Inl (P2002 n)"
  using create_lookup [OF assms(1)] assms(2) by (intro create_taken) simp

lemma lookup_stable_over_creates:
  assumes "foldl (\<lambda>s r. bind_result s (create r)) (Inr t) rs = Inr t'"
    and "lookup k t = Some x"
  shows "lookup k t' = Some x"
proof -
  have fail: "foldl (\<lambda>s r. bind_result s (create r)) (Inl e) qs = Inl e" for e qs
    by (induction qs) simp_all
  show ?thesis
    using assms
  proof (induction rs arbitrary: t)
    case Nil
    then show ?case by simp
  next
    case (Cons r rs)
    then obtain t1 where "create r t = Inr t1"
      by (cases "create r t") (simp_all add: fail)
    with Cons show ?case by (auto intro: create_frame)
  qed
qed

end

text \<open>Every table whose first index is the looked-up one meets the contract.\<close>

lemma find_append_Some: "find P (t @ [r]) = (case find P t of Some x \<Rightarrow> Some x | None \<Rightarrow> if P r then Some r else None)"
  by (induction t) auto

lemma keyed_tableI:
  assumes ix: "(n, k) \<in> set ixs" and key: "\<And>r. k r = Some (key r)"
  shows "keyed_table (tbl_create ck ixs) (find_unique ck k) key (uniq ck ixs)"
proof
  fix r t t'
  assume c: "tbl_create ck ixs r t = Inr t'"
  have free: "find (where_key ck k (key r)) t = None"
  proof (rule ccontr)
    assume "find (where_key ck k (key r)) t \<noteq> None"
    then obtain x where "x \<in> set t" "where_key ck k (key r) x"
      by (auto simp: find_None_iff)
    then have "clash ck (n, k) r x" by (simp add: clash_def where_key_def row_key_def key)
    with \<open>x \<in> set t\<close> c ix show False
      by (auto simp: tbl_create_Inr no_clash_def list_all_iff)
  qed
  show "find_unique ck k (key r) t' = Some r"
    using c free by (simp add: tbl_create_Inr find_unique_def find_append_Some where_key_def row_key_def key)
next
  fix r t assume "find_unique ck k (key r) t \<noteq> None"
  then obtain x where "x \<in> set t" "where_key ck k (key r) x"
    by (auto simp: find_unique_def find_None_iff)
  then have "clash ck (n, k) r x" by (simp add: clash_def where_key_def row_key_def key)
  with \<open>x \<in> set t\<close> ix have "violated ck ixs r t \<noteq> None"
    by (auto simp: violated_None no_clash_def list_all_iff)
  then show "\<exists>n. tbl_create ck ixs r t = Inl (P2002 n)"
    by (auto simp: tbl_create_def)
qed (auto simp: tbl_create_Inr find_unique_def find_append_Some uniq_append1
       split: option.splits if_splits)

section \<open>The indexes of the schema\<close>

text \<open>
  The primary key and the unique indexes, in the order of the schema, under the names
  that the migrations give them.
\<close>

definition ln_username_key :: "LightningName \<Rightarrow> cell list option" where
  "ln_username_key r = Some [Text (ln_username r)]"

definition lightning_name_ixs :: "LightningName uindex list" where
  "lightning_name_ixs =
     [(''PRIMARY'', \<lambda>r. Some [Text (ln_id r)]),
      (''lightning_names_username_key'', ln_username_key),
      (''lightning_names_activePubKey_key'', \<lambda>r. map_option (\<lambda>p. [Text p]) (activePubKey r))]"

definition auth_nonce_ixs :: "AuthNonce uindex list" where
  "auth_nonce_ixs =
     [(''PRIMARY'', \<lambda>r. Some [Text (an_id r)]),
      (''auth_nonces_k1_key'', \<lambda>r. Some [Text (an_k1 r)])]"

definition user_ixs :: "User uindex list" where
  "user_ixs = [(''PRIMARY'', \<lambda>r. Some [Text (user_id r)])]"

definition invoice_ixs :: "Invoice uindex list" where
  "invoice_ixs = [(''PRIMARY'', \<lambda>r. Some [Text (inv_id r)])]"

definition flashnet_order_ixs :: "FlashnetOrder uindex list" where
  "flashnet_order_ixs =
     [(''PRIMARY'', \<lambda>r. Some [Text (fo_id r)]),
      (''flashnet_orders_invoiceId_key'', \<lambda>r. Some [Text (fo_invoiceId r)]),
      (''flashnet_orders_quoteId_key'', \<lambda>r. map_option (\<lambda>q. [Text q]) (fo_quoteId r)),
      (''flashnet_orders_orderId_key'', \<lambda>r. map_option (\<lambda>q. [Text q]) (fo_orderId r)),
      (''flashnet_orders_lightningReceiveRequestId_key'',
         \<lambda>r. map_option (\<lambda>q. [Text q]) (lightningReceiveRequestId r))]"

definition we_key :: "FlashnetWebhookEvent \<Rightarrow> cell list option" where
  "we_key r = Some [Text (we_orderId r), Text (we_event r), Num (we_timestamp r)]"

definition webhook_event_ixs :: "FlashnetWebhookEvent uindex list" where
  "webhook_event_ixs =
     [(''PRIMARY'', \<lambda>r. Some [Text (we_id r)]),
      (''flashnet_webhook_events_orderId_event_timestamp_key'', we_key)]"

definition rc_invoiceId_key :: "RefundCase \<Rightarrow> cell list option" where
  "rc_invoiceId_key r = Some [Text (rc_invoiceId r)]"

definition refund_case_ixs :: "RefundCase uindex list" where
  "refund_case_ixs =
     [(''PRIMARY'', \<lambda>r. Some [Text (rc_id r)]),
      (''refund_cases_invoiceId_key'', rc_invoiceId_key)]"

interpretation names_tbl: keyed_table
  "tbl_create ck lightning_name_ixs" "find_unique ck ln_username_key"
  "\<lambda>r. [Text (ln_username r)]" "uniq ck lightning_name_ixs" for ck
  by (rule keyed_tableI [where n = "''lightning_names_username_key''"])
     (simp_all add: lightning_name_ixs_def ln_username_key_def)

interpretation events_tbl: keyed_table
  "tbl_create ck webhook_event_ixs" "find_unique ck we_key"
  "\<lambda>r. [Text (we_orderId r), Text (we_event r), Num (we_timestamp r)]"
  "uniq ck webhook_event_ixs" for ck
  by (rule keyed_tableI [where n = "''flashnet_webhook_events_orderId_event_timestamp_key''"])
     (simp_all add: webhook_event_ixs_def we_key_def)

interpretation cases_tbl: keyed_table
  "tbl_create ck refund_case_ixs" "find_unique ck rc_invoiceId_key"
  "\<lambda>r. [Text (rc_invoiceId r)]" "uniq ck refund_case_ixs" for ck
  by (rule keyed_tableI [where n = "''refund_cases_invoiceId_key''"])
     (simp_all add: refund_case_ixs_def rc_invoiceId_key_def)

end
