(* ===== verification/Refund_Case.thy ===== *)
theory Refund_Case
  imports Db
begin

text \<open>
  Refund cases, the operations queue of failed payments: \<open>src/refund-case/refund-case.service.ts\<close>
  and the controller in front of it. A case is opened by the webhook handler and resolved by an
  operator. The generated row id and the clock are arguments.
\<close>

section \<open>Operations\<close>

record CreateRefundCaseParams =
  crc_invoiceId :: js_string
  crc_amountSats :: int
  crc_reason :: js_string
  crc_externalRef :: "js_string option"

record MarkPaidOpts =
  mp_externalRef :: "js_string option"
  mp_payeeLnAddress :: "js_string option"

datatype refund_error =
    CaseNotFound js_string \<comment> \<open>404\<close>
  | CaseNotOpen js_string js_string \<comment> \<open>400, with the status it is in\<close>
  | InvalidSkip int \<comment> \<open>a negative \<open>skip\<close> is refused by the client library\<close>
  | RefundDbError db_error

definition OPEN :: js_string where "OPEN = ''OPEN''"
definition PAID :: js_string where "PAID = ''PAID''"
definition ABANDONED :: js_string where "ABANDONED = ''ABANDONED''"

definition invoice_by_id :: "collation \<Rightarrow> js_string \<Rightarrow> db \<Rightarrow> Invoice option" where
  "invoice_by_id ck i d = find (\<lambda>r. text_eq ck (inv_id r) i) (invoices d)"

definition case_by_invoice :: "collation \<Rightarrow> js_string \<Rightarrow> db \<Rightarrow> RefundCase option" where
  "case_by_invoice ck i d = find_unique ck rc_invoiceId_key [Text i] (refund_cases d)"

definition new_case :: "js_string \<Rightarrow> time_ms \<Rightarrow> CreateRefundCaseParams \<Rightarrow> RefundCase" where
  "new_case nid now p =
     \<lparr>rc_id = nid, rc_invoiceId = crc_invoiceId p, rc_amountSats = crc_amountSats p,
      rc_reason = crc_reason p, rc_externalRef = crc_externalRef p, rc_payeeLnAddress = None,
      rc_status = OPEN, rc_createdAt = now, rc_resolvedAt = None\<rparr>"

text \<open>
  The row to insert, the foreign key to the invoice, and on a unique violation the existing
  row of the invoice instead of an error.
\<close>

definition createRefundCase ::
  "collation \<Rightarrow> js_string \<Rightarrow> time_ms \<Rightarrow> CreateRefundCaseParams \<Rightarrow> db
   \<Rightarrow> refund_error + RefundCase option \<times> db" where
  "createRefundCase ck nid now p d =
     (if invoice_by_id ck (crc_invoiceId p) d = None then Inl (RefundDbError P2003)
      else case tbl_create ck refund_case_ixs (new_case nid now p) (refund_cases d) of
        Inr t \<Rightarrow> Inr (Some (new_case nid now p), d\<lparr>refund_cases := t\<rparr>)
      | Inl (P2002 _) \<Rightarrow> Inr (case_by_invoice ck (crc_invoiceId p) d, d)
      | Inl e \<Rightarrow> Inl (RefundDbError e))"

definition MAX_LIMIT :: int where "MAX_LIMIT = 200"
definition DEFAULT_LIMIT :: int where "DEFAULT_LIMIT = 50"
definition DEFAULT_OFFSET :: int where "DEFAULT_OFFSET = 0"

text \<open>
  \<open>findMany\<close> with \<open>take\<close> and \<open>skip\<close>: a negative \<open>take\<close> counts from the end of the ordered
  rows, a negative \<open>skip\<close> is an error.
\<close>

definition take_skip :: "int \<Rightarrow> int \<Rightarrow> 'r list \<Rightarrow> refund_error + 'r list" where
  "take_skip n k rows =
     (if k < 0 then Inl (InvalidSkip k)
      else if 0 \<le> n then Inr (take (nat n) (drop (nat k) rows))
      else Inr (rev (take (nat (- n)) (drop (nat k) (rev rows)))))"

definition open_cases :: "db \<Rightarrow> RefundCase list" where
  "open_cases d = filter (\<lambda>r. rc_status r = OPEN) (refund_cases d)"

definition listOpenRefundCases ::
  "int option \<Rightarrow> int option \<Rightarrow> db \<Rightarrow> refund_error + RefundCase list \<times> nat" where
  "listOpenRefundCases limit_opt offset_opt d =
     (let limit = min (case limit_opt of None \<Rightarrow> DEFAULT_LIMIT | Some l \<Rightarrow> l) MAX_LIMIT;
          offset = (case offset_opt of None \<Rightarrow> DEFAULT_OFFSET | Some k \<Rightarrow> k);
          rows = sort_key (\<lambda>r. - rc_createdAt r) (open_cases d)
      in bind_result (take_skip limit offset rows)
           (\<lambda>data. Inr (data, length (open_cases d))))"

definition findById :: "collation \<Rightarrow> js_string \<Rightarrow> db \<Rightarrow> RefundCase option" where
  "findById ck i d = find (\<lambda>r. text_eq ck (rc_id r) i) (refund_cases d)"

text \<open>
  \<open>markPaid\<close> and \<open>markAbandoned\<close> read the row, test its status, and write in a second
  statement; the two statements are separate definitions so that other requests can run in
  between.
\<close>

definition resolve_check :: "collation \<Rightarrow> js_string \<Rightarrow> db \<Rightarrow> refund_error + RefundCase" where
  "resolve_check ck i d =
     (case findById ck i d of
        None \<Rightarrow> Inl (CaseNotFound i)
      | Some r \<Rightarrow> if rc_status r \<noteq> OPEN then Inl (CaseNotOpen i (rc_status r)) else Inr r)"

definition update_case ::
  "collation \<Rightarrow> js_string \<Rightarrow> (RefundCase \<Rightarrow> RefundCase) \<Rightarrow> db \<Rightarrow> refund_error + RefundCase \<times> db" where
  "update_case ck i f d =
     (case tbl_update ck refund_case_ixs (where_key ck (\<lambda>r. Some [Text (rc_id r)]) [Text i]) f
             (refund_cases d) of
        Inl e \<Rightarrow> Inl (RefundDbError e)
      | Inr t \<Rightarrow> (case find (\<lambda>r. text_eq ck (rc_id r) i) t of
                    None \<Rightarrow> Inl (RefundDbError P2025)
                  | Some r \<Rightarrow> Inr (r, d\<lparr>refund_cases := t\<rparr>)))"

definition set_if :: "'a option \<Rightarrow> 'a option \<Rightarrow> 'a option" where
  "set_if v old = (case v of None \<Rightarrow> old | Some x \<Rightarrow> Some x)"

definition paid_row :: "time_ms \<Rightarrow> MarkPaidOpts \<Rightarrow> RefundCase \<Rightarrow> RefundCase" where
  "paid_row now opts r =
     r\<lparr>rc_status := PAID, rc_resolvedAt := Some now,
       rc_externalRef := set_if (mp_externalRef opts) (rc_externalRef r),
       rc_payeeLnAddress := set_if (mp_payeeLnAddress opts) (rc_payeeLnAddress r)\<rparr>"

definition abandoned_row :: "time_ms \<Rightarrow> js_string option \<Rightarrow> RefundCase \<Rightarrow> RefundCase" where
  "abandoned_row now reason r =
     r\<lparr>rc_status := ABANDONED, rc_resolvedAt := Some now,
       rc_reason := (case reason of None \<Rightarrow> rc_reason r | Some x \<Rightarrow> x)\<rparr>"

definition markPaid ::
  "collation \<Rightarrow> time_ms \<Rightarrow> js_string \<Rightarrow> MarkPaidOpts \<Rightarrow> db \<Rightarrow> refund_error + RefundCase \<times> db" where
  "markPaid ck now i opts d =
     bind_result (resolve_check ck i d) (\<lambda>_. update_case ck i (paid_row now opts) d)"

definition markAbandoned ::
  "collation \<Rightarrow> time_ms \<Rightarrow> js_string \<Rightarrow> js_string option \<Rightarrow> db \<Rightarrow> refund_error + RefundCase \<times> db" where
  "markAbandoned ck now i reason d =
     bind_result (resolve_check ck i d) (\<lambda>_. update_case ck i (abandoned_row now reason) d)"

text \<open>\<open>RefundCaseController.findOne\<close>.\<close>

definition findOne :: "collation \<Rightarrow> js_string \<Rightarrow> db \<Rightarrow> refund_error + RefundCase" where
  "findOne ck i d = (case findById ck i d of None \<Rightarrow> Inl (CaseNotFound i) | Some r \<Rightarrow> Inr r)"

section \<open>Opening cases\<close>

abbreviation cases_ok :: "collation \<Rightarrow> db \<Rightarrow> bool" where
  "cases_ok ck d \<equiv> uniq ck refund_case_ixs (refund_cases d)"

lemma rc_primary_in: "(''PRIMARY'', \<lambda>r. Some [Text (rc_id r)]) \<in> set refund_case_ixs"
  by (simp add: refund_case_ixs_def)

lemma createRefundCase_cases:
  assumes "createRefundCase ck nid now p d = Inr (r, d')"
  obtains (opened) "tbl_create ck refund_case_ixs (new_case nid now p) (refund_cases d)
                      = Inr (refund_cases d @ [new_case nid now p])"
            "r = Some (new_case nid now p)"
            "d' = d\<lparr>refund_cases := refund_cases d @ [new_case nid now p]\<rparr>"
        | (existing) n where "tbl_create ck refund_case_ixs (new_case nid now p) (refund_cases d)
                      = Inl (P2002 n)"
            "r = case_by_invoice ck (crc_invoiceId p) d" "d' = d"
proof (cases "tbl_create ck refund_case_ixs (new_case nid now p) (refund_cases d)")
  case (Inl e)
  then obtain n where n: "e = P2002 n" by (blast dest: tbl_create_Inl)
  with Inl assms have e: "r = case_by_invoice ck (crc_invoiceId p) d" "d' = d"
    by (auto simp: createRefundCase_def split: if_splits)
  show thesis by (rule existing [OF _ e]) (simp add: Inl n)
next
  case (Inr t)
  then have "t = refund_cases d @ [new_case nid now p]" by (simp add: tbl_create_Inr)
  with Inr assms show thesis
    by (intro opened) (simp_all add: createRefundCase_def split: if_splits)
qed

lemma createRefundCase_ok [inv_intros]:
  assumes "cases_ok ck d" and "createRefundCase ck nid now p d = Inr (r, d')"
  shows "cases_ok ck d'"
  using assms(2)
proof (cases rule: createRefundCase_cases)
  case opened
  with assms(1) show ?thesis by (auto intro: cases_tbl.create_good)
qed (use assms(1) in simp)

text \<open>Opening a case never touches the cases of other invoices, nor an existing case.\<close>

lemma createRefundCase_keeps:
  assumes "createRefundCase ck nid now p d = Inr (r, d')" and "case_by_invoice ck i d = Some c"
  shows "case_by_invoice ck i d' = Some c"
  using assms(1)
proof (cases rule: createRefundCase_cases)
  case opened
  with assms(2) show ?thesis by (auto simp: case_by_invoice_def intro: cases_tbl.create_frame)
qed (use assms(2) in simp)

lemma createRefundCase_subset:
  assumes "createRefundCase ck nid now p d = Inr (r, d')"
  shows "set (refund_cases d) \<subseteq> set (refund_cases d')"
    and "d'\<lparr>refund_cases := refund_cases d\<rparr> = d"
  using assms by (cases rule: createRefundCase_cases; auto)+


text \<open>A generated id that no case carries yet.\<close>

definition fresh_case_id :: "collation \<Rightarrow> js_string \<Rightarrow> db \<Rightarrow> bool" where
  "fresh_case_id ck nid d \<longleftrightarrow> list_all (\<lambda>c. \<not> text_eq ck (rc_id c) nid) (refund_cases d)"

lemma create_case_taken_iff:
  assumes "fresh_case_id ck (rc_id c) d"
  shows "(\<exists>n. tbl_create ck refund_case_ixs c (refund_cases d) = Inl (P2002 n))
           \<longleftrightarrow> case_by_invoice ck (rc_invoiceId c) d \<noteq> None"
proof
  assume "\<exists>n. tbl_create ck refund_case_ixs c (refund_cases d) = Inl (P2002 n)"
  then have "violated ck refund_case_ixs c (refund_cases d) \<noteq> None"
    by (auto simp: tbl_create_def split: option.splits)
  then obtain x where x: "x \<in> set (refund_cases d)" "\<not> no_clash ck refund_case_ixs c x"
    by (auto simp: violated_None)
  moreover have "ck (rc_id c) \<noteq> ck (rc_id x)"
    using x(1) assms by (auto simp: fresh_case_id_def list_all_iff text_eq_def)
  ultimately have "where_key ck rc_invoiceId_key [Text (rc_invoiceId c)] x"
    by (auto simp: no_clash_def refund_case_ixs_def clash_def row_key_def where_key_def
         rc_invoiceId_key_def)
  with x(1) show "case_by_invoice ck (rc_invoiceId c) d \<noteq> None"
    by (auto simp: case_by_invoice_def find_unique_def find_None_iff)
qed (auto simp: case_by_invoice_def intro: cases_tbl.create_taken)

lemma createRefundCase_existing:
  assumes "fresh_case_id ck nid d" and "invoice_by_id ck (crc_invoiceId p) d \<noteq> None"
    and "case_by_invoice ck (crc_invoiceId p) d = Some c"
  shows "createRefundCase ck nid now p d = Inr (Some c, d)"
proof -
  have "\<exists>n. tbl_create ck refund_case_ixs (new_case nid now p) (refund_cases d) = Inl (P2002 n)"
    using assms create_case_taken_iff [of ck "new_case nid now p" d] by (simp add: new_case_def)
  with assms show ?thesis by (auto simp: createRefundCase_def)
qed

lemma createRefundCase_new:
  assumes "fresh_case_id ck nid d" and "invoice_by_id ck (crc_invoiceId p) d \<noteq> None"
    and "case_by_invoice ck (crc_invoiceId p) d = None"
  shows "createRefundCase ck nid now p d =
           Inr (Some (new_case nid now p), d\<lparr>refund_cases := refund_cases d @ [new_case nid now p]\<rparr>)"
proof -
  have "\<not> (\<exists>n. tbl_create ck refund_case_ixs (new_case nid now p) (refund_cases d) = Inl (P2002 n))"
    using assms create_case_taken_iff [of ck "new_case nid now p" d] by (simp add: new_case_def)
  then have "tbl_create ck refund_case_ixs (new_case nid now p) (refund_cases d)
               = Inr (refund_cases d @ [new_case nid now p])"
    by (auto simp: tbl_create_def split: option.splits)
  with assms(2) show ?thesis by (simp add: createRefundCase_def)
qed

lemma createRefundCase_found:
  assumes "fresh_case_id ck nid d" and "createRefundCase ck nid now p d = Inr (r, d')"
  shows "\<exists>c. r = Some c \<and> case_by_invoice ck (crc_invoiceId p) d' = Some c"
  using assms(2)
proof (cases rule: createRefundCase_cases)
  case opened
  have "find_unique ck rc_invoiceId_key [Text (rc_invoiceId (new_case nid now p))]
          (refund_cases d @ [new_case nid now p]) = Some (new_case nid now p)"
    using opened(1) by (rule cases_tbl.create_lookup)
  with opened show ?thesis by (simp add: case_by_invoice_def new_case_def)
next
  case (existing n)
  with assms(1) create_case_taken_iff [of ck "new_case nid now p" d] show ?thesis
    by (auto simp: new_case_def)
qed

section \<open>Resolving cases\<close>

lemma find_append_mid:
  "\<forall>x \<in> set xs. \<not> P x \<Longrightarrow> P r \<Longrightarrow> find P (xs @ r # ys) = Some r"
  by (induction xs) auto

lemma where_rc_id:
  "where_key ck (\<lambda>r. Some [Text (rc_id r)]) [Text i] = (\<lambda>r. text_eq ck (rc_id r) i)"
  by (simp add: fun_eq_iff where_key_def row_key_def text_eq_def)

lemma find_rc_split:
  assumes "cases_ok ck d" and "findById ck i d = Some c"
  shows "\<exists>xs ys. refund_cases d = xs @ c # ys \<and> ck (rc_id c) = ck i
           \<and> (\<forall>x \<in> set (xs @ ys). ck (rc_id x) \<noteq> ck i)"
  using find_unique_split [OF assms(1) rc_primary_in, of "[Text i]" c] assms(2)
  by (auto simp: where_rc_id findById_def text_eq_def)

text \<open>A write that keeps the id and the invoice of the row succeeds and replaces that row.\<close>

lemma update_case_split:
  assumes "cases_ok ck d" and "refund_cases d = xs @ c # ys" and "ck (rc_id c) = ck i"
    and "\<forall>x \<in> set (xs @ ys). ck (rc_id x) \<noteq> ck i"
    and "rc_id (f c) = rc_id c" and "rc_invoiceId (f c) = rc_invoiceId c"
  shows "update_case ck i f d = Inr (f c, d\<lparr>refund_cases := xs @ f c # ys\<rparr>)"
proof -
  let ?P = "\<lambda>r. text_eq ck (rc_id r) i"
  have f: "find ?P (refund_cases d) = Some c"
    using assms(2-4) by (simp add: find_append_mid text_eq_def)
  have "filter (\<lambda>x. \<not> ?P x) (refund_cases d) = xs @ ys"
    using assms(2-4) by (simp add: filter_id_conv text_eq_def)
  moreover have "violated ck refund_case_ixs (f c) (xs @ ys) = None"
    using assms(1,2,5,6) by (simp add: violated_None uniq_middle no_clash_def refund_case_ixs_def
        clash_def row_key_def rc_invoiceId_key_def)
  moreover have "map (\<lambda>x. if ?P x then f x else x) (refund_cases d) = xs @ f c # ys"
    using assms(2-4) by (auto simp: text_eq_def intro!: map_idI)
  moreover have "find ?P (xs @ f c # ys) = Some (f c)"
    using assms(3-5) by (simp add: find_append_mid text_eq_def)
  ultimately show ?thesis
    by (simp add: update_case_def tbl_update_def where_rc_id f)
qed

section \<open>Properties\<close>

text \<open>
  A refund case is opened once per invoice. When the call succeeds with an id that is not in
  use, the invoice has exactly the returned case afterwards; an existing case, resolved or
  not, is returned unchanged and nothing is written; and a later call for the same
  invoice, with any other data, returns the same case and writes nothing.
\<close>

theorem refund_case_opened_once:
  assumes "fresh_case_id ck nid d"
    and "createRefundCase ck nid now p d = Inr (r, d')"
    and "fresh_case_id ck nid2 d'" and "crc_invoiceId p2 = crc_invoiceId p"
  shows "\<exists>c. r = Some c
           \<and> case_by_invoice ck (crc_invoiceId p) d' = Some c
           \<and> (case case_by_invoice ck (crc_invoiceId p) d of
                None \<Rightarrow> c = new_case nid now p
              | Some c0 \<Rightarrow> c = c0 \<and> d' = d)
           \<and> createRefundCase ck nid2 now2 p2 d' = Inr (Some c, d')"
proof -
  have inv: "invoice_by_id ck (crc_invoiceId p) d \<noteq> None"
    using assms(2) by (auto simp: createRefundCase_def split: if_splits)
  moreover have "invoices d' = invoices d"
    using createRefundCase_subset(2) [OF assms(2)] by (metis db.select_convs(4) db.surjective db.update_convs(7))
  ultimately have inv': "invoice_by_id ck (crc_invoiceId p2) d' \<noteq> None"
    using assms(4) by (simp add: invoice_by_id_def)
  obtain c where c: "r = Some c" "case_by_invoice ck (crc_invoiceId p) d' = Some c"
    using createRefundCase_found [OF assms(1,2)] by blast
  then have "createRefundCase ck nid2 now2 p2 d' = Inr (Some c, d')"
    using createRefundCase_existing [OF assms(3) inv'] assms(4) by simp
  moreover have "case case_by_invoice ck (crc_invoiceId p) d of
                   None \<Rightarrow> c = new_case nid now p | Some c0 \<Rightarrow> c = c0 \<and> d' = d"
    using createRefundCase_existing [OF assms(1) inv] createRefundCase_new [OF assms(1) inv]
      assms(2) c(1) by (auto split: option.splits)
  ultimately show ?thesis using c by blast
qed

text \<open>A store with one invoice, for the witnesses.\<close>

definition demo_invoice :: Invoice where
  "demo_invoice = \<lparr>inv_id = ''i1'', usernameId = ''n1'', amountMsat = 5000, bolt11 = ''lnbc1'',
     inv_expiresAt = 0, inv_status = ''pending'', receivingCurrency = USDB,
     destinationSparkAddress = None\<rparr>"

definition demo_params :: CreateRefundCaseParams where
  "demo_params = \<lparr>crc_invoiceId = ''i1'', crc_amountSats = 5, crc_reason = ''r'', crc_externalRef = None\<rparr>"

definition demo_open_db :: db where
  "demo_open_db = empty_db\<lparr>invoices := [demo_invoice], refund_cases := [new_case ''c1'' 7 demo_params]\<rparr>"

theorem refund_case_opened_once_witness:
  "createRefundCase id ''c2'' 9 demo_params demo_open_db
     = Inr (Some (new_case ''c1'' 7 demo_params), demo_open_db)"
proof -
  let ?d = "empty_db\<lparr>invoices := [demo_invoice]\<rparr>"
  have 1: "fresh_case_id id ''c1'' ?d" "fresh_case_id id ''c2'' demo_open_db"
    by (simp_all add: fresh_case_id_def empty_db_def demo_open_db_def text_eq_def new_case_def)
  have 2: "createRefundCase id ''c1'' 7 demo_params ?d
             = Inr (Some (new_case ''c1'' 7 demo_params), demo_open_db)"
    by (simp add: createRefundCase_def invoice_by_id_def text_eq_def demo_invoice_def demo_params_def
        tbl_create_def violated_def refund_case_ixs_def demo_open_db_def empty_db_def)
  show ?thesis
    using refund_case_opened_once [OF 1(1) 2 1(2), of demo_params 9] by auto
qed

text \<open>
  A case that is not open is final: marking it paid or abandoned fails with its status and
  writes nothing. An open case moves to exactly the requested status, records the time, and
  every other case keeps its row.
\<close>

theorem resolve_only_open_cases:
  assumes "cases_ok ck d" and "findById ck i d = Some c"
  shows "if rc_status c \<noteq> OPEN
         then markPaid ck now i opts d = Inl (CaseNotOpen i (rc_status c))
            \<and> markAbandoned ck now i reason d = Inl (CaseNotOpen i (rc_status c))
         else \<exists>xs ys. refund_cases d = xs @ c # ys
            \<and> markPaid ck now i opts d
                = Inr (paid_row now opts c, d\<lparr>refund_cases := xs @ paid_row now opts c # ys\<rparr>)
            \<and> markAbandoned ck now i reason d
                = Inr (abandoned_row now reason c,
                       d\<lparr>refund_cases := xs @ abandoned_row now reason c # ys\<rparr>)"
proof -
  obtain xs ys where s: "refund_cases d = xs @ c # ys" "ck (rc_id c) = ck i"
      "\<forall>x \<in> set (xs @ ys). ck (rc_id x) \<noteq> ck i"
    using find_rc_split [OF assms] by blast
  note up = update_case_split [OF assms(1) s]
  show ?thesis
    using assms(2) s(1) up [of "paid_row now opts"] up [of "abandoned_row now reason"]
    by (auto simp: markPaid_def markAbandoned_def resolve_check_def paid_row_def abandoned_row_def)
qed

theorem resolve_only_open_cases_witness:
  "markPaid id 9 ''c1'' \<lparr>mp_externalRef = None, mp_payeeLnAddress = None\<rparr> demo_open_db
     = Inr (paid_row 9 \<lparr>mp_externalRef = None, mp_payeeLnAddress = None\<rparr> (new_case ''c1'' 7 demo_params),
            demo_open_db\<lparr>refund_cases := [paid_row 9 \<lparr>mp_externalRef = None, mp_payeeLnAddress = None\<rparr>
                                                (new_case ''c1'' 7 demo_params)]\<rparr>)"
proof -
  have "cases_ok id demo_open_db" by (simp add: demo_open_db_def uniq_def)
  moreover have "findById id ''c1'' demo_open_db = Some (new_case ''c1'' 7 demo_params)"
    by (simp add: findById_def demo_open_db_def text_eq_def new_case_def)
  ultimately show ?thesis
    using resolve_only_open_cases [of id demo_open_db "''c1''" "new_case ''c1'' 7 demo_params"
        9 "\<lparr>mp_externalRef = None, mp_payeeLnAddress = None\<rparr>"]
    by (auto simp: new_case_def demo_open_db_def Cons_eq_append_conv)
qed

text \<open>
  The status test and the write are separate statements, so two operators can resolve one
  case: if a request passes the test on a case and another request marks the case paid
  before it writes, its write still succeeds and the paid case becomes abandoned.
\<close>

theorem concurrent_resolutions_overwrite:
  assumes "cases_ok ck d" and "resolve_check ck i d = Inr c"
    and "markPaid ck now i opts d = Inr (c1, d1)"
  shows "rc_status c1 = PAID
         \<and> (\<exists>c2 d2. update_case ck i (abandoned_row now2 reason) d1 = Inr (c2, d2)
              \<and> rc_status c2 = ABANDONED \<and> findById ck i d2 = Some c2)"
proof -
  have f: "findById ck i d = Some c"
    using assms(2) by (auto simp: resolve_check_def split: option.splits if_splits)
  obtain xs ys where s: "refund_cases d = xs @ c # ys" "ck (rc_id c) = ck i"
      "\<forall>x \<in> set (xs @ ys). ck (rc_id x) \<noteq> ck i"
    using find_rc_split [OF assms(1) f] by blast
  have d1: "c1 = paid_row now opts c" "d1 = d\<lparr>refund_cases := xs @ c1 # ys\<rparr>"
    using assms(2,3) update_case_split [OF assms(1) s, of "paid_row now opts"]
    by (auto simp: markPaid_def paid_row_def)
  have ok1: "cases_ok ck d1"
    using assms(1) s(1) d1 by (simp add: uniq_middle no_clash_def refund_case_ixs_def clash_def
        row_key_def rc_invoiceId_key_def paid_row_def)
  have s1: "refund_cases d1 = xs @ c1 # ys" "ck (rc_id c1) = ck i"
    using d1 s(2) by (simp_all add: paid_row_def)
  note up = update_case_split [OF ok1 s1 s(3), of "abandoned_row now2 reason"]
  have "findById ck i (d1\<lparr>refund_cases := xs @ abandoned_row now2 reason c1 # ys\<rparr>)
          = Some (abandoned_row now2 reason c1)"
    using s(3) s1(2) by (simp add: findById_def text_eq_def find_append_mid abandoned_row_def)
  then show ?thesis using up d1(1) by (auto simp: paid_row_def abandoned_row_def)
qed

theorem concurrent_resolutions_overwrite_witness:
  "\<exists>c2 d2. update_case id ''c1'' (abandoned_row 10 None)
      (demo_open_db\<lparr>refund_cases := [paid_row 9 \<lparr>mp_externalRef = None, mp_payeeLnAddress = None\<rparr>
                                        (new_case ''c1'' 7 demo_params)]\<rparr>) = Inr (c2, d2)
    \<and> rc_status c2 = ABANDONED"
proof -
  let ?o = "\<lparr>mp_externalRef = None, mp_payeeLnAddress = None\<rparr> :: MarkPaidOpts"
  have 1: "cases_ok id demo_open_db" by (simp add: demo_open_db_def uniq_def)
  have 2: "resolve_check id ''c1'' demo_open_db = Inr (new_case ''c1'' 7 demo_params)"
    by (simp add: resolve_check_def findById_def demo_open_db_def text_eq_def new_case_def)
  have 3: "markPaid id 9 ''c1'' ?o demo_open_db = Inr (paid_row 9 ?o (new_case ''c1'' 7 demo_params),
             demo_open_db\<lparr>refund_cases := [paid_row 9 ?o (new_case ''c1'' 7 demo_params)]\<rparr>)"
    by (simp add: markPaid_def resolve_check_def findById_def update_case_def tbl_update_def
        demo_open_db_def where_key_def
        row_key_def new_case_def violated_def refund_case_ixs_def text_eq_def paid_row_def)
  show ?thesis using concurrent_resolutions_overwrite [OF 1 2 3] by blast
qed

text \<open>
  Listing: with a limit that is not negative, a page holds at most 200 open cases, whatever
  the limit. With a negative limit there is no such cap: the limit minus the number of open
  cases returns all of them.
\<close>

theorem list_open_page_size:
  "(0 \<le> l \<longrightarrow> listOpenRefundCases (Some l) off d = Inr (page, n)
       \<longrightarrow> length page \<le> 200 \<and> set page \<subseteq> set (open_cases d))
   \<and> listOpenRefundCases (Some (- int (length (open_cases d)))) None d
       = Inr (sort_key (\<lambda>r. - rc_createdAt r) (open_cases d), length (open_cases d))"
proof (intro conjI impI)
  assume l: "0 \<le> l" and p: "listOpenRefundCases (Some l) off d = Inr (page, n)"
  from l have "0 \<le> min l MAX_LIMIT" by (simp add: MAX_LIMIT_def)
  with p have page: "page = take (nat (min l MAX_LIMIT))
      (drop (nat (case off of None \<Rightarrow> DEFAULT_OFFSET | Some k \<Rightarrow> k))
        (sort_key (\<lambda>r. - rc_createdAt r) (open_cases d)))"
    by (auto simp: listOpenRefundCases_def take_skip_def Let_def bind_result_Inr_iff split: if_splits)
  show "length page \<le> 200" unfolding page by (simp add: MAX_LIMIT_def)
  show "set page \<subseteq> set (open_cases d)"
    unfolding page using set_take_subset set_drop_subset by fastforce
next
  show "listOpenRefundCases (Some (- int (length (open_cases d)))) None d
          = Inr (sort_key (\<lambda>r. - rc_createdAt r) (open_cases d), length (open_cases d))"
    by (cases "open_cases d") (simp_all add: listOpenRefundCases_def take_skip_def Let_def MAX_LIMIT_def
        DEFAULT_OFFSET_def)
qed

theorem list_open_page_size_witness:
  "length (fst (projr (listOpenRefundCases (Some 300) None demo_open_db))) \<le> 200"
proof -
  obtain page n where p: "listOpenRefundCases (Some 300) None demo_open_db = Inr (page, n)"
    by (simp add: listOpenRefundCases_def take_skip_def Let_def MAX_LIMIT_def DEFAULT_OFFSET_def)
  then show ?thesis using list_open_page_size [of 300 None demo_open_db page n] by simp
qed

end
