(* ===== verification/Swap.thy ===== *)
theory Swap
  imports Swap_State_Machine Refund_Case
begin

text \<open>
  The swap service, \<open>src/swap/swap.service.ts\<close>: persisting a Lightning-to-USDB quote, and the
  state update driven by a Flashnet webhook event. Each operation is one database
  transaction; \<open>Inl\<close> means that the transaction threw, so the store the caller continues with
  is the one it had before.
\<close>

section \<open>Payloads\<close>

text \<open>\<open>src/flashnet/flashnet.types.ts\<close>; \<open>null\<close> and a missing property are both \<open>None\<close>.\<close>

record ErrorDetails =
  ed_code :: "js_string option"
  ed_message :: "js_string option"

record FlashnetWebhookData =
  wd_id :: js_string
  wd_quoteId :: "js_string option"
  wd_updatedAt :: "js_string option"
  wd_reviewStatus :: "js_string option"
  wd_feeAsset :: "js_string option"
  wd_status :: js_string
  wd_amountOut :: "js_string option"
  wd_feeAmount :: "js_string option"
  wd_error :: "ErrorDetails option"

record FlashnetWebhookPayload =
  wp_event :: js_string
  wp_timestamp :: js_string
  wp_data :: FlashnetWebhookData

record LightningQuoteRequest =
  lq_recipientAddress :: js_string
  lq_amount :: js_string
  lq_slippageBps :: int
  lq_descriptionHash :: "js_string option"

record LightningQuoteResponse =
  qr_quoteId :: js_string
  qr_depositAddress :: js_string
  qr_amountIn :: js_string
  qr_estimatedOut :: js_string
  qr_feeAmount :: js_string
  qr_roundingFeeAmount :: js_string
  qr_totalFeeAmount :: js_string
  qr_feeBps :: int
  qr_feeAsset :: js_string
  qr_route :: "js_string list"
  qr_expiresAt :: js_string
  qr_priceLockMode :: "js_string option"
  qr_lockedMinAmountOut :: "js_string option"
  qr_amountMode :: "js_string option"
  qr_flexibleAmount :: bool
  qr_lightningReceiveRequestId :: js_string
  qr_replayed :: bool

section \<open>Amounts\<close>

text \<open>
  The decimal type is a library's: reading a number, which may throw, and dividing are
  parameters.
\<close>

record decimal_lib =
  dec_new :: "js_string \<Rightarrow> rat option"
  dec_div :: "rat \<Rightarrow> rat \<Rightarrow> rat"

datatype swap_error =
    TransitionError sm_error
  | InvalidTimestamp js_string \<comment> \<open>\<open>BigInt\<close> throws\<close>
  | QuoteMismatch
  | InvalidDecimal js_string
  | InvalidDate js_string
  | SwapDbError db_error
  | SwapRefundError refund_error
  | QuoteError js_string \<comment> \<open>the Flashnet client threw, with the reason\<close>

definition usdbSmallestUnitsToDecimal :: "decimal_lib \<Rightarrow> js_string \<Rightarrow> swap_error + rat" where
  "usdbSmallestUnitsToDecimal D smallestUnits =
     (case dec_new D smallestUnits of
        None \<Rightarrow> Inl (InvalidDecimal smallestUnits)
      | Some raw \<Rightarrow> Inr (dec_div D raw 1000000))"

section \<open>The environment of a request\<close>

text \<open>The collation, the decimal library, the clock, \<open>Date.parse\<close> and the generated row ids.\<close>

record swap_env =
  env_ck :: collation
  env_dec :: decimal_lib
  env_now :: time_ms
  env_parseDate :: "js_string \<Rightarrow> time_ms option"
  env_event_id :: js_string
  env_case_id :: js_string
  env_order_id :: js_string

section \<open>Webhook events\<close>

definition event_cells :: "FlashnetWebhookPayload \<Rightarrow> int \<Rightarrow> cell list" where
  "event_cells p ts = [Text (wd_id (wp_data p)), Text (wp_event p), Num ts]"

definition new_event :: "swap_env \<Rightarrow> FlashnetWebhookPayload \<Rightarrow> int \<Rightarrow> FlashnetWebhookEvent" where
  "new_event E p ts =
     \<lparr>we_id = env_event_id E, we_orderId = wd_id (wp_data p), we_event = wp_event p,
      we_timestamp = ts, processedAt = None\<rparr>"

text \<open>\<open>flashnetWebhookEvent.upsert\<close> with an empty update.\<close>

definition upsert_event ::
  "swap_env \<Rightarrow> FlashnetWebhookPayload \<Rightarrow> int \<Rightarrow> db \<Rightarrow> swap_error + FlashnetWebhookEvent \<times> db" where
  "upsert_event E p ts d =
     (case find_unique (env_ck E) we_key (event_cells p ts) (webhook_events d) of
        Some ev \<Rightarrow> Inr (ev, d)
      | None \<Rightarrow>
          (case tbl_create (env_ck E) webhook_event_ixs (new_event E p ts) (webhook_events d) of
             Inl e \<Rightarrow> Inl (SwapDbError e)
           | Inr t \<Rightarrow> Inr (new_event E p ts, d\<lparr>webhook_events := t\<rparr>)))"

text \<open>\<open>flashnetWebhookEvent.update\<close> by id, setting \<open>processedAt\<close>.\<close>

definition mark_processed :: "swap_env \<Rightarrow> FlashnetWebhookEvent \<Rightarrow> db \<Rightarrow> swap_error + db" where
  "mark_processed E ev d =
     (case tbl_update (env_ck E) webhook_event_ixs
             (where_key (env_ck E) (\<lambda>r. Some [Text (we_id r)]) [Text (we_id ev)])
             (\<lambda>r. r\<lparr>processedAt := Some (env_now E)\<rparr>) (webhook_events d) of
        Inl e \<Rightarrow> Inl (SwapDbError e)
      | Inr t \<Rightarrow> Inr (d\<lparr>webhook_events := t\<rparr>))"

definition update_order ::
  "swap_env \<Rightarrow> js_string \<Rightarrow> (FlashnetOrder \<Rightarrow> FlashnetOrder) \<Rightarrow> db \<Rightarrow> swap_error + db" where
  "update_order E i f d =
     (case tbl_update (env_ck E) flashnet_order_ixs
             (where_key (env_ck E) (\<lambda>r. Some [Text (fo_id r)]) [Text i]) f (flashnet_orders d) of
        Inl e \<Rightarrow> Inl (SwapDbError e)
      | Inr t \<Rightarrow> Inr (d\<lparr>flashnet_orders := t\<rparr>))"

definition opt_text_eq :: "collation \<Rightarrow> js_string option \<Rightarrow> js_string \<Rightarrow> bool" where
  "opt_text_eq ck c s = (case c of None \<Rightarrow> False | Some x \<Rightarrow> text_eq ck x s)"

text \<open>
  The order of a snapshot: by order id, or, for an order that is not bound yet, by quote id;
  then the order id is written to it. The result is the row as it was read.
\<close>

definition bind_order ::
  "swap_env \<Rightarrow> FlashnetWebhookData \<Rightarrow> db \<Rightarrow> swap_error + FlashnetOrder option \<times> db" where
  "bind_order E w d =
     (case find (\<lambda>r. opt_text_eq (env_ck E) (fo_orderId r) (wd_id w)) (flashnet_orders d) of
        Some ord \<Rightarrow> Inr (Some ord, d)
      | None \<Rightarrow>
          (case wd_quoteId w of
             None \<Rightarrow> Inr (None, d)
           | Some q \<Rightarrow>
               if q = [] then Inr (None, d)
               else case find (\<lambda>r. opt_text_eq (env_ck E) (fo_quoteId r) q \<and> fo_orderId r = None)
                      (flashnet_orders d) of
                   None \<Rightarrow> Inr (None, d)
                 | Some ord \<Rightarrow>
                     bind_result (update_order E (fo_id ord) (\<lambda>r. r\<lparr>fo_orderId := Some (wd_id w)\<rparr>) d)
                       (\<lambda>d'. Inr (Some ord, d'))))"

definition quote_conflict :: "FlashnetOrder \<Rightarrow> FlashnetWebhookData \<Rightarrow> bool" where
  "quote_conflict ord w \<longleftrightarrow> truthy (wd_quoteId w) \<and> fo_quoteId ord \<noteq> wd_quoteId w"

text \<open>The status column as the code compares it; \<open>null\<close> used as an object key reads \<open>null\<close>.\<close>

definition status_text :: "FlashnetOrder \<Rightarrow> js_string" where
  "status_text ord = (case fo_status ord of None \<Rightarrow> ''null'' | Some s \<Rightarrow> s)"

definition terminal_names :: "js_string list" where
  "terminal_names = map status_name terminal"

fun is_terminal :: "event_status \<Rightarrow> bool" where
  "is_terminal (Mapped s) = (s \<in> set terminal)"
| "is_terminal (Inherited p) = False"

definition webhook_decision :: "js_string \<Rightarrow> event_status \<Rightarrow> sm_error + TransitionDecision" where
  "webhook_decision status attempted =
     (let current = (if status = status_name PENDING_PAYMENT \<and> attempted \<noteq> Mapped PROCESSING
                     then status_name PROCESSING else status)
      in case attempted of
           Mapped s \<Rightarrow> if current \<notin> set terminal_names \<and> s \<in> set terminal then Inr (Apply s)
                       else classifyTransition current attempted
         | Inherited _ \<Rightarrow> classifyTransition current attempted)"

definition amount_sats :: "swap_env \<Rightarrow> FlashnetOrder \<Rightarrow> db \<Rightarrow> int" where
  "amount_sats E ord d =
     (case invoice_by_id (env_ck E) (fo_invoiceId ord) d of None \<Rightarrow> 0 | Some i \<Rightarrow> amountMsat i div 1000)"

definition open_refund_case ::
  "swap_env \<Rightarrow> FlashnetOrder \<Rightarrow> js_string \<Rightarrow> db \<Rightarrow> swap_error + db" where
  "open_refund_case E ord reason d =
     (case createRefundCase (env_ck E) (env_case_id E) (env_now E)
             \<lparr>crc_invoiceId = fo_invoiceId ord, crc_amountSats = amount_sats E ord d,
              crc_reason = reason, crc_externalRef = None\<rparr> d of
        Inl e \<Rightarrow> Inl (SwapRefundError e)
      | Inr (_, d') \<Rightarrow> Inr d')"

definition error_code :: "FlashnetWebhookData \<Rightarrow> js_string option" where
  "error_code w = Option.bind (wd_error w) ed_code"

definition error_message :: "FlashnetWebhookData \<Rightarrow> js_string option" where
  "error_message w = Option.bind (wd_error w) ed_message"

text \<open>
  The columns of the order update: the status; the delivered amount on completion; the error on
  failure and refund; the fee when the event carries one in the order's asset.
\<close>

definition order_update ::
  "swap_env \<Rightarrow> FlashnetWebhookPayload \<Rightarrow> FlashnetOrder \<Rightarrow> FlashnetOrderStatus
   \<Rightarrow> swap_error + (FlashnetOrder \<Rightarrow> FlashnetOrder)" where
  "order_update E p ord next =
     (let w = wp_data p; event = wp_event p in
      bind_result
        (if event = ''order.completed'' \<and> truthy (wd_amountOut w)
         then map_sum id Some (usdbSmallestUnitsToDecimal (env_dec E) (nullish (wd_amountOut w) []))
         else Inr None)
        (\<lambda>actual.
      bind_result
        (if (event = ''order.swapping'' \<or> event = ''order.completed'') \<and> wd_feeAmount w \<noteq> None
            \<and> (\<not> truthy (wd_feeAsset w) \<or> wd_feeAsset w = fo_feeAsset ord)
         then map_sum id Some (usdbSmallestUnitsToDecimal (env_dec E) (nullish (wd_feeAmount w) []))
         else Inr None)
        (\<lambda>fee.
      let failing = (event = ''order.failed'' \<or> event = ''order.refunding'' \<or> event = ''order.refunded'')
      in Inr (\<lambda>r. r\<lparr>fo_status := Some (status_name next),
            actualOut := (case actual of None \<Rightarrow> actualOut r | Some a \<Rightarrow> Some a),
            errorCode := (if failing \<and> truthy (error_code w) then error_code w else errorCode r),
            errorMessage := (if failing \<and> truthy (error_message w) then error_message w else errorMessage r),
            fo_feeAmount := (case fee of None \<Rightarrow> fo_feeAmount r | Some a \<Rightarrow> Some a)\<rparr>))))"

definition failure_reason :: "FlashnetWebhookData \<Rightarrow> js_string" where
  "failure_reason w = ''PAYMENT_FAILED: '' @ nullish (error_code w) ''no_code''
     @ '' | '' @ nullish (error_message w) ''no_message''"

definition apply_transition ::
  "swap_env \<Rightarrow> FlashnetWebhookPayload \<Rightarrow> FlashnetWebhookEvent \<Rightarrow> FlashnetOrder
   \<Rightarrow> FlashnetOrderStatus \<Rightarrow> db \<Rightarrow> swap_error + db" where
  "apply_transition E p ev ord next d =
     bind_result (order_update E p ord next) (\<lambda>f.
     bind_result (update_order E (fo_id ord) f d) (\<lambda>d1.
     bind_result (mark_processed E ev d1) (\<lambda>d2.
       if wp_event p = ''order.failed'' then open_refund_case E ord (failure_reason (wp_data p)) d2
       else Inr d2)))"

definition recovery_required ::
  "swap_env \<Rightarrow> FlashnetWebhookEvent \<Rightarrow> FlashnetOrder \<Rightarrow> db \<Rightarrow> swap_error + db" where
  "recovery_required E ev ord d =
     (if status_text ord \<in> set terminal_names then mark_processed E ev d
      else bind_result (open_refund_case E ord ''PAYMENT_RECOVERY_REQUIRED'' d) (mark_processed E ev))"

definition applyWebhookEvent :: "swap_env \<Rightarrow> FlashnetWebhookPayload \<Rightarrow> db \<Rightarrow> swap_error + db" where
  "applyWebhookEvent E p d =
     (case js_BigInt (wp_timestamp p) of
        None \<Rightarrow> Inl (InvalidTimestamp (wp_timestamp p))
      | Some ts \<Rightarrow>
      bind_result (upsert_event E p ts d) (\<lambda>(ev, d1).
        if processedAt ev \<noteq> None then Inr d1
        else bind_result (bind_order E (wp_data p) d1) (\<lambda>(found, d2).
          case found of
            None \<Rightarrow> Inr d2
          | Some ord \<Rightarrow>
              if quote_conflict ord (wp_data p) then Inl QuoteMismatch
              else if wp_event p = ''order.recovery_required'' then recovery_required E ev ord d2
              else bind_result (map_sum TransitionError id (mapEventToStatus (wp_event p))) (\<lambda>attempted.
                   bind_result (map_sum TransitionError id (webhook_decision (status_text ord) attempted))
                     (\<lambda>decision. case decision of
                        Noop \<Rightarrow> mark_processed E ev d2
                      | Skip _ \<Rightarrow> mark_processed E ev d2
                      | Apply next \<Rightarrow> apply_transition E p ev ord next d2)))))"

text \<open>One delivery: the store afterwards, rolled back when the handler throws.\<close>

definition deliver :: "swap_env \<times> FlashnetWebhookPayload \<Rightarrow> db \<Rightarrow> db" where
  "deliver x d = (case applyWebhookEvent (fst x) (snd x) d of Inl _ \<Rightarrow> d | Inr d' \<Rightarrow> d')"


section \<open>Rows under updates\<close>

lemma where_fo_id: "where_key ck (\<lambda>r. Some [Text (fo_id r)]) [Text i] r \<longleftrightarrow> ck (fo_id r) = ck i"
  by (simp add: where_key_def row_key_def)

lemma where_we_id: "where_key ck (\<lambda>r. Some [Text (we_id r)]) [Text i] r \<longleftrightarrow> ck (we_id r) = ck i"
  by (simp add: where_key_def row_key_def)

lemma fo_primary_in: "(''PRIMARY'', \<lambda>r. Some [Text (fo_id r)]) \<in> set flashnet_order_ixs"
  by (simp add: flashnet_order_ixs_def)

lemma we_primary_in: "(''PRIMARY'', \<lambda>r. Some [Text (we_id r)]) \<in> set webhook_event_ixs"
  by (simp add: webhook_event_ixs_def)

abbreviation orders_uniq :: "collation \<Rightarrow> db \<Rightarrow> bool" where
  "orders_uniq ck d \<equiv> uniq ck flashnet_order_ixs (flashnet_orders d)"

abbreviation events_uniq :: "collation \<Rightarrow> db \<Rightarrow> bool" where
  "events_uniq ck d \<equiv> uniq ck webhook_event_ixs (webhook_events d)"

lemma orders_same_id:
  assumes "orders_uniq ck d" and "r \<in> set (flashnet_orders d)" and "r' \<in> set (flashnet_orders d)"
    and "ck (fo_id r) = ck (fo_id r')"
  shows "r = r'"
  using uniq_clash_eq [OF assms(1) fo_primary_in assms(2,3)] assms(4)
  by (simp add: clash_def row_key_def)

lemma update_order_split:
  assumes u: "orders_uniq (env_ck E) d" and "r \<in> set (flashnet_orders d)"
    and "update_order E (fo_id r) f d = Inr d'"
  shows "\<exists>xs ys. flashnet_orders d = xs @ r # ys \<and> d' = d\<lparr>flashnet_orders := xs @ f r # ys\<rparr>
           \<and> orders_uniq (env_ck E) d'"
proof -
  from assms(3) obtain t where
    up: "tbl_update (env_ck E) flashnet_order_ixs
           (where_key (env_ck E) (\<lambda>r. Some [Text (fo_id r)]) [Text (fo_id r)]) f (flashnet_orders d) = Inr t"
    and d': "d' = d\<lparr>flashnet_orders := t\<rparr>"
    by (auto simp: update_order_def split: sum.splits)
  from tbl_update_split [OF u fo_primary_in up] obtain xs r1 ys where
    s: "flashnet_orders d = xs @ r1 # ys" "t = xs @ f r1 # ys" "env_ck E (fo_id r1) = env_ck E (fo_id r)"
    by (auto simp: where_fo_id)
  have "r1 \<in> set (flashnet_orders d)" by (simp add: s(1))
  then have "r1 = r" using s(3) by (rule orders_same_id [OF u _ assms(2)])
  with s d' tbl_update_uniq [OF u fo_primary_in up] show ?thesis by auto
qed

lemma orders_middle_unique:
  assumes "orders_uniq ck d" and "flashnet_orders d = xs @ r # ys" and "flashnet_orders d = xs' @ r # ys'"
  shows "xs' = xs \<and> ys' = ys"
proof -
  have "\<not> no_clash ck flashnet_order_ixs r r"
    by (simp add: no_clash_def flashnet_order_ixs_def clash_def row_key_def)
  then have "r \<notin> set xs" "r \<notin> set ys" using assms(1,2) by (auto simp: uniq_middle)
  with assms(2,3) show ?thesis using append_Cons_eq_iff [of r xs ys xs' ys'] by auto
qed

lemma mark_processed_frame:
  assumes "mark_processed E ev d = Inr d'"
  shows "d'\<lparr>webhook_events := webhook_events d\<rparr> = d"
  using assms by (auto simp: mark_processed_def split: sum.splits)

lemma mark_processed_fields [db_simps]:
  assumes "mark_processed E ev d = Inr d'"
  shows "flashnet_orders d' = flashnet_orders d" "refund_cases d' = refund_cases d"
    "invoices d' = invoices d"
  using assms by (auto simp: mark_processed_def split: sum.splits)

lemma open_refund_case_fields [db_simps]:
  assumes "open_refund_case E ord reason d = Inr d'"
  shows "flashnet_orders d' = flashnet_orders d" "webhook_events d' = webhook_events d"
    "invoices d' = invoices d"
  using assms createRefundCase_subset(2)
  by (auto simp: open_refund_case_def split: sum.splits elim!: createRefundCase_cases)

lemma upsert_event_fields [db_simps]:
  assumes "upsert_event E p ts d = Inr (ev, d')"
  shows "flashnet_orders d' = flashnet_orders d" "refund_cases d' = refund_cases d"
    "invoices d' = invoices d"
  using assms by (auto simp: upsert_event_def split: option.splits sum.splits)

text \<open>Binding writes the order id to the row it returns, and only to a row without one.\<close>

lemma bind_order_cases:
  assumes "orders_uniq (env_ck E) d" and "bind_order E w d = Inr (found, d2)"
  obtains (missing) "found = None" "d2 = d"
        | (known) ord where "found = Some ord" "d2 = d" "ord \<in> set (flashnet_orders d)"
        | (bound) ord xs ys where "found = Some ord" "fo_orderId ord = None"
            "flashnet_orders d = xs @ ord # ys"
            "d2 = d\<lparr>flashnet_orders := xs @ ord\<lparr>fo_orderId := Some (wd_id w)\<rparr> # ys\<rparr>"
            "orders_uniq (env_ck E) d2"
proof (cases "find (\<lambda>r. opt_text_eq (env_ck E) (fo_orderId r) (wd_id w)) (flashnet_orders d)")
  case (Some ord)
  then have "ord \<in> set (flashnet_orders d)" by (auto simp: find_Some_iff)
  with Some assms(2) show thesis by (intro known) (simp_all add: bind_order_def)
next
  case none: None
  show thesis
  proof (cases "\<exists>q ord. wd_quoteId w = Some q \<and> q \<noteq> []
      \<and> find (\<lambda>r. opt_text_eq (env_ck E) (fo_quoteId r) q \<and> fo_orderId r = None) (flashnet_orders d) = Some ord")
    case True
    then obtain q ord where q: "wd_quoteId w = Some q" "q \<noteq> []"
      and f: "find (\<lambda>r. opt_text_eq (env_ck E) (fo_quoteId r) q \<and> fo_orderId r = None)
                (flashnet_orders d) = Some ord" by blast
    from f have ord: "ord \<in> set (flashnet_orders d)" "fo_orderId ord = None"
      by (auto simp: find_Some_iff)
    from none q f assms(2) have up: "update_order E (fo_id ord) (\<lambda>r. r\<lparr>fo_orderId := Some (wd_id w)\<rparr>) d = Inr d2"
      and "found = Some ord"
      by (auto simp: bind_order_def bind_result_Inr_iff)
    with update_order_split [OF assms(1) ord(1) up] ord(2) show thesis by (auto intro: bound)
  next
    case False
    with none assms(2) show thesis
      by (intro missing) (auto simp: bind_order_def split: option.splits if_splits)
  qed
qed

lemma order_update_shape:
  assumes "order_update E p ord next = Inr f"
  shows "fo_status (f r) = Some (status_name next)" "fo_id (f r) = fo_id r"
    "fo_invoiceId (f r) = fo_invoiceId r" "fo_quoteId (f r) = fo_quoteId r"
    "fo_orderId (f r) = fo_orderId r"
  using assms by (auto simp: order_update_def Let_def bind_result_Inr_iff)

section \<open>The handler refines the order machine\<close>

definition order_status :: "FlashnetOrder \<Rightarrow> FlashnetOrderStatus option" where
  "order_status r = Option.bind (fo_status r) status_of"

lemma order_status_Some: "order_status r = Some s \<longleftrightarrow> fo_status r = Some (status_name s)"
  by (cases "fo_status r") (simp_all add: order_status_def status_of_Some)

lemma webhook_decision_step:
  assumes "webhook_decision (status_name s) attempted = Inr (Apply t)"
  shows "order_step s t \<and> attempted = Mapped t"
proof (cases attempted)
  case (Inherited p)
  with assms show ?thesis
    by (auto simp: webhook_decision_def classifyTransition_def Let_def split: if_splits)
next
  case (Mapped a)
  define c where "c = (if s = PENDING_PAYMENT \<and> a \<noteq> PROCESSING then PROCESSING else s)"
  have "webhook_decision (status_name s) attempted =
      (if c \<notin> set terminal \<and> a \<in> set terminal then Inr (Apply a)
       else classifyTransition (status_name c) (Mapped a))"
    unfolding webhook_decision_def Mapped c_def terminal_names_def Let_def
    using status_name_eq by (auto simp del: classifyTransition_def)
  with assms have "a = t" "(c \<notin> set terminal \<and> t \<in> set terminal) \<or> t \<in> set (ALLOWED_TRANSITIONS c)"
    by (auto simp: classifyTransition_def split: if_splits)
  then show ?thesis
    using Mapped by (auto simp: c_def terminal_def split: if_splits intro: order_step.intros)
qed

text \<open>
  One step of a row: identifiers are fixed, an order id is written once, and the status either
  stays, and then so does every amount and error column, or makes a step of the order machine.
\<close>

definition row_step :: "FlashnetOrder \<Rightarrow> FlashnetOrder \<Rightarrow> bool" where
  "row_step r r' \<longleftrightarrow>
     fo_id r' = fo_id r \<and> fo_invoiceId r' = fo_invoiceId r \<and> fo_quoteId r' = fo_quoteId r
     \<and> (fo_orderId r = None \<or> fo_orderId r' = fo_orderId r)
     \<and> (r' = r\<lparr>fo_orderId := fo_orderId r'\<rparr>
        \<or> (\<exists>s t. order_status r = Some s \<and> order_status r' = Some t \<and> order_step s t))"

lemma row_step_refl [simp]: "row_step r r"
  by (simp add: row_step_def)

lemma list_all2_middle: "R r r' \<Longrightarrow> (\<And>x. R x x) \<Longrightarrow> list_all2 R (xs @ r # ys) (xs @ r' # ys)"
  by (intro list_all2_appendI list_all2_refl) (auto intro: list_all2_refl)

definition orders_ok :: "collation \<Rightarrow> db \<Rightarrow> bool" where
  "orders_ok ck d \<longleftrightarrow> orders_uniq ck d \<and> list_all (\<lambda>r. order_status r \<noteq> None) (flashnet_orders d)"


lemma orders_ok_step:
  assumes "orders_ok ck d" and "list_all2 row_step (flashnet_orders d) (flashnet_orders d')"
    and "orders_uniq ck d'"
  shows "orders_ok ck d'"
  unfolding orders_ok_def list_all_iff
proof (intro conjI ballI)
  fix r' assume "r' \<in> set (flashnet_orders d')"
  then obtain r where r: "r \<in> set (flashnet_orders d)" "row_step r r'"
    using assms(2) by (metis in_set_conv_nth list_all2_conv_all_nth)
  then have "order_status r \<noteq> None" using assms(1) by (simp add: orders_ok_def list_all_iff)
  moreover have "order_status r' = order_status r \<or> order_status r' \<noteq> None"
    using r(2) unfolding row_step_def order_status_def by (metis FlashnetOrder.select_convs(16)
        FlashnetOrder.surjective FlashnetOrder.update_convs(4) option.distinct(1))
  ultimately show "order_status r' \<noteq> None" by auto
qed (rule assms(3))

lemma apply_transition_rows:
  assumes "orders_uniq (env_ck E) d" and cur: "cur \<in> set (flashnet_orders d)"
    and "fo_id cur = fo_id ord" and "apply_transition E p ev ord next d = Inr d'"
  shows "\<exists>f xs ys. order_update E p ord next = Inr f \<and> flashnet_orders d = xs @ cur # ys
           \<and> flashnet_orders d' = xs @ f cur # ys \<and> orders_uniq (env_ck E) d'"
proof -
  from assms(4) obtain f d1 d2 where f: "order_update E p ord next = Inr f"
    and d1: "update_order E (fo_id cur) f d = Inr d1" and d2: "mark_processed E ev d1 = Inr d2"
    and d': "if wp_event p = ''order.failed''
             then open_refund_case E ord (failure_reason (wp_data p)) d2 = Inr d' else d' = d2"
    using assms(3) by (auto simp: apply_transition_def bind_result_Inr_iff split: if_splits)
  have "flashnet_orders d' = flashnet_orders d1"
    using d2 d' by (auto simp: mark_processed_fields open_refund_case_fields split: if_splits)
  moreover obtain xs ys where "flashnet_orders d = xs @ cur # ys"
      "d1 = d\<lparr>flashnet_orders := xs @ f cur # ys\<rparr>" "orders_uniq (env_ck E) d1"
    using update_order_split [OF assms(1) cur d1] by blast
  ultimately show ?thesis using f by (intro exI [of _ f] exI [of _ xs] exI [of _ ys]) simp
qed

lemma recovery_required_orders:
  "recovery_required E ev ord d = Inr d' \<Longrightarrow> flashnet_orders d' = flashnet_orders d"
  by (auto simp: recovery_required_def bind_result_Inr_iff mark_processed_fields
      open_refund_case_fields split: if_splits)

text \<open>The branches of the handler after the event was stored and the order found.\<close>

lemma applyWebhookEvent_cases:
  assumes "applyWebhookEvent E p d = Inr d'"
  obtains (duplicate) ts ev where "js_BigInt (wp_timestamp p) = Some ts"
            "upsert_event E p ts d = Inr (ev, d')" "processedAt ev \<noteq> None"
        | (unknown) ts ev d1 where "js_BigInt (wp_timestamp p) = Some ts"
            "upsert_event E p ts d = Inr (ev, d1)" "processedAt ev = None"
            "bind_order E (wp_data p) d1 = Inr (None, d')"
        | (recovery) ts ev d1 ord d2 where "js_BigInt (wp_timestamp p) = Some ts"
            "upsert_event E p ts d = Inr (ev, d1)" "processedAt ev = None"
            "bind_order E (wp_data p) d1 = Inr (Some ord, d2)"
            "\<not> quote_conflict ord (wp_data p)" "wp_event p = ''order.recovery_required''"
            "recovery_required E ev ord d2 = Inr d'"
        | (kept) ts ev d1 ord d2 where "js_BigInt (wp_timestamp p) = Some ts"
            "upsert_event E p ts d = Inr (ev, d1)" "processedAt ev = None"
            "bind_order E (wp_data p) d1 = Inr (Some ord, d2)"
            "\<not> quote_conflict ord (wp_data p)" "mark_processed E ev d2 = Inr d'"
        | (applied) ts ev d1 ord d2 a nxt where "js_BigInt (wp_timestamp p) = Some ts"
            "upsert_event E p ts d = Inr (ev, d1)" "processedAt ev = None"
            "bind_order E (wp_data p) d1 = Inr (Some ord, d2)"
            "\<not> quote_conflict ord (wp_data p)" "mapEventToStatus (wp_event p) = Inr a"
            "webhook_decision (status_text ord) a = Inr (Apply nxt)"
            "apply_transition E p ev ord nxt d2 = Inr d'"
proof -
  from assms obtain ts ev d1 where u: "js_BigInt (wp_timestamp p) = Some ts"
      "upsert_event E p ts d = Inr (ev, d1)"
    by (auto simp: applyWebhookEvent_def bind_result_Inr_iff split: option.splits)
  show thesis
  proof (cases "processedAt ev = None")
    case False
    with u assms show thesis by (intro duplicate) (auto simp: applyWebhookEvent_def)
  next
    case new: True
    with u assms obtain found d2 where b: "bind_order E (wp_data p) d1 = Inr (found, d2)"
      by (auto simp: applyWebhookEvent_def bind_result_Inr_iff)
    show thesis
    proof (cases found)
      case None
      with u new b assms show thesis by (intro unknown) (auto simp: applyWebhookEvent_def)
    next
      case (Some ord)
      with u new b assms have q: "\<not> quote_conflict ord (wp_data p)"
        by (auto simp: applyWebhookEvent_def split: if_splits)
      show thesis
      proof (cases "wp_event p = ''order.recovery_required''")
        case True
        with u new b q Some assms show thesis
          by (intro recovery) (auto simp: applyWebhookEvent_def)
      next
        case False
        with u new b q Some assms obtain a dec where
          m: "mapEventToStatus (wp_event p) = Inr a" "webhook_decision (status_text ord) a = Inr dec"
          and r: "(case dec of Noop \<Rightarrow> mark_processed E ev d2 | Skip _ \<Rightarrow> mark_processed E ev d2
                   | Apply next \<Rightarrow> apply_transition E p ev ord next d2) = Inr d'"
          by (cases "mapEventToStatus (wp_event p)"; cases "webhook_decision (status_text ord) (projr (mapEventToStatus (wp_event p)))")
             (simp_all add: applyWebhookEvent_def)
        show thesis
        proof (cases dec)
          case (Apply nxt)
          with u new b q Some m r show thesis by (intro applied) auto
        qed (use u new b q Some r in \<open>auto intro: kept\<close>)
      qed
    qed
  qed
qed


lemma bind_order_rows:
  assumes "orders_uniq (env_ck E) d" and "bind_order E w d = Inr (Some ord, d2)"
  shows "\<exists>xs cur ys. flashnet_orders d = xs @ ord # ys \<and> d2 = d\<lparr>flashnet_orders := xs @ cur # ys\<rparr>
           \<and> (cur = ord \<or> fo_orderId ord = None \<and> cur = ord\<lparr>fo_orderId := Some (wd_id w)\<rparr>)
           \<and> orders_uniq (env_ck E) d2"
  using assms
proof (cases rule: bind_order_cases)
  case (known ord')
  then have ord: "ord \<in> set (flashnet_orders d)" by simp
  then obtain xs ys where "flashnet_orders d = xs @ ord # ys" by (auto simp: in_set_conv_decomp)
  with known assms(1) show ?thesis
    by (intro exI [of _ xs] exI [of _ ord] exI [of _ ys]) simp
next
  case (bound ord' xs ys)
  then show ?thesis
    by (intro exI [of _ xs] exI [of _ "ord\<lparr>fo_orderId := Some (wd_id w)\<rparr>"] exI [of _ ys]) simp
qed simp

lemma bound_row_step:
  "cur = ord \<or> fo_orderId ord = None \<and> cur = ord\<lparr>fo_orderId := Some i\<rparr> \<Longrightarrow> row_step ord cur"
  by (auto simp: row_step_def)

lemma applied_row:
  assumes ok: "orders_ok (env_ck E) d1" and b: "bind_order E (wp_data p) d1 = Inr (Some ord, d2)"
    and w: "webhook_decision (status_text ord) a = Inr (Apply nxt)"
    and ap: "apply_transition E p ev ord nxt d2 = Inr d'"
  shows "\<exists>xs r' ys. flashnet_orders d1 = xs @ ord # ys \<and> flashnet_orders d' = xs @ r' # ys
           \<and> row_step ord r' \<and> fo_status r' = Some (status_name nxt) \<and> a = Mapped nxt
           \<and> orders_uniq (env_ck E) d'"
proof -
  have "orders_uniq (env_ck E) d1" using ok by (simp add: orders_ok_def)
  from bind_order_rows [OF this b] obtain xs cur ys where
    b: "flashnet_orders d1 = xs @ ord # ys" "d2 = d1\<lparr>flashnet_orders := xs @ cur # ys\<rparr>"
       "cur = ord \<or> fo_orderId ord = None \<and> cur = ord\<lparr>fo_orderId := Some (wd_id (wp_data p))\<rparr>"
       "orders_uniq (env_ck E) d2" by blast
  have cur: "cur \<in> set (flashnet_orders d2)" "fo_id cur = fo_id ord" using b(2,3) by auto
  from apply_transition_rows [OF b(4) cur ap] obtain f xs' ys' where
    f: "order_update E p ord nxt = Inr f" "flashnet_orders d2 = xs' @ cur # ys'"
       "flashnet_orders d' = xs' @ f cur # ys'" "orders_uniq (env_ck E) d'" by blast
  have ord: "ord \<in> set (flashnet_orders d1)" by (simp add: b(1))
  then obtain s where s: "order_status ord = Some s" using ok by (auto simp: orders_ok_def list_all_iff)
  then have st: "order_step s nxt \<and> a = Mapped nxt"
    using w webhook_decision_step by (auto simp: status_text_def order_status_Some)
  then have "row_step ord (f cur)"
    using s b(3) order_update_shape [OF f(1), of cur] by (auto simp: row_step_def order_status_Some)
  moreover have "xs' = xs \<and> ys' = ys"
    using f(2) b(2,4) orders_middle_unique [of "env_ck E" d2 xs cur ys xs' ys'] by simp
  ultimately show ?thesis
    using b(1) f(3,4) st order_update_shape(1) [OF f(1)] by blast
qed

lemma applyWebhookEvent_rows:
  assumes ok: "orders_ok (env_ck E) d" and "applyWebhookEvent E p d = Inr d'"
  shows "list_all2 row_step (flashnet_orders d) (flashnet_orders d') \<and> orders_uniq (env_ck E) d'"
  using assms(2)
proof (cases rule: applyWebhookEvent_cases)
  case (duplicate ts ev)
  with ok show ?thesis by (simp add: orders_ok_def upsert_event_fields list_all2_refl)
next
  case (unknown ts ev d1)
  with ok have "orders_uniq (env_ck E) d1" by (simp add: orders_ok_def upsert_event_fields)
  then have "d' = d1" using unknown(4) by (cases rule: bind_order_cases) simp_all
  with unknown ok show ?thesis by (simp add: orders_ok_def upsert_event_fields list_all2_refl)
next
  case (recovery ts ev d1 ord d2)
  from recovery ok have "orders_uniq (env_ck E) d1" by (simp add: orders_ok_def upsert_event_fields)
  from bind_order_rows [OF this recovery(4)] recovery ok show ?thesis
    by (auto simp: upsert_event_fields recovery_required_orders intro!: list_all2_middle bound_row_step)
next
  case (kept ts ev d1 ord d2)
  from kept ok have "orders_uniq (env_ck E) d1" by (simp add: orders_ok_def upsert_event_fields)
  from bind_order_rows [OF this kept(4)] kept ok show ?thesis
    by (auto simp: upsert_event_fields mark_processed_fields intro!: list_all2_middle bound_row_step)
next
  case (applied ts ev d1 ord d2 a nxt)
  then have ok1: "orders_ok (env_ck E) d1" using ok by (simp add: orders_ok_def upsert_event_fields)
  from applied_row [OF ok1 applied(4,7,8)] applied(2) show ?thesis
    by (auto simp: upsert_event_fields intro!: list_all2_middle)
qed

lemma applyWebhookEvent_ok [inv_intros]:
  assumes "orders_ok (env_ck E) d" and "applyWebhookEvent E p d = Inr d'"
  shows "orders_ok (env_ck E) d'"
  using applyWebhookEvent_rows [OF assms] orders_ok_step [OF assms(1)] by blast

section \<open>Any sequence of deliveries\<close>

text \<open>
  What happens to one order over a sequence of deliveries, in any order, with duplicates and
  failures: the status follows the order machine, and from a terminal status on no
  column but a missing order id changes.
\<close>

definition row_evolves :: "FlashnetOrder \<Rightarrow> FlashnetOrder \<Rightarrow> bool" where
  "row_evolves r r' \<longleftrightarrow>
     fo_id r' = fo_id r \<and> fo_invoiceId r' = fo_invoiceId r \<and> fo_quoteId r' = fo_quoteId r
     \<and> (fo_orderId r = None \<or> fo_orderId r' = fo_orderId r)
     \<and> (\<exists>s t. order_status r = Some s \<and> order_status r' = Some t \<and> order_step\<^sup>*\<^sup>* s t
          \<and> (s \<in> set terminal \<longrightarrow> r' = r\<lparr>fo_orderId := fo_orderId r'\<rparr>))"

lemma order_status_orderId [simp]: "order_status (r\<lparr>fo_orderId := x\<rparr>) = order_status r"
  by (simp add: order_status_def)

lemma row_evolves_refl: "order_status r \<noteq> None \<Longrightarrow> row_evolves r r"
  by (auto simp: row_evolves_def)

lemma row_evolves_step:
  assumes "row_evolves r r'" and "row_step r' r''"
  shows "row_evolves r r''"
proof -
  from assms(1) obtain s t where st: "order_status r = Some s" "order_status r' = Some t"
    "order_step\<^sup>*\<^sup>* s t" "s \<in> set terminal \<Longrightarrow> r' = r\<lparr>fo_orderId := fo_orderId r'\<rparr>"
    by (auto simp: row_evolves_def)
  from assms(2) consider (same) "r'' = r'\<lparr>fo_orderId := fo_orderId r''\<rparr>"
    | (moved) u where "order_status r'' = Some u" "order_step t u"
    using st(2) by (auto simp: row_step_def)
  then show ?thesis
  proof cases
    case same
    then have "order_status r'' = Some t" using st(2) by (metis order_status_orderId)
    moreover have "r'' = r\<lparr>fo_orderId := fo_orderId r''\<rparr>" if "s \<in> set terminal"
      using same st(4) [OF that] by (metis FlashnetOrder.surjective FlashnetOrder.update_convs(4))
    ultimately show ?thesis using assms st by (auto simp: row_evolves_def row_step_def)
  next
    case (moved u)
    have "s \<notin> set terminal"
    proof
      assume "s \<in> set terminal"
      with st(3) have "t = s" by (auto elim: converse_rtranclpE dest: terminal_no_step)
      with moved(2) \<open>s \<in> set terminal\<close> show False by (auto dest: terminal_no_step)
    qed
    moreover have "order_step\<^sup>*\<^sup>* s u" using st(3) moved(2) by simp
    ultimately show ?thesis using assms st moved by (auto simp: row_evolves_def row_step_def)
  qed
qed

lemma deliver_rows:
  assumes "orders_ok ck d" and "env_ck (fst x) = ck"
  shows "list_all2 row_step (flashnet_orders d) (flashnet_orders (deliver x d)) \<and> orders_ok ck (deliver x d)"
proof (cases "applyWebhookEvent (fst x) (snd x) d")
  case (Inl e)
  with assms show ?thesis by (simp add: deliver_def list_all2_refl)
next
  case (Inr d')
  with assms applyWebhookEvent_rows [of "fst x" d "snd x" d'] applyWebhookEvent_ok [of "fst x" d "snd x" d']
  show ?thesis by (simp add: deliver_def)
qed

lemma deliveries_rows:
  assumes "orders_ok ck d" and "list_all (\<lambda>x. env_ck (fst x) = ck) xs"
    and "list_all2 row_evolves t (flashnet_orders d)"
  shows "list_all2 row_evolves t (flashnet_orders (fold deliver xs d)) \<and> orders_ok ck (fold deliver xs d)"
  using assms
proof (induction xs arbitrary: d)
  case Nil
  then show ?case by simp
next
  case (Cons x xs)
  then have s: "list_all2 row_step (flashnet_orders d) (flashnet_orders (deliver x d))"
      "orders_ok ck (deliver x d)"
    using deliver_rows [of ck d x] by simp_all
  have "list_all2 row_evolves t (flashnet_orders (deliver x d))"
    using Cons.prems(3) s(1) unfolding list_all2_conv_all_nth by (metis row_evolves_step)
  with Cons s(2) show ?case by simp
qed

text \<open>
  C8. Refinement. Whatever webhook deliveries arrive, in whatever order, repeated or failing,
  every stored order moves only along the order machine: its row keeps its identifiers, its
  order id is written at most once, its status is reached from the old one by machine
  steps, and once the status is terminal no amount, fee, error or status column
  changes again.
\<close>

theorem deliveries_refine_order_machine:
  assumes "orders_ok ck d" and "list_all (\<lambda>x. env_ck (fst x) = ck) xs"
  shows "list_all2 row_evolves (flashnet_orders d) (flashnet_orders (fold deliver xs d))"
proof -
  have "list_all2 row_evolves (flashnet_orders d) (flashnet_orders d)"
    using assms(1) by (auto simp: orders_ok_def list_all_iff list_all2_conv_all_nth intro: row_evolves_refl)
  with deliveries_rows [OF assms] show ?thesis by blast
qed


section \<open>Idempotence\<close>

lemma upsert_event_found:
  assumes "upsert_event E p ts d = Inr (ev, d1)"
  shows "find_unique (env_ck E) we_key (event_cells p ts) (webhook_events d1) = Some ev"
    and "events_uniq (env_ck E) d \<Longrightarrow> events_uniq (env_ck E) d1"
proof -
  have key: "event_cells p ts = [Text (we_orderId (new_event E p ts)), Text (we_event (new_event E p ts)),
      Num (we_timestamp (new_event E p ts))]"
    by (simp add: event_cells_def new_event_def)
  show "find_unique (env_ck E) we_key (event_cells p ts) (webhook_events d1) = Some ev"
    using assms events_tbl.create_lookup [of "env_ck E" "new_event E p ts"]
    by (auto simp: upsert_event_def key split: option.splits sum.splits)
  show "events_uniq (env_ck E) d \<Longrightarrow> events_uniq (env_ck E) d1"
    using assms events_tbl.create_good
    by (auto simp: upsert_event_def split: option.splits sum.splits)
qed

lemma upsert_event_existing:
  assumes "find_unique (env_ck E) we_key (event_cells p ts) (webhook_events d) = Some ev"
  shows "upsert_event E p ts d = Inr (ev, d)"
  using assms by (simp add: upsert_event_def)

lemma mark_processed_found:
  assumes u: "events_uniq (env_ck E) d"
    and f: "find_unique (env_ck E) we_key cells (webhook_events d) = Some ev"
    and m: "mark_processed E ev d = Inr d'"
  shows "\<exists>e'. find_unique (env_ck E) we_key cells (webhook_events d') = Some e' \<and> processedAt e' \<noteq> None"
proof -
  let ?ck = "env_ck E" let ?g = "\<lambda>r. r\<lparr>processedAt := Some (env_now E)\<rparr>"
  from m obtain t where up: "tbl_update ?ck webhook_event_ixs
      (where_key ?ck (\<lambda>r. Some [Text (we_id r)]) [Text (we_id ev)]) ?g (webhook_events d) = Inr t"
    and d': "d' = d\<lparr>webhook_events := t\<rparr>"
    by (auto simp: mark_processed_def split: sum.splits)
  from tbl_update_split [OF u we_primary_in up] obtain xs r ys where
    s: "webhook_events d = xs @ r # ys" "t = xs @ ?g r # ys" "?ck (we_id r) = ?ck (we_id ev)"
    by (auto simp: where_we_id)
  have ev: "ev \<in> set (webhook_events d)" "where_key ?ck we_key cells ev"
    using f by (auto simp: find_unique_def find_Some_iff)
  have r: "r \<in> set (webhook_events d)" by (simp add: s(1))
  have "r = ev"
    by (rule uniq_clash_eq [OF u we_primary_in r ev(1)]) (simp add: clash_def row_key_def s(3))
  have "\<not> where_key ?ck we_key cells x" if "x \<in> set xs" for x
  proof
    assume "where_key ?ck we_key cells x"
    with ev(2) have "clash ?ck (''flashnet_webhook_events_orderId_event_timestamp_key'', we_key) r x"
      by (simp add: clash_def where_key_def \<open>r = ev\<close>)
    with u s(1) that show False
      by (auto simp: uniq_middle no_clash_def list_all_iff webhook_event_ixs_def)
  qed
  moreover have "where_key ?ck we_key cells (?g r)"
    using ev(2) \<open>r = ev\<close> by (simp add: where_key_def row_key_def we_key_def)
  ultimately have "find_unique ?ck we_key cells t = Some (?g r)"
    by (simp add: s(2) find_unique_def find_append_mid)
  with d' show ?thesis by auto
qed

lemma bind_order_events [db_simps]:
  "bind_order E w d = Inr (found, d2) \<Longrightarrow> webhook_events d2 = webhook_events d"
  by (auto simp: bind_order_def update_order_def bind_result_Inr_iff
      split: option.splits if_splits sum.splits)

lemma processed_replay:
  assumes "js_BigInt (wp_timestamp p) = Some ts" and "env_ck E2 = env_ck E"
    and "find_unique (env_ck E) we_key (event_cells p ts) (webhook_events d) = Some e'"
    and "processedAt e' \<noteq> None"
  shows "applyWebhookEvent E2 p d = Inr d"
  using assms upsert_event_existing [of E2 p ts d e'] by (simp add: applyWebhookEvent_def)

text \<open>An event that was handled: its row carries the time.\<close>

definition event_handled :: "collation \<Rightarrow> FlashnetWebhookPayload \<Rightarrow> db \<Rightarrow> bool" where
  "event_handled ck p d \<longleftrightarrow>
     (case js_BigInt (wp_timestamp p) of
        None \<Rightarrow> False
      | Some ts \<Rightarrow>
          (case find_unique ck we_key (event_cells p ts) (webhook_events d) of
             None \<Rightarrow> False
           | Some e \<Rightarrow> processedAt e \<noteq> None))"

text \<open>An order that an event can belong to: one bound to its id, or one of its quote not bound yet.\<close>

definition order_known :: "collation \<Rightarrow> FlashnetWebhookData \<Rightarrow> db \<Rightarrow> bool" where
  "order_known ck w d \<longleftrightarrow>
     list_ex (\<lambda>r. opt_text_eq ck (fo_orderId r) (wd_id w)
        \<or> truthy (wd_quoteId w) \<and> opt_text_eq ck (fo_quoteId r) (nullish (wd_quoteId w) []) \<and> fo_orderId r = None)
       (flashnet_orders d)"

lemma event_handled_cong: "webhook_events d' = webhook_events d \<Longrightarrow> event_handled ck p d' = event_handled ck p d"
  by (cases "js_BigInt (wp_timestamp p)") (simp_all add: event_handled_def)

lemma order_known_cong: "flashnet_orders d' = flashnet_orders d \<Longrightarrow> order_known ck w d' = order_known ck w d"
  by (simp add: order_known_def)

lemma handled_replay:
  assumes "event_handled (env_ck E) p d"
  shows "applyWebhookEvent E p d = Inr d"
  using assms by (auto simp: event_handled_def intro: processed_replay split: option.splits)

lemma bind_order_known:
  assumes "bind_order E w d = Inr (found, d')"
  shows "order_known (env_ck E) w d \<longleftrightarrow> found \<noteq> None"
proof (cases "find (\<lambda>r. opt_text_eq (env_ck E) (fo_orderId r) (wd_id w)) (flashnet_orders d)")
  case (Some r)
  then have "r \<in> set (flashnet_orders d)" "opt_text_eq (env_ck E) (fo_orderId r) (wd_id w)"
    by (auto simp: find_Some_iff)
  moreover have "found \<noteq> None" using assms unfolding bind_order_def Some by auto
  ultimately show ?thesis unfolding order_known_def list_ex_iff by blast
next
  case None
  then have no: "\<forall>r \<in> set (flashnet_orders d). \<not> opt_text_eq (env_ck E) (fo_orderId r) (wd_id w)"
    by (simp add: find_None_iff)
  show ?thesis
  proof (cases "truthy (wd_quoteId w)")
    case True
    then obtain q where q: "wd_quoteId w = Some q" "q \<noteq> []" by (cases "wd_quoteId w") auto
    let ?P = "\<lambda>r. opt_text_eq (env_ck E) (fo_quoteId r) q \<and> fo_orderId r = None"
    have "order_known (env_ck E) w d \<longleftrightarrow> find ?P (flashnet_orders d) \<noteq> None"
      using no True q by (auto simp: order_known_def list_ex_iff find_None_iff nullish_def)
    moreover have "found \<noteq> None \<longleftrightarrow> find ?P (flashnet_orders d) \<noteq> None"
      using assms None q by (cases "find ?P (flashnet_orders d)") (auto simp: bind_order_def bind_result_Inr_iff)
    ultimately show ?thesis by simp
  next
    case False
    then have "found = None" using assms None by (cases "wd_quoteId w") (auto simp: bind_order_def)
    with no False show ?thesis by (auto simp: order_known_def list_ex_iff)
  qed
qed

text \<open>
  A delivery that succeeds either leaves a handled event, exactly when the event was handled before
  or its order is known, or only the receipt of the event.
\<close>

lemma webhook_receipt:
  assumes u: "events_uniq (env_ck E) d" "orders_uniq (env_ck E) d" and ap: "applyWebhookEvent E p d = Inr d'"
  obtains (handled) "event_handled (env_ck E) p d'" "event_handled (env_ck E) p d \<or> order_known (env_ck E) (wp_data p) d"
        | (unknown) ts ev where "\<not> event_handled (env_ck E) p d'" "\<not> event_handled (env_ck E) p d"
            "\<not> order_known (env_ck E) (wp_data p) d" "js_BigInt (wp_timestamp p) = Some ts"
            "upsert_event E p ts d = Inr (ev, d')" "processedAt ev = None" "bind_order E (wp_data p) d' = Inr (None, d')"
proof -
  have marked: thesis
    if up: "js_BigInt (wp_timestamp p) = Some ts" "upsert_event E p ts d = Inr (ev, d1)"
      and b: "bind_order E (wp_data p) d1 = Inr (Some ord, d2)" and d3: "webhook_events d3 = webhook_events d1"
      and m: "mark_processed E ev d3 = Inr d4" "webhook_events d' = webhook_events d4" for ts ev d1 d2 d3 d4 ord
  proof (rule handled)
    have "events_uniq (env_ck E) d3" using upsert_event_found(2) [OF up(2) u(1)] d3 by simp
    moreover have "find_unique (env_ck E) we_key (event_cells p ts) (webhook_events d3) = Some ev"
      using upsert_event_found(1) [OF up(2)] d3 by simp
    ultimately obtain e' where "find_unique (env_ck E) we_key (event_cells p ts) (webhook_events d4) = Some e'"
      "processedAt e' \<noteq> None"
      using mark_processed_found [OF _ _ m(1)] by blast
    with up(1) m(2) show "event_handled (env_ck E) p d'" by (simp add: event_handled_def)
    show "event_handled (env_ck E) p d \<or> order_known (env_ck E) (wp_data p) d"
      using bind_order_known [OF b] order_known_cong [OF upsert_event_fields(1) [OF up(2)]] by simp
  qed
  from ap show thesis
  proof (cases rule: applyWebhookEvent_cases)
    case (duplicate ts ev)
    then have "find_unique (env_ck E) we_key (event_cells p ts) (webhook_events d) = Some ev"
      by (auto simp: upsert_event_def new_event_def split: option.splits sum.splits)
    with duplicate upsert_event_found(1) [OF duplicate(2)] show thesis by (intro handled) (simp_all add: event_handled_def)
  next
    case (unknown ts ev d1)
    then have "orders_uniq (env_ck E) d1" using u(2) by (simp add: upsert_event_fields)
    then have d1: "d' = d1" using unknown(4) by (cases rule: bind_order_cases) simp_all
    have "\<not> event_handled (env_ck E) p d"
      using unknown(1-3) by (auto simp: event_handled_def upsert_event_def split: option.splits)
    moreover have "\<not> event_handled (env_ck E) p d'"
      using unknown(1,3) upsert_event_found(1) [OF unknown(2)] d1 by (simp add: event_handled_def)
    moreover have "\<not> order_known (env_ck E) (wp_data p) d"
      using bind_order_known [OF unknown(4)] order_known_cong [OF upsert_event_fields(1) [OF unknown(2)]] by simp
    ultimately show thesis using unknown d1 by (intro that(2)) simp_all
  next
    case (recovery ts ev d1 ord d2)
    then obtain d3 where "mark_processed E ev d3 = Inr d'" "webhook_events d3 = webhook_events d2"
      by (auto simp: recovery_required_def bind_result_Inr_iff open_refund_case_fields split: if_splits)
    with recovery bind_order_events [OF recovery(4)] show thesis by (auto intro: marked)
  next
    case (kept ts ev d1 ord d2)
    then show thesis using bind_order_events [OF kept(4)] by (auto intro: marked)
  next
    case (applied ts ev d1 ord d2 a nxt)
    then obtain f d3 d4 where "update_order E (fo_id ord) f d2 = Inr d3" "mark_processed E ev d3 = Inr d4"
      "webhook_events d' = webhook_events d4"
      by (auto simp: apply_transition_def bind_result_Inr_iff open_refund_case_fields split: if_splits)
    moreover from this have "webhook_events d3 = webhook_events d1"
      using bind_order_events [OF applied(4)] by (auto simp: update_order_def split: sum.splits)
    ultimately show thesis using applied by (auto intro: marked)
  qed
qed

text \<open>With nothing written in between, a second delivery changes nothing, whether the order is known or not.\<close>

lemma webhook_redelivery:
  assumes u: "events_uniq (env_ck E) d" "orders_uniq (env_ck E) d" and E2: "env_ck E2 = env_ck E"
    and ap: "applyWebhookEvent E p d = Inr d'"
  shows "applyWebhookEvent E2 p d' = Inr d'"
  using u ap
proof (cases rule: webhook_receipt)
  case handled
  then show ?thesis using E2 by (intro handled_replay) simp
next
  case (unknown ts ev)
  moreover have "bind_order E2 (wp_data p) d' = bind_order E (wp_data p) d'"
    using E2 by (simp add: bind_order_def update_order_def cong: option.case_cong if_cong)
  moreover have "upsert_event E2 p ts d' = Inr (ev, d')"
    using upsert_event_found(1) [OF unknown(5)] E2 by (simp add: upsert_event_existing)
  ultimately show ?thesis by (simp add: applyWebhookEvent_def)
qed

section \<open>Failed payments have a refund case\<close>

definition failed_have_cases :: "collation \<Rightarrow> db \<Rightarrow> bool" where
  "failed_have_cases ck d \<longleftrightarrow>
     list_all (\<lambda>r. fo_status r = Some (status_name FAILED)
                   \<longrightarrow> case_by_invoice ck (fo_invoiceId r) d \<noteq> None) (flashnet_orders d)"

lemma case_by_invoice_mono:
  assumes "open_refund_case E ord reason d = Inr d'" and "case_by_invoice (env_ck E) i d \<noteq> None"
  shows "case_by_invoice (env_ck E) i d' \<noteq> None"
  using assms createRefundCase_keeps by (fastforce simp: open_refund_case_def split: sum.splits)

lemma open_refund_case_found:
  assumes "open_refund_case E ord reason d = Inr d'" and "fresh_case_id (env_ck E) (env_case_id E) d"
  shows "case_by_invoice (env_ck E) (fo_invoiceId ord) d' \<noteq> None"
  using assms createRefundCase_found [OF assms(2)]
  by (fastforce simp: open_refund_case_def split: sum.splits)

lemma bind_order_cases_fields [db_simps]:
  assumes "bind_order E w d = Inr (found, d2)"
  shows "refund_cases d2 = refund_cases d" "invoices d2 = invoices d"
  using assms by (auto simp: bind_order_def update_order_def bind_result_Inr_iff
      split: option.splits if_splits sum.splits)

lemma case_by_invoice_cong: "refund_cases d' = refund_cases d \<Longrightarrow> case_by_invoice ck i d' = case_by_invoice ck i d"
  by (simp add: case_by_invoice_def)

lemma applyWebhookEvent_keeps_cases:
  assumes "applyWebhookEvent E p d = Inr d'" and "case_by_invoice (env_ck E) i d \<noteq> None"
  shows "case_by_invoice (env_ck E) i d' \<noteq> None"
proof -
  have base: "case_by_invoice (env_ck E) i d2 \<noteq> None"
    if "upsert_event E p ts d = Inr (ev, d1)" "bind_order E (wp_data p) d1 = Inr (found, d2)" for ts ev d1 found d2
    using assms(2) upsert_event_fields(2) [OF that(1)] bind_order_cases_fields(1) [OF that(2)]
    by (simp add: case_by_invoice_def)
  from assms(1) show ?thesis
  proof (cases rule: applyWebhookEvent_cases)
    case (duplicate ts ev)
    with assms(2) upsert_event_fields(2) [OF duplicate(2)] show ?thesis by (simp add: case_by_invoice_def)
  next
    case (unknown ts ev d1)
    with base [OF unknown(2,4)] show ?thesis by simp
  next
    case (recovery ts ev d1 ord d2)
    from recovery(7) obtain d3 where m: "mark_processed E ev d3 = Inr d'"
      and d3: "d3 = d2 \<or> open_refund_case E ord ''PAYMENT_RECOVERY_REQUIRED'' d2 = Inr d3"
      by (auto simp: recovery_required_def bind_result_Inr_iff split: if_splits)
    from d3 base [OF recovery(2,4)] have "case_by_invoice (env_ck E) i d3 \<noteq> None"
      by (auto dest: case_by_invoice_mono)
    then show ?thesis using mark_processed_fields(2) [OF m] by (simp add: case_by_invoice_def)
  next
    case (kept ts ev d1 ord d2)
    from kept(6) base [OF kept(2,4)] show ?thesis by (metis case_by_invoice_cong mark_processed_fields(2))
  next
    case (applied ts ev d1 ord d2 a nxt)
    then obtain f d3 d4 where d: "update_order E (fo_id ord) f d2 = Inr d3" "mark_processed E ev d3 = Inr d4"
      "d' = d4 \<or> open_refund_case E ord (failure_reason (wp_data p)) d4 = Inr d'"
      by (auto simp: apply_transition_def bind_result_Inr_iff split: if_splits)
    from d(1) have "refund_cases d3 = refund_cases d2" by (auto simp: update_order_def split: sum.splits)
    with d(2) base [OF applied(2,4)] have "case_by_invoice (env_ck E) i d4 \<noteq> None"
      by (metis case_by_invoice_cong mark_processed_fields(2))
    with d(3) show ?thesis by (auto dest: case_by_invoice_mono)
  qed
qed

lemma only_failed_event_fails: "mapEventToStatus e = Inr (Mapped FAILED) \<Longrightarrow> e = ''order.failed''"
  by (auto simp: mapEventToStatus_Mapped event_mapping_def)

text \<open>The row that a delivery turns to failed has its case in the store that is committed.\<close>

lemma newly_failed_has_case:
  assumes ok: "orders_ok (env_ck E) d" and fresh: "fresh_case_id (env_ck E) (env_case_id E) d"
    and ap: "applyWebhookEvent E p d = Inr d'"
  shows "list_all2 (\<lambda>r r'. fo_status r' = Some (status_name FAILED)
           \<longrightarrow> fo_status r = Some (status_name FAILED)
             \<or> case_by_invoice (env_ck E) (fo_invoiceId r') d' \<noteq> None)
           (flashnet_orders d) (flashnet_orders d')" (is "list_all2 ?R _ _")
  using ap
proof (cases rule: applyWebhookEvent_cases)
  case (applied ts ev d1 ord d2 a nxt)
  then have ok1: "orders_ok (env_ck E) d1" using ok by (simp add: orders_ok_def upsert_event_fields)
  from applied_row [OF ok1 applied(4,7,8)] obtain xs r' ys where
    r: "flashnet_orders d1 = xs @ ord # ys" "flashnet_orders d' = xs @ r' # ys" "row_step ord r'"
       "fo_status r' = Some (status_name nxt)" "a = Mapped nxt" by blast
  have "case_by_invoice (env_ck E) (fo_invoiceId r') d' \<noteq> None" if "nxt = FAILED"
  proof -
    have "wp_event p = ''order.failed''"
      using applied(6) r(5) that by (simp add: only_failed_event_fails)
    then obtain f d3 d4 where d: "update_order E (fo_id ord) f d2 = Inr d3" "mark_processed E ev d3 = Inr d4"
      "open_refund_case E ord (failure_reason (wp_data p)) d4 = Inr d'"
      using applied(8) by (auto simp: apply_transition_def bind_result_Inr_iff)
    from d(1) have "refund_cases d3 = refund_cases d2" by (auto simp: update_order_def split: sum.splits)
    then have "refund_cases d4 = refund_cases d"
      using mark_processed_fields(2) [OF d(2)] bind_order_cases_fields(1) [OF applied(4)]
        upsert_event_fields(2) [OF applied(2)] by simp
    with fresh have "fresh_case_id (env_ck E) (env_case_id E) d4" by (simp add: fresh_case_id_def)
    from open_refund_case_found [OF d(3) this] r(3) show ?thesis by (simp add: row_step_def)
  qed
  with r(4) have "?R ord r'" by auto
  with r(1,2) upsert_event_fields(1) [OF applied(2)] show ?thesis by (auto intro!: list_all2_middle)
next
  case (unknown ts ev d1)
  then have "orders_uniq (env_ck E) d1" using ok by (simp add: orders_ok_def upsert_event_fields)
  then have "d' = d1" using unknown(4) by (cases rule: bind_order_cases) simp_all
  with unknown show ?thesis by (auto simp: upsert_event_fields intro!: list_all2_refl)
next
  case (recovery ts ev d1 ord d2)
  from recovery ok have "orders_uniq (env_ck E) d1" by (simp add: orders_ok_def upsert_event_fields)
  from bind_order_rows [OF this recovery(4)] recovery show ?thesis
    by (auto simp: upsert_event_fields recovery_required_orders intro!: list_all2_middle)
next
  case (kept ts ev d1 ord d2)
  from kept ok have "orders_uniq (env_ck E) d1" by (simp add: orders_ok_def upsert_event_fields)
  from bind_order_rows [OF this kept(4)] kept show ?thesis
    by (auto simp: upsert_event_fields mark_processed_fields intro!: list_all2_middle)
qed (auto simp: upsert_event_fields intro!: list_all2_refl)

lemma applyWebhookEvent_failed_cases:
  assumes "orders_ok (env_ck E) d" and "failed_have_cases (env_ck E) d"
    and "fresh_case_id (env_ck E) (env_case_id E) d" and "applyWebhookEvent E p d = Inr d'"
  shows "failed_have_cases (env_ck E) d'"
  unfolding failed_have_cases_def list_all_iff
proof (intro ballI impI)
  fix r' assume r': "r' \<in> set (flashnet_orders d')" "fo_status r' = Some (status_name FAILED)"
  then obtain i where i: "i < length (flashnet_orders d')" "r' = flashnet_orders d' ! i"
    by (metis in_set_conv_nth)
  let ?r = "flashnet_orders d ! i"
  have len: "length (flashnet_orders d) = length (flashnet_orders d')"
    using newly_failed_has_case [OF assms(1,3,4)] by (rule list_all2_lengthD)
  then have "fo_status ?r = Some (status_name FAILED) \<or> case_by_invoice (env_ck E) (fo_invoiceId r') d' \<noteq> None"
    using newly_failed_has_case [OF assms(1,3,4)] i r'(2) by (auto simp: list_all2_conv_all_nth)
  moreover have "fo_invoiceId r' = fo_invoiceId ?r"
    using applyWebhookEvent_rows [OF assms(1,4)] i len by (auto simp: list_all2_conv_all_nth row_step_def)
  ultimately show "case_by_invoice (env_ck E) (fo_invoiceId r') d' \<noteq> None"
    using assms(2) i len applyWebhookEvent_keeps_cases [OF assms(4)]
    by (auto simp: failed_have_cases_def list_all_iff)
qed

text \<open>
  C10. No failed payment is lost: every order whose status is failed has a refund case for its
  invoice in the operations queue, and every handled delivery keeps it so.
\<close>

theorem failed_orders_have_refund_case:
  assumes "orders_ok (env_ck E) d" and "failed_have_cases (env_ck E) d"
    and "fresh_case_id (env_ck E) (env_case_id E) d" and "applyWebhookEvent E p d = Inr d'"
  shows "failed_have_cases (env_ck E) d'"
  using assms by (rule applyWebhookEvent_failed_cases)

section \<open>A concrete store\<close>

text \<open>Exact decimal arithmetic, one unfunded quote, and two snapshots of its order.\<close>

definition demo_dec :: decimal_lib where
  "demo_dec = \<lparr>dec_new = (\<lambda>s. if all_digits s then Some (of_nat (dec_val s)) else None), dec_div = (/)\<rparr>"

definition demo_env :: swap_env where
  "demo_env = \<lparr>env_ck = id, env_dec = demo_dec, env_now = 100, env_parseDate = (\<lambda>s. Some 5000),
     env_event_id = ''e1'', env_case_id = ''c1'', env_order_id = ''f2''\<rparr>"

definition demo_order :: FlashnetOrder where
  "demo_order = \<lparr>fo_id = ''f1'', fo_invoiceId = ''i1'', fo_quoteId = Some ''q_1'', fo_orderId = None,
     lightningReceiveRequestId = Some ''l1'', estimatedOut = Some 1, lockedMinAmountOut = None,
     actualOut = None, fo_feeAmount = None, roundingFeeAmount = None, totalFeeAmount = None,
     fo_feeBps = None, fo_feeAsset = Some ''USDB'', fo_route = None, fo_priceLockMode = None,
     fo_status = Some ''PENDING_PAYMENT'', errorCode = None, errorMessage = None\<rparr>"

definition demo_db :: db where
  "demo_db = empty_db\<lparr>invoices := [demo_invoice], flashnet_orders := [demo_order]\<rparr>"

definition demo_payload :: "js_string \<Rightarrow> FlashnetWebhookPayload" where
  "demo_payload event = \<lparr>wp_event = event, wp_timestamp = ''17'',
     wp_data = \<lparr>wd_id = ''ord_1'', wd_quoteId = Some ''q_1'', wd_updatedAt = None, wd_reviewStatus = None,
       wd_feeAsset = None, wd_status = ''x'', wd_amountOut = Some ''9'', wd_feeAmount = None,
       wd_error = None\<rparr>\<rparr>"

lemma demo_completed: "is_ok (applyWebhookEvent demo_env (demo_payload ''order.completed'') demo_db)"
  by code_simp

lemma demo_failed: "is_ok (applyWebhookEvent demo_env (demo_payload ''order.failed'') demo_db)"
  by code_simp

lemma demo_ok: "orders_ok id demo_db" "events_uniq id demo_db" "orders_uniq id demo_db"
    "failed_have_cases id demo_db" "fresh_case_id id ''c1'' demo_db"
  by (simp_all add: orders_ok_def demo_db_def demo_order_def order_status_def status_of_def
      all_statuses_def status_name.simps uniq_def failed_have_cases_def fresh_case_id_def empty_db_def)


theorem deliveries_refine_order_machine_witness:
  "list_all2 row_evolves (flashnet_orders demo_db)
     (flashnet_orders (fold deliver [(demo_env, demo_payload ''order.completed''),
        (demo_env, demo_payload ''order.failed'')] demo_db))"
  by (rule deliveries_refine_order_machine [of id]) (simp_all add: demo_ok demo_env_def)

theorem failed_orders_have_refund_case_witness:
  "\<exists>d'. applyWebhookEvent demo_env (demo_payload ''order.failed'') demo_db = Inr d' \<and> failed_have_cases id d'"
proof -
  obtain d' where "applyWebhookEvent demo_env (demo_payload ''order.failed'') demo_db = Inr d'"
    using demo_failed by (cases "applyWebhookEvent demo_env (demo_payload ''order.failed'') demo_db") auto
  moreover have "env_ck demo_env = id" "env_case_id demo_env = ''c1''" by (simp_all add: demo_env_def)
  ultimately show ?thesis
    using failed_orders_have_refund_case [of demo_env demo_db] demo_ok by auto
qed

end
