(* ===== verification/Swap_Quote.thy ===== *)
theory Swap_Quote
  imports Swap
begin

text \<open>
  \<open>SwapService.initiateLightningQuote\<close>: ask Flashnet for a quote and persist the invoice and the
  order in one transaction. The Flashnet client is the argument \<open>quote\<close>; the service runs
  with the client of \<open>src/flashnet/flashnet.service.ts\<close> or its mock.
\<close>

record InitiateLightningQuoteParams =
  iq_idempotencyKey :: js_string
  iq_amountSats :: nat
  iq_amountMsat :: nat
  iq_recipientSparkAddress :: js_string
  iq_lightningNameId :: js_string
  iq_descriptionHash :: js_string

record InitiateLightningQuoteResult =
  ir_bolt11 :: js_string
  ir_replayed :: bool

type_synonym flashnet_quote = "LightningQuoteRequest \<Rightarrow> js_string \<Rightarrow> swap_error + LightningQuoteResponse"

definition SLIPPAGE_BPS_DEFAULT :: int where "SLIPPAGE_BPS_DEFAULT = 50"

definition quote_request :: "InitiateLightningQuoteParams \<Rightarrow> LightningQuoteRequest" where
  "quote_request q =
     \<lparr>lq_recipientAddress = iq_recipientSparkAddress q, lq_amount = dec_str (iq_amountSats q),
      lq_slippageBps = SLIPPAGE_BPS_DEFAULT, lq_descriptionHash = Some (iq_descriptionHash q)\<rparr>"

definition order_by_invoice :: "collation \<Rightarrow> js_string \<Rightarrow> db \<Rightarrow> FlashnetOrder option" where
  "order_by_invoice ck i d = find (\<lambda>r. text_eq ck (fo_invoiceId r) i) (flashnet_orders d)"

definition quote_invoice ::
  "InitiateLightningQuoteParams \<Rightarrow> LightningQuoteResponse \<Rightarrow> time_ms \<Rightarrow> Invoice" where
  "quote_invoice q r expiry =
     \<lparr>inv_id = iq_idempotencyKey q, usernameId = iq_lightningNameId q,
      amountMsat = int (iq_amountMsat q), bolt11 = qr_depositAddress r, inv_expiresAt = expiry,
      inv_status = ''pending'', receivingCurrency = USDB,
      destinationSparkAddress = Some (iq_recipientSparkAddress q)\<rparr>"

text \<open>The row of the order; each amount is converted from smallest units and may throw.\<close>

definition quote_order ::
  "swap_env \<Rightarrow> InitiateLightningQuoteParams \<Rightarrow> LightningQuoteResponse \<Rightarrow> swap_error + FlashnetOrder" where
  "quote_order E q r =
     (let usdb = usdbSmallestUnitsToDecimal (env_dec E) in
      bind_result (usdb (qr_estimatedOut r)) (\<lambda>est.
      bind_result (case qr_lockedMinAmountOut r of None \<Rightarrow> Inr None
                   | Some l \<Rightarrow> map_sum id Some (usdb l)) (\<lambda>locked.
      bind_result (usdb (qr_feeAmount r)) (\<lambda>fee.
      bind_result (usdb (qr_roundingFeeAmount r)) (\<lambda>rounding.
      bind_result (usdb (qr_totalFeeAmount r)) (\<lambda>total.
        Inr \<lparr>fo_id = env_order_id E, fo_invoiceId = iq_idempotencyKey q,
             fo_quoteId = Some (qr_quoteId r), fo_orderId = None,
             lightningReceiveRequestId = Some (qr_lightningReceiveRequestId r),
             estimatedOut = Some est, lockedMinAmountOut = locked, actualOut = None,
             fo_feeAmount = Some fee, roundingFeeAmount = Some rounding, totalFeeAmount = Some total,
             fo_feeBps = Some (qr_feeBps r), fo_feeAsset = Some (qr_feeAsset r),
             fo_route = Some (json_array (map json_string (qr_route r))),
             fo_priceLockMode = qr_priceLockMode r,
             fo_status = Some (status_name PENDING_PAYMENT),
             errorCode = None, errorMessage = None\<rparr>))))))"

text \<open>The transaction: the invoice, with its foreign key to the name, then the order.\<close>

definition persist_quote ::
  "swap_env \<Rightarrow> InitiateLightningQuoteParams \<Rightarrow> LightningQuoteResponse \<Rightarrow> db \<Rightarrow> swap_error + db" where
  "persist_quote E q r d =
     (case env_parseDate E (qr_expiresAt r) of
        None \<Rightarrow> Inl (InvalidDate (qr_expiresAt r))
      | Some expiry \<Rightarrow>
          if find (\<lambda>n. text_eq (env_ck E) (ln_id n) (iq_lightningNameId q)) (lightning_names d) = None
          then Inl (SwapDbError P2003)
          else bind_result (map_sum SwapDbError id
                 (tbl_create (env_ck E) invoice_ixs (quote_invoice q r expiry) (invoices d))) (\<lambda>is.
               bind_result (quote_order E q r) (\<lambda>ord.
               bind_result (map_sum SwapDbError id
                 (tbl_create (env_ck E) flashnet_order_ixs ord (flashnet_orders d))) (\<lambda>os.
                 Inr (d\<lparr>invoices := is, flashnet_orders := os\<rparr>)))))"

definition initiateLightningQuote ::
  "swap_env \<Rightarrow> flashnet_quote \<Rightarrow> InitiateLightningQuoteParams \<Rightarrow> db
   \<Rightarrow> swap_error + InitiateLightningQuoteResult \<times> db" where
  "initiateLightningQuote E quote q d =
     bind_result (quote (quote_request q) (iq_idempotencyKey q)) (\<lambda>r.
       if qr_replayed r \<and> order_by_invoice (env_ck E) (iq_idempotencyKey q) d \<noteq> None
       then Inr (\<lparr>ir_bolt11 = (case invoice_by_id (env_ck E) (iq_idempotencyKey q) d of
                                None \<Rightarrow> qr_depositAddress r | Some i \<Rightarrow> bolt11 i),
                  ir_replayed = True\<rparr>, d)
       else bind_result (persist_quote E q r d) (\<lambda>d'.
              Inr (\<lparr>ir_bolt11 = qr_depositAddress r, ir_replayed = False\<rparr>, d')))"

lemma quote_order_shape:
  assumes "quote_order E q r = Inr ord"
  shows "fo_invoiceId ord = iq_idempotencyKey q" "fo_quoteId ord = Some (qr_quoteId r)"
    "fo_orderId ord = None" "order_status ord = Some PENDING_PAYMENT" "actualOut ord = None"
    "usdbSmallestUnitsToDecimal (env_dec E) (qr_estimatedOut r) = Inr (the (estimatedOut ord))"
  using assms by (auto simp: quote_order_def Let_def bind_result_Inr_iff order_status_Some)

lemma persist_quote_Inr:
  assumes "persist_quote E q r d = Inr d'"
  obtains expiry ord where "env_parseDate E (qr_expiresAt r) = Some expiry"
    "quote_order E q r = Inr ord"
    "tbl_create (env_ck E) invoice_ixs (quote_invoice q r expiry) (invoices d)
       = Inr (invoices d @ [quote_invoice q r expiry])"
    "tbl_create (env_ck E) flashnet_order_ixs ord (flashnet_orders d) = Inr (flashnet_orders d @ [ord])"
    "d' = d\<lparr>invoices := invoices d @ [quote_invoice q r expiry],
            flashnet_orders := flashnet_orders d @ [ord]\<rparr>"
  using assms
  by (auto simp: persist_quote_def bind_result_Inr_iff map_sum_Inr tbl_create_Inr
      split: option.splits if_splits)

text \<open>
  A quote is persisted whole or not at all. When the call succeeds, it either replays an
  order that is already stored and writes nothing, or adds exactly one invoice and one
  order under the caller's key: the invoice carries the returned payment request and the
  requested amount, the order is pending and not bound to a Flashnet order. The
  invariants of the order table are kept.
\<close>

theorem quote_persisted_whole:
  assumes "orders_ok (env_ck E) d" and "failed_have_cases (env_ck E) d"
    and "initiateLightningQuote E quote q d = Inr (res, d')"
  shows "orders_ok (env_ck E) d' \<and> failed_have_cases (env_ck E) d'
         \<and> (if ir_replayed res then d' = d
            else \<exists>r expiry ord. quote (quote_request q) (iq_idempotencyKey q) = Inr r
              \<and> ir_bolt11 res = qr_depositAddress r
              \<and> quote_order E q r = Inr ord
              \<and> d' = d\<lparr>invoices := invoices d @ [quote_invoice q r expiry],
                      flashnet_orders := flashnet_orders d @ [ord]\<rparr>
              \<and> fo_invoiceId ord = iq_idempotencyKey q \<and> fo_orderId ord = None
              \<and> order_status ord = Some PENDING_PAYMENT)"
proof -
  from assms(3) obtain r where r: "quote (quote_request q) (iq_idempotencyKey q) = Inr r"
    by (auto simp: initiateLightningQuote_def bind_result_Inr_iff)
  show ?thesis
  proof (cases "qr_replayed r \<and> order_by_invoice (env_ck E) (iq_idempotencyKey q) d \<noteq> None")
    case True
    with assms r show ?thesis by (auto simp: initiateLightningQuote_def)
  next
    case False
    with assms(3) r have p: "persist_quote E q r d = Inr d'" "ir_bolt11 res = qr_depositAddress r"
        "\<not> ir_replayed res"
      by (auto simp: initiateLightningQuote_def bind_result_Inr_iff)
    from p(1) obtain expiry ord where s: "quote_order E q r = Inr ord"
      "tbl_create (env_ck E) flashnet_order_ixs ord (flashnet_orders d) = Inr (flashnet_orders d @ [ord])"
      "d' = d\<lparr>invoices := invoices d @ [quote_invoice q r expiry],
              flashnet_orders := flashnet_orders d @ [ord]\<rparr>"
      by (rule persist_quote_Inr)
    note shape = quote_order_shape [OF s(1)]
    have "orders_ok (env_ck E) d'"
      using assms(1) s tbl_create_uniq [OF _ s(2)] shape(4) by (auto simp: orders_ok_def)
    moreover have "failed_have_cases (env_ck E) d'"
      using assms(2) s(3) shape(4)
      by (auto simp: failed_have_cases_def list_all_iff case_by_invoice_def order_status_Some)
    ultimately show ?thesis using p(2,3) r s(1,3) shape by auto
  qed
qed

definition demo_quote :: flashnet_quote where
  "demo_quote req key = Inr
     \<lparr>qr_quoteId = ''q_9'', qr_depositAddress = ''lnbc9'', qr_amountIn = lq_amount req,
      qr_estimatedOut = ''9'', qr_feeAmount = ''1'', qr_roundingFeeAmount = ''0'',
      qr_totalFeeAmount = ''1'', qr_feeBps = 41, qr_feeAsset = ''USDB'', qr_route = [''BTC'', ''USDB''],
      qr_expiresAt = ''t'', qr_priceLockMode = None, qr_lockedMinAmountOut = None,
      qr_amountMode = None, qr_flexibleAmount = False, qr_lightningReceiveRequestId = ''l9'',
      qr_replayed = False\<rparr>"

definition demo_name :: LightningName where
  "demo_name = \<lparr>ln_id = ''n1'', ln_username = ''alice'', ln_userId = ''u1'', linkingPubKeyHex = ''02ab'',
     ln_active = True, activePubKey = Some ''02ab'', ln_createdAt = 0\<rparr>"

definition demo_quote_params :: InitiateLightningQuoteParams where
  "demo_quote_params = \<lparr>iq_idempotencyKey = ''i9'', iq_amountSats = 5, iq_amountMsat = 5000,
     iq_recipientSparkAddress = ''spark1'', iq_lightningNameId = ''n1'', iq_descriptionHash = ''ab''\<rparr>"

lemma demo_quote_ok:
  "is_ok (initiateLightningQuote demo_env demo_quote demo_quote_params (demo_db\<lparr>lightning_names := [demo_name]\<rparr>))"
  by code_simp

theorem quote_persisted_whole_witness:
  "\<exists>res d'. initiateLightningQuote demo_env demo_quote demo_quote_params
               (demo_db\<lparr>lightning_names := [demo_name]\<rparr>) = Inr (res, d')
     \<and> orders_ok id d' \<and> failed_have_cases id d'"
proof -
  let ?d = "demo_db\<lparr>lightning_names := [demo_name]\<rparr>"
  obtain res d' where r: "initiateLightningQuote demo_env demo_quote demo_quote_params ?d = Inr (res, d')"
    using demo_quote_ok by (cases "initiateLightningQuote demo_env demo_quote demo_quote_params ?d") auto
  moreover have "env_ck demo_env = id" by (simp add: demo_env_def)
  moreover have "orders_ok id ?d" "failed_have_cases id ?d"
    using demo_ok by (simp_all add: orders_ok_def failed_have_cases_def case_by_invoice_def)
  ultimately show ?thesis using quote_persisted_whole [of demo_env ?d demo_quote demo_quote_params res d'] by auto
qed

end
