(* ===== verification/Order_Writers.thy ===== *)
theory Order_Writers
  imports Swap_Quote
begin

text \<open>
  What the components that write orders promise each other. The quote reconciler runs beside
  webhook deliveries and new quotes; it relies on them, and they on it, only through the
  contract \<open>order_writer\<close>: stored orders evolve along the order machine, rows are never
  removed or displaced, and new rows are appended.
\<close>

lemma row_evolves_trans:
  assumes "row_evolves r r'" and "row_evolves r' r''"
  shows "row_evolves r r''"
proof -
  from assms(1) obtain s t where st: "order_status r = Some s" "order_status r' = Some t"
    "order_step\<^sup>*\<^sup>* s t" "s \<in> set terminal \<Longrightarrow> r' = r\<lparr>fo_orderId := fo_orderId r'\<rparr>"
    by (auto simp: row_evolves_def)
  from assms(2) st(2) obtain u where u: "order_status r'' = Some u" "order_step\<^sup>*\<^sup>* t u"
    "t \<in> set terminal \<Longrightarrow> r'' = r'\<lparr>fo_orderId := fo_orderId r''\<rparr>"
    by (auto simp: row_evolves_def)
  have "r'' = r\<lparr>fo_orderId := fo_orderId r''\<rparr>" if s: "s \<in> set terminal"
  proof -
    have "t = s" using st(3) s by (auto elim: converse_rtranclpE dest: terminal_no_step)
    then show ?thesis
      using u(3) st(4) [OF s] s by (metis FlashnetOrder.surjective FlashnetOrder.update_convs(4))
  qed
  moreover have "order_step\<^sup>*\<^sup>* s u" using st(3) u(2) by (rule rtranclp_trans)
  ultimately show ?thesis using assms st(1) u(1) by (auto simp: row_evolves_def)
qed

definition orders_evolve :: "collation \<Rightarrow> db \<Rightarrow> db \<Rightarrow> bool" where
  "orders_evolve ck d d' \<longleftrightarrow>
     orders_ok ck d' \<and> length (flashnet_orders d) \<le> length (flashnet_orders d')
     \<and> list_all2 row_evolves (flashnet_orders d) (take (length (flashnet_orders d)) (flashnet_orders d'))"

lemma orders_evolve_ok: "orders_evolve ck d d' \<Longrightarrow> orders_ok ck d'"
  by (simp add: orders_evolve_def)

lemma orders_evolve_nth:
  assumes "orders_evolve ck d d'" and "i < length (flashnet_orders d)"
  shows "i < length (flashnet_orders d')" "row_evolves (flashnet_orders d ! i) (flashnet_orders d' ! i)"
  using assms by (auto simp: orders_evolve_def list_all2_conv_all_nth)

lemma orders_evolveI:
  assumes "orders_ok ck d'" and "length (flashnet_orders d) \<le> length (flashnet_orders d')"
    and "\<And>i. i < length (flashnet_orders d) \<Longrightarrow> row_evolves (flashnet_orders d ! i) (flashnet_orders d' ! i)"
  shows "orders_evolve ck d d'"
  using assms by (auto simp: orders_evolve_def list_all2_conv_all_nth)

lemma orders_evolve_refl: "orders_ok ck d \<Longrightarrow> orders_evolve ck d d"
  by (rule orders_evolveI) (auto simp: orders_ok_def list_all_iff intro: row_evolves_refl)

lemma orders_evolve_trans:
  assumes "orders_evolve ck d d'" and "orders_evolve ck d' d''"
  shows "orders_evolve ck d d''"
proof (rule orders_evolveI)
  show "orders_ok ck d''" using assms(2) by (rule orders_evolve_ok)
  show "length (flashnet_orders d) \<le> length (flashnet_orders d'')"
    using assms by (simp add: orders_evolve_def)
next
  fix i assume "i < length (flashnet_orders d)"
  from orders_evolve_nth [OF assms(1) this] orders_evolve_nth(2) [OF assms(2)]
  show "row_evolves (flashnet_orders d ! i) (flashnet_orders d'' ! i)" by (blast intro: row_evolves_trans)
qed

text \<open>A row keeps its id, so ids are never lost.\<close>

lemma orders_evolve_ids:
  assumes "orders_evolve ck d d'"
  shows "set (map fo_id (flashnet_orders d)) \<subseteq> set (map fo_id (flashnet_orders d'))"
proof
  fix x assume "x \<in> set (map fo_id (flashnet_orders d))"
  then obtain i where i: "i < length (flashnet_orders d)" "x = fo_id (flashnet_orders d ! i)"
    by (auto simp: in_set_conv_nth)
  with orders_evolve_nth [OF assms i(1)] have "fo_id (flashnet_orders d' ! i) = x" "i < length (flashnet_orders d')"
    by (simp_all add: row_evolves_def)
  then show "x \<in> set (map fo_id (flashnet_orders d'))" by (metis length_map nth_map nth_mem)
qed

section \<open>The contract\<close>

locale order_writer =
  fixes ck :: collation and wr :: "db \<Rightarrow> db"
  assumes write_evolves: "orders_ok ck d \<Longrightarrow> orders_evolve ck d (wr d)"
begin

lemma write_ok: "orders_ok ck d \<Longrightarrow> orders_ok ck (wr d)"
  by (rule orders_evolve_ok [OF write_evolves])

lemma write_after: "orders_evolve ck d0 d \<Longrightarrow> orders_evolve ck d0 (wr d)"
  by (rule orders_evolve_trans) (auto intro: write_evolves orders_evolve_ok)

lemma iterate_evolves: "orders_ok ck d \<Longrightarrow> orders_evolve ck d ((wr ^^ n) d)"
  by (induction n) (auto intro: orders_evolve_refl write_after)

end

section \<open>The writers of the program\<close>

lemma row_step_evolves: "order_status r \<noteq> None \<Longrightarrow> row_step r r' \<Longrightarrow> row_evolves r r'"
  by (rule row_evolves_step [OF row_evolves_refl])

lemma deliver_evolves:
  assumes "orders_ok ck d" and "env_ck (fst x) = ck"
  shows "orders_evolve ck d (deliver x d)"
proof (rule orders_evolveI)
  note s = deliver_rows [OF assms]
  show "orders_ok ck (deliver x d)" using s by blast
  show "length (flashnet_orders d) \<le> length (flashnet_orders (deliver x d))"
    using s by (auto dest: list_all2_lengthD)
  fix i assume "i < length (flashnet_orders d)"
  with s assms(1) show "row_evolves (flashnet_orders d ! i) (flashnet_orders (deliver x d) ! i)"
    by (auto simp: list_all2_conv_all_nth orders_ok_def list_all_iff intro: row_step_evolves)
qed

interpretation webhook_writer: order_writer "env_ck (fst x)" "deliver x" for x
  by unfold_locales (rule deliver_evolves [OF _ refl])

text \<open>One quote request: the store afterwards, rolled back when the call throws.\<close>

definition store_quote ::
  "swap_env \<Rightarrow> flashnet_quote \<Rightarrow> InitiateLightningQuoteParams \<Rightarrow> db \<Rightarrow> db" where
  "store_quote E quote q d =
     (case initiateLightningQuote E quote q d of Inl _ \<Rightarrow> d | Inr (_, d') \<Rightarrow> d')"

lemma initiateLightningQuote_orders:
  assumes "initiateLightningQuote E quote q d = Inr (res, d')"
  shows "d' = d \<or> (\<exists>ord. flashnet_orders d' = flashnet_orders d @ [ord] \<and> order_status ord \<noteq> None
           \<and> tbl_create (env_ck E) flashnet_order_ixs ord (flashnet_orders d) = Inr (flashnet_orders d'))"
  using assms quote_order_shape(4)
  by (fastforce simp: initiateLightningQuote_def bind_result_Inr_iff split: if_splits elim!: persist_quote_Inr)

lemma store_quote_evolves:
  assumes ok: "orders_ok (env_ck E) d"
  shows "orders_evolve (env_ck E) d (store_quote E quote q d)"
proof (cases "initiateLightningQuote E quote q d")
  case (Inl e)
  with ok show ?thesis by (simp add: store_quote_def orders_evolve_refl)
next
  case (Inr x)
  then obtain res d' where x: "initiateLightningQuote E quote q d = Inr (res, d')" by (cases x) auto
  have d': "store_quote E quote q d = d'" using x by (simp add: store_quote_def)
  from initiateLightningQuote_orders [OF x] show ?thesis
  proof
    assume "d' = d"
    with ok d' show ?thesis by (simp add: orders_evolve_refl)
  next
    assume "\<exists>ord. flashnet_orders d' = flashnet_orders d @ [ord] \<and> order_status ord \<noteq> None
           \<and> tbl_create (env_ck E) flashnet_order_ixs ord (flashnet_orders d) = Inr (flashnet_orders d')"
    then obtain ord where o: "flashnet_orders d' = flashnet_orders d @ [ord]" "order_status ord \<noteq> None"
      "tbl_create (env_ck E) flashnet_order_ixs ord (flashnet_orders d) = Inr (flashnet_orders d')" by blast
    have "orders_ok (env_ck E) d'"
      using ok o tbl_create_uniq [OF _ o(3)] by (auto simp: orders_ok_def)
    moreover have "row_evolves (flashnet_orders d ! i) (flashnet_orders d' ! i)" if "i < length (flashnet_orders d)" for i
      using that ok o(1) by (auto simp: nth_append orders_ok_def list_all_iff intro: row_evolves_refl)
    ultimately show ?thesis unfolding d' using o(1) by (intro orders_evolveI) auto
  qed
qed

interpretation quote_writer: order_writer "env_ck E" "store_quote E quote q" for E quote q
  by unfold_locales (rule store_quote_evolves)

end
