(* ===== verification/Flashnet.thy ===== *)
theory Flashnet
  imports Swap
begin

text \<open>
  The Flashnet client, \<open>src/flashnet/flashnet.service.ts\<close>, and the choice between it and the
  mock in \<open>src/flashnet/flashnet.module.ts\<close>. The keyed hash of the crypto module and the
  UTF-8 decoder of buffers are parameters, and so is the answer of the HTTP call.
\<close>

section \<open>Configuration and provider\<close>

record flashnet_config =
  fc_apiBase :: js_string
  fc_apiKey :: js_string
  fc_webhookSecret :: js_string

definition config_or :: "js_string option \<Rightarrow> js_string \<Rightarrow> js_string" where
  "config_or v dflt = (case v of None \<Rightarrow> dflt | Some s \<Rightarrow> s)"

definition flashnet_constructor ::
  "js_string option \<Rightarrow> js_string option \<Rightarrow> js_string option \<Rightarrow> flashnet_config" where
  "flashnet_constructor base key secret =
     \<lparr>fc_apiBase = config_or base ''https://orchestration.flashnet.xyz'',
      fc_apiKey = config_or key [], fc_webhookSecret = config_or secret []\<rparr>"

text \<open>The test runner: \<open>NODE_ENV\<close> and a Jest worker id.\<close>

definition isTestEnvironment :: "js_string option \<Rightarrow> js_string option \<Rightarrow> bool" where
  "isTestEnvironment node_env jest_worker \<longleftrightarrow> node_env = Some ''test'' \<and> jest_worker \<noteq> None"

datatype provider = RealService | MockService

definition provide_flashnet :: "js_string option \<Rightarrow> bool \<Rightarrow> provider" where
  "provide_flashnet api_key test_env =
     (if truthy api_key then RealService else if test_env then MockService else RealService)"

section \<open>Webhook signatures\<close>

record crypto_lib =
  hmac_sha256 :: "js_string \<Rightarrow> js_string \<Rightarrow> buffer" \<comment> \<open>key, message\<close>
  utf8_decode :: "buffer \<Rightarrow> js_string"

definition hex64 :: "js_string \<Rightarrow> bool" where
  "hex64 s \<longleftrightarrow> length s = 64 \<and> list_all is_hex s"

definition verifyWebhookSignature ::
  "crypto_lib \<Rightarrow> flashnet_config \<Rightarrow> buffer \<Rightarrow> js_string \<Rightarrow> js_string \<Rightarrow> bool" where
  "verifyWebhookSignature C cfg rawBody signature timestamp =
     (if fc_webhookSecret cfg = [] then False
      else let bodyStr = utf8_decode C rawBody;
               payload = timestamp @ ''.'' @ bodyStr;
               expected = bytes_to_hex (hmac_sha256 C (fc_webhookSecret cfg) payload)
           in if \<not> hex64 signature then False
              else let expectedBuf = hex_to_bytes expected; receivedBuf = hex_to_bytes signature
                   in if length expectedBuf \<noteq> length receivedBuf then False
                      else expectedBuf = receivedBuf)"

text \<open>The mock accepts everything under the test runner and nothing elsewhere.\<close>

definition mock_verifyWebhookSignature :: "bool \<Rightarrow> buffer \<Rightarrow> js_string \<Rightarrow> js_string \<Rightarrow> bool" where
  "mock_verifyWebhookSignature test_env rawBody signature timestamp = test_env"

definition verify_with ::
  "provider \<Rightarrow> crypto_lib \<Rightarrow> flashnet_config \<Rightarrow> bool \<Rightarrow> buffer \<Rightarrow> js_string \<Rightarrow> js_string \<Rightarrow> bool" where
  "verify_with P C cfg test_env =
     (case P of RealService \<Rightarrow> verifyWebhookSignature C cfg
      | MockService \<Rightarrow> mock_verifyWebhookSignature test_env)"

definition MISSING_SECRET_LOG_INTERVAL_MS :: time_ms where
  "MISSING_SECRET_LOG_INTERVAL_MS = 60000"

text \<open>
  The rate-limited error log: the time of the last line, \<open>None\<close> for minus infinity, and whether
  this call logs.
\<close>

definition logMissingSecret :: "time_ms \<Rightarrow> time_ms option \<Rightarrow> time_ms option \<times> bool" where
  "logMissingSecret now lastLog =
     (case lastLog of
        Some l \<Rightarrow> if now - l < MISSING_SECRET_LOG_INTERVAL_MS then (lastLog, False) else (Some now, True)
      | None \<Rightarrow> (Some now, True))"

text \<open>At start, a missing secret is logged.\<close>

definition flashnet_onModuleInit :: "flashnet_config \<Rightarrow> time_ms \<Rightarrow> time_ms option \<Rightarrow> time_ms option \<times> bool" where
  "flashnet_onModuleInit cfg now lastLog =
     (if fc_webhookSecret cfg = [] then logMissingSecret now lastLog else (lastLog, False))"

section \<open>Order lookup\<close>

text \<open>
  The \<open>order\<close> property of the answer: absent, \<open>null\<close>, or an object of which the checked
  properties are strings or something else (\<open>None\<close>); the other properties are used as they
  come.
\<close>

record raw_order =
  ro_id :: "js_string option"
  ro_quoteId :: "js_string option"
  ro_status :: "js_string option"
  ro_updatedAt :: "js_string option"
  ro_rest :: FlashnetWebhookData

datatype order_field = OrderMissing | OrderNull | OrderObject raw_order

datatype order_response = OrderNetworkError | OrderHttpError int | OrderUnreadable js_string | OrderBody order_field

datatype client_error = Unavailable js_string \<comment> \<open>503\<close> | BadGateway "js_string option" js_string \<comment> \<open>502: code, message\<close>
  | UnreadableBody js_string \<comment> \<open>the body of the answer is not JSON\<close>

text \<open>What the callers print of such an error: the code where there is one, else the message.\<close>

definition client_reason :: "client_error \<Rightarrow> js_string" where
  "client_reason e = (case e of Unavailable m \<Rightarrow> m | BadGateway c m \<Rightarrow> nullish c m | UnreadableBody m \<Rightarrow> m)"

definition order_of_raw :: "raw_order \<Rightarrow> FlashnetWebhookData" where
  "order_of_raw ro = (ro_rest ro)
     \<lparr>wd_id := nullish (ro_id ro) [], wd_quoteId := ro_quoteId ro,
      wd_status := nullish (ro_status ro) [], wd_updatedAt := ro_updatedAt ro\<rparr>"

definition getQuoteOrder ::
  "(js_string \<Rightarrow> time_ms option) \<Rightarrow> order_response \<Rightarrow> js_string \<Rightarrow> client_error + FlashnetWebhookData option" where
  "getQuoteOrder parseDate resp quoteId =
     (case resp of
        OrderNetworkError \<Rightarrow> Inl (Unavailable ''fetch failed'')
      | OrderHttpError _ \<Rightarrow> Inl (Unavailable ''Quote status unavailable'')
      | OrderUnreadable msg \<Rightarrow> Inl (UnreadableBody msg)
      | OrderBody OrderNull \<Rightarrow> Inr None
      | OrderBody OrderMissing \<Rightarrow> Inl (BadGateway None ''Invalid quote status'')
      | OrderBody (OrderObject ro) \<Rightarrow>
          if ro_id ro = None \<or> \<not> startsWith (nullish (ro_id ro) []) ''ord_''
             \<or> ro_quoteId ro \<noteq> Some quoteId
             \<or> ro_status ro = None
             \<or> ro_updatedAt ro = None
             \<or> parseDate (nullish (ro_updatedAt ro) []) = None
          then Inl (BadGateway None ''Invalid quote status'')
          else Inr (Some (order_of_raw ro)))"

text \<open>A snapshot that passes belongs to the quote that was asked for.\<close>

lemma getQuoteOrder_checked:
  assumes "getQuoteOrder parseDate resp q = Inr (Some w)"
  shows "wd_quoteId w = Some q" "startsWith (wd_id w) ''ord_''"
    "\<exists>u. wd_updatedAt w = Some u \<and> parseDate u \<noteq> None"
  using assms
  by (auto simp: getQuoteOrder_def order_of_raw_def nullish_def
      split: order_response.splits order_field.splits if_splits option.splits)

section \<open>Properties\<close>

text \<open>
  C19. Webhook authentication. The real client accepts a signature exactly when a secret is
  configured and the signature is the 64-digit hex text of the keyed hash of timestamp, dot
  and body under that secret; without a secret it accepts nothing. The provider that is
  selected outside the test runner behaves like this whatever the configuration.
\<close>

theorem webhook_signature_exact:
  assumes hash_size: "\<forall>k m. length (hmac_sha256 C k m) = 32"
  shows "verify_with (provide_flashnet api_key False) C cfg False body sig ts \<longleftrightarrow>
           fc_webhookSecret cfg \<noteq> [] \<and> hex64 sig
           \<and> hex_to_bytes sig = hmac_sha256 C (fc_webhookSecret cfg) (ts @ ''.'' @ utf8_decode C body)"
proof -
  have "length (hex_to_bytes sig) = 32" if "hex64 sig"
    using that by (simp add: hex64_def length_hex_to_bytes)
  then show ?thesis
    using hash_size
    by (auto simp: verify_with_def provide_flashnet_def verifyWebhookSignature_def Let_def)
qed

definition demo_crypto :: crypto_lib where
  "demo_crypto = \<lparr>hmac_sha256 = (\<lambda>k m. replicate 32 1), utf8_decode = (\<lambda>b. map (\<lambda>w. char_of (unat w)) b)\<rparr>"

theorem webhook_signature_exact_witness:
  "verify_with (provide_flashnet None False) demo_crypto
     \<lparr>fc_apiBase = [], fc_apiKey = [], fc_webhookSecret = ''s''\<rparr> False [] (bytes_to_hex (replicate 32 1)) ''1''
   \<and> \<not> verify_with (provide_flashnet None False) demo_crypto
     \<lparr>fc_apiBase = [], fc_apiKey = [], fc_webhookSecret = []\<rparr> False [] (bytes_to_hex (replicate 32 1)) ''1''"
proof -
  have size: "\<forall>k m. length (hmac_sha256 demo_crypto k m) = 32" by (simp add: demo_crypto_def)
  have "hex64 (bytes_to_hex (replicate 32 1))"
    by (simp add: hex64_def)
  moreover have "hmac_sha256 demo_crypto k m = replicate 32 1" for k m by (simp add: demo_crypto_def)
  ultimately show ?thesis
    using webhook_signature_exact [OF size] by simp
qed

end
