(* ===== verification/Fair_Scan.thy ===== *)
theory Fair_Scan
  imports Prelude
begin

text \<open>
  Paging with a cursor, as the quote reconciler does it: every round takes the first \<open>n\<close>
  keys behind the cursor, moves the cursor to the last of them when the page is full, and
  starts again at the beginning when it is not. The keys on offer may change from round to
  round. A key that stays on offer is reached within a number of rounds that depends
  only on how many keys there are.
\<close>

definition after :: "'k::linorder option \<Rightarrow> 'k \<Rightarrow> bool" where
  "after c x \<longleftrightarrow> (case c of None \<Rightarrow> True | Some y \<Rightarrow> y < x)"

definition page :: "nat \<Rightarrow> 'k::linorder option \<Rightarrow> 'k list \<Rightarrow> 'k list" where
  "page n c ks = take n (filter (after c) ks)"

definition next_cursor :: "nat \<Rightarrow> 'k::linorder list \<Rightarrow> 'k option" where
  "next_cursor n p = (if length p = n then Some (last p) else None)"

lemma after_simps [simp]: "after None x" "after (Some y) x \<longleftrightarrow> y < x"
  by (simp_all add: after_def)

lemma set_page_subset: "set (page n c ks) \<subseteq> {x \<in> set ks. after c x}"
  by (auto simp: page_def dest: in_set_takeD)

lemma page_sorted: "sorted_wrt (<) ks \<Longrightarrow> sorted_wrt (<) (page n c ks)"
  by (simp add: page_def sorted_wrt_take sorted_wrt_filter)

lemma page_distinct: "sorted_wrt (<) ks \<Longrightarrow> distinct (page n c ks)"
  by (rule strict_sorted_iff [THEN iffD1, THEN conjunct2]) (rule page_sorted)

lemma last_is_max: "sorted_wrt (<) xs \<Longrightarrow> x \<in> set xs \<Longrightarrow> x \<le> last (xs :: 'k::linorder list)"
  by (induction xs) (auto intro: less_imp_le)

text \<open>A key behind the cursor that is not on the page has a full page of smaller keys before it.\<close>

lemma missed_key_behind_full_page:
  assumes s: "sorted_wrt (<) ks" and x: "x \<in> set ks" "after c x" and miss: "x \<notin> set (page n c ks)"
  shows "length (page n c ks) = n" "\<forall>y \<in> set (page n c ks). y < x"
proof -
  let ?f = "filter (after c) ks"
  have split: "?f = page n c ks @ drop n ?f" by (simp add: page_def)
  have "x \<in> set ?f" using x by simp
  with split miss have d: "x \<in> set (drop n ?f)" by (metis Un_iff set_append)
  then have "drop n ?f \<noteq> []" by auto
  then show "length (page n c ks) = n" by (simp add: page_def)
  have "sorted_wrt (<) (page n c ks @ drop n ?f)"
    using s sorted_wrt_filter split by metis
  with d show "\<forall>y \<in> set (page n c ks). y < x" by (simp add: sorted_wrt_append)
qed

text \<open>Passing a full page uses up \<open>n\<close> of the keys between two bounds.\<close>

lemma full_page_consumes:
  assumes fin: "finite I" and s: "sorted_wrt (<) ks" and I: "set ks \<subseteq> I"
    and full: "length (page n c ks) = n" and n: "0 < n" and P: "\<forall>y \<in> set (page n c ks). P y"
  shows "card {i \<in> I. after (next_cursor n (page n c ks)) i \<and> P i} + n \<le> card {i \<in> I. after c i \<and> P i}"
proof -
  let ?p = "page n c ks"
  let ?new = "{i \<in> I. after (next_cursor n ?p) i \<and> P i}"
  have cur: "next_cursor n ?p = Some (last ?p)" using full by (simp add: next_cursor_def)
  have ne: "last ?p \<in> set ?p" using full n by (intro last_in_set) auto
  have in_p: "i \<le> last ?p" if "i \<in> set ?p" for i using last_is_max [OF page_sorted [OF s] that] .
  have disj: "?new \<inter> set ?p = {}" using in_p cur by fastforce
  have "after c i" if "last ?p < i" for i
    using that ne set_page_subset [of n c ks] by (cases c) auto
  then have sub: "?new \<union> set ?p \<subseteq> {i \<in> I. after c i \<and> P i}"
    using cur I P set_page_subset [of n c ks] by auto
  have "card ?new + card (set ?p) = card (?new \<union> set ?p)"
    using disj fin by (intro card_Un_disjoint [symmetric]) auto
  moreover have "card (set ?p) = n" using full page_distinct [OF s, of n c] by (simp add: distinct_card)
  moreover have "card (?new \<union> set ?p) \<le> card {i \<in> I. after c i \<and> P i}"
    using sub fin by (intro card_mono) auto
  ultimately show ?thesis by simp
qed

text \<open>From a cursor before the key, the key is reached.\<close>

lemma scan_forward:
  fixes ks :: "nat \<Rightarrow> 'k::linorder list"
  assumes fin: "finite I" and n: "0 < n"
    and ks: "\<And>k. sorted_wrt (<) (ks k)" "\<And>k. set (ks k) \<subseteq> I" "\<And>k. x \<in> set (ks k)"
    and step: "\<And>k. c (Suc k) = next_cursor n (page n (c k) (ks k))"
  shows "after (c k) x \<Longrightarrow> \<exists>j \<le> card {i \<in> I. after (c k) i \<and> i < x} div n.
           x \<in> set (page n (c (k + j)) (ks (k + j)))"
proof (induction "card {i \<in> I. after (c k) i \<and> i < x}" arbitrary: k rule: less_induct)
  case less
  let ?m = "\<lambda>k. card {i \<in> I. after (c k) i \<and> i < x}"
  show ?case
  proof (cases "x \<in> set (page n (c k) (ks k))")
    case True
    then show ?thesis by (intro exI [of _ 0]) simp
  next
    case False
    note full = missed_key_behind_full_page [OF ks(1) ks(3) less.prems False]
    have dec: "?m (Suc k) + n \<le> ?m k"
      using full_page_consumes [OF fin ks(1) ks(2) full(1) n full(2)] by (simp add: step)
    have "last (page n (c k) (ks k)) \<in> set (page n (c k) (ks k))"
      using full(1) n by (intro last_in_set) auto
    with full have "after (c (Suc k)) x" by (simp add: step next_cursor_def)
    with dec n less.hyps [of "Suc k"] obtain j where
      j: "j \<le> ?m (Suc k) div n" "x \<in> set (page n (c (Suc k + j)) (ks (Suc k + j)))" by auto
    have "Suc (?m (Suc k) div n) = (?m (Suc k) + n) div n" using n by simp
    also have "\<dots> \<le> ?m k div n" using dec by (rule div_le_mono)
    finally have "Suc j \<le> ?m k div n" using j(1) by simp
    with j(2) show ?thesis by (intro exI [of _ "Suc j"]) simp
  qed
qed

text \<open>From any cursor, the scan starts again at the beginning.\<close>

lemma scan_wraps:
  fixes ks :: "nat \<Rightarrow> 'k::linorder list"
  assumes fin: "finite I" and n: "0 < n"
    and ks: "\<And>k. sorted_wrt (<) (ks k)" "\<And>k. set (ks k) \<subseteq> I"
    and step: "\<And>k. c (Suc k) = next_cursor n (page n (c k) (ks k))"
  shows "\<exists>j \<le> card {i \<in> I. after (c k) i} div n. c (Suc (k + j)) = None"
proof (induction "card {i \<in> I. after (c k) i}" arbitrary: k rule: less_induct)
  case less
  let ?m = "\<lambda>k. card {i \<in> I. after (c k) i}"
  show ?case
  proof (cases "length (page n (c k) (ks k)) = n")
    case True
    then have dec: "?m (Suc k) + n \<le> ?m k"
      using full_page_consumes [OF fin ks(1) ks(2) True n, where P = "\<lambda>_. True"] by (simp add: step)
    with n less.hyps [of "Suc k"] obtain j where
      j: "j \<le> ?m (Suc k) div n" "c (Suc (Suc k + j)) = None" by auto
    have "Suc (?m (Suc k) div n) = (?m (Suc k) + n) div n" using n by simp
    also have "\<dots> \<le> ?m k div n" using dec by (rule div_le_mono)
    finally have "Suc j \<le> ?m k div n" using j(1) by simp
    with j(2) show ?thesis by (intro exI [of _ "Suc j"]) simp
  next
    case False
    then show ?thesis by (intro exI [of _ 0]) (simp add: step next_cursor_def)
  qed
qed

lemma div_add_div_le: "a div n + b div n \<le> (a + b) div (n :: nat)"
  unfolding div_add1_eq [of a b n] by (rule le_add1)

text \<open>Both together: one pass to the end and one from the beginning.\<close>

lemma scan_reaches:
  fixes ks :: "nat \<Rightarrow> 'k::linorder list"
  assumes fin: "finite I" and n: "0 < n"
    and ks: "\<And>k. sorted_wrt (<) (ks k)" "\<And>k. set (ks k) \<subseteq> I" "\<And>k. x \<in> set (ks k)"
    and step: "\<And>k. c (Suc k) = next_cursor n (page n (c k) (ks k))"
  shows "\<exists>j < card I div n + 2. x \<in> set (page n (c j) (ks j))"
proof (cases "after (c 0) x")
  case True
  from scan_forward [where ks = ks and c = c, OF fin n ks step this] obtain j where
    j: "j \<le> card {i \<in> I. after (c 0) i \<and> i < x} div n" "x \<in> set (page n (c j) (ks j))" by auto
  have "card {i \<in> I. after (c 0) i \<and> i < x} \<le> card I" using fin by (intro card_mono) auto
  then have "card {i \<in> I. after (c 0) i \<and> i < x} div n \<le> card I div n" by (rule div_le_mono)
  with j show ?thesis by (intro exI [of _ j]) simp
next
  case False
  then have le: "{i \<in> I. after (c 0) i} \<inter> {i \<in> I. i < x} = {}" by (cases "c 0") auto
  from scan_wraps [where ks = ks and c = c and k = 0, OF fin n ks(1,2) step] obtain a where
    a: "a \<le> card {i \<in> I. after (c 0) i} div n" "c (Suc a) = None" by auto
  then obtain b where
    b: "b \<le> card {i \<in> I. i < x} div n" "x \<in> set (page n (c (Suc a + b)) (ks (Suc a + b)))"
    using scan_forward [where ks = ks and c = c and k = "Suc a", OF fin n ks step] by auto
  have "card {i \<in> I. after (c 0) i} + card {i \<in> I. i < x}
      = card ({i \<in> I. after (c 0) i} \<union> {i \<in> I. i < x})"
    using fin le by (intro card_Un_disjoint [symmetric]) auto
  also have "\<dots> \<le> card I" using fin by (intro card_mono) auto
  finally have "card {i \<in> I. after (c 0) i} div n + card {i \<in> I. i < x} div n \<le> card I div n"
    using div_add_div_le div_le_mono order_trans by metis
  with a(1) b show ?thesis by (intro exI [of _ "Suc a + b"]) simp
qed

end
