(* ===== verification/Reconciler.thy ===== *)
theory Reconciler
  imports Order_Writers Flashnet Fair_Scan "HOL-Library.Char_ord" "HOL-Library.List_Lexorder"
begin

text \<open>
  The quote reconciler, \<open>src/swap/quote-reconciler.service.ts\<close>: every thirty seconds it reads a
  page of unfinished orders from each of three queues, asks Flashnet for the order of each
  quote and feeds what it learns to the webhook handler. The timer itself, the log and the
  promise machinery are not modelled; a batch is one function, its environment gives the
  clock, the answers of the HTTP calls, the abort signal, and what other requests do to the
  store before each of its own accesses.

  The order of \<open>id\<close> in the database is the order of its sort keys.
\<close>

section \<open>State and environment\<close>

record reconciler =
  cursors :: "js_string option list"
  running :: bool

definition new_reconciler :: reconciler where
  "new_reconciler = \<lparr>cursors = [None, None, None], running = False\<rparr>"

record batch_env =
  be_ck :: collation
  be_now :: time_ms
  be_parseDate :: "js_string \<Rightarrow> time_ms option"
  be_stopped :: bool \<comment> \<open>the abort signal when the loop looks at it\<close>
  be_aborted :: "nat \<Rightarrow> nat \<Rightarrow> bool" \<comment> \<open>the abort signal before a row of a queue\<close>
  be_query_fails :: "nat \<Rightarrow> bool" \<comment> \<open>\<open>findMany\<close> throws\<close>
  be_response :: "nat \<Rightarrow> nat \<Rightarrow> order_response"
  be_env :: "nat \<Rightarrow> nat \<Rightarrow> nat \<Rightarrow> swap_env" \<comment> \<open>of each call to the webhook handler\<close>
  be_others_query :: "nat \<Rightarrow> db \<Rightarrow> db"
  be_others_call :: "nat \<Rightarrow> nat \<Rightarrow> nat \<Rightarrow> db \<Rightarrow> db"

definition SETTLEMENT_GRACE_MS :: time_ms where
  "SETTLEMENT_GRACE_MS = 6 * 60 * 60 * 1000"

definition TERMINAL :: "js_string list" where
  "TERMINAL = [''DELIVERED'', ''FAILED'', ''EXPIRED'', ''REFUNDED'']"

text \<open>The reconciler starts with a configured key, and not under the test runner.\<close>

definition onModuleInit :: "js_string option \<Rightarrow> js_string option \<Rightarrow> bool" where
  "onModuleInit api_key node_env \<longleftrightarrow> truthy api_key \<and> node_env \<noteq> Some ''test''"

section \<open>Queues\<close>

datatype queue_where = HasOrder | ExpiresAfter time_ms | ExpiresUpTo time_ms

definition queues :: "time_ms \<Rightarrow> (queue_where \<times> nat) list" where
  "queues now = (let recentExpiry = now - SETTLEMENT_GRACE_MS in
     [(HasOrder, 20), (ExpiresAfter recentExpiry, 20), (ExpiresUpTo recentExpiry, 5)])"

fun queue_matches :: "collation \<Rightarrow> db \<Rightarrow> queue_where \<Rightarrow> FlashnetOrder \<Rightarrow> bool" where
  "queue_matches ck d HasOrder r = (fo_orderId r \<noteq> None)"
| "queue_matches ck d (ExpiresAfter t) r =
     (fo_orderId r = None \<and>
      (case invoice_by_id ck (fo_invoiceId r) d of None \<Rightarrow> False | Some i \<Rightarrow> t < inv_expiresAt i))"
| "queue_matches ck d (ExpiresUpTo t) r =
     (fo_orderId r = None \<and>
      (case invoice_by_id ck (fo_invoiceId r) d of None \<Rightarrow> False | Some i \<Rightarrow> inv_expiresAt i \<le> t))"

text \<open>\<open>notIn\<close> does not select a row whose column is null.\<close>

definition eligible :: "collation \<Rightarrow> db \<Rightarrow> queue_where \<Rightarrow> FlashnetOrder \<Rightarrow> bool" where
  "eligible ck d w r \<longleftrightarrow>
     queue_matches ck d w r \<and> fo_quoteId r \<noteq> None
     \<and> (case fo_status r of None \<Rightarrow> False | Some s \<Rightarrow> list_all (\<lambda>t. \<not> text_eq ck s t) TERMINAL)"

definition cursor_key :: "collation \<Rightarrow> js_string option \<Rightarrow> js_string option" where
  "cursor_key ck c = (if truthy c then map_option ck c else None)"

definition find_rows ::
  "collation \<Rightarrow> db \<Rightarrow> queue_where \<Rightarrow> js_string option \<Rightarrow> nat \<Rightarrow> FlashnetOrder list" where
  "find_rows ck d w cursor n =
     take n (sort_key (\<lambda>r. ck (fo_id r))
       (filter (\<lambda>r. eligible ck d w r \<and> after (cursor_key ck cursor) (ck (fo_id r))) (flashnet_orders d)))"

definition cursor_after :: "nat \<Rightarrow> FlashnetOrder list \<Rightarrow> js_string option" where
  "cursor_after n rows = (if length rows = n then Some (fo_id (last rows)) else None)"

section \<open>One row\<close>

datatype row_error =
    LookupFailed client_error
  | OrderMismatch
  | SnapshotQuoteMismatch
  | InvalidSnapshotTime
  | HandlerFailed swap_error

definition snapshot_payload :: "js_string \<Rightarrow> time_ms \<Rightarrow> FlashnetWebhookData \<Rightarrow> FlashnetWebhookPayload" where
  "snapshot_payload event t w = \<lparr>wp_event = event, wp_timestamp = int_str t, wp_data = w\<rparr>"

definition needs_review :: "FlashnetWebhookData \<Rightarrow> bool" where
  "needs_review w \<longleftrightarrow> wd_reviewStatus w \<in> {Some ''pending_review'', Some ''blocked_wallet''}"

text \<open>The calls to the webhook handler that a snapshot leads to.\<close>

definition snapshot_events ::
  "(js_string \<Rightarrow> time_ms option) \<Rightarrow> FlashnetOrder \<Rightarrow> FlashnetWebhookData \<Rightarrow> row_error + FlashnetWebhookPayload list" where
  "snapshot_events parseDate row w =
     (if truthy (fo_orderId row) \<and> Some (wd_id w) \<noteq> fo_orderId row then Inl OrderMismatch
      else if wd_quoteId w \<noteq> fo_quoteId row then Inl SnapshotQuoteMismatch
      else case Option.bind (wd_updatedAt w) parseDate of
             None \<Rightarrow> Inl InvalidSnapshotTime
           | Some t \<Rightarrow>
               if \<bar>t\<bar> > 2 ^ 53 - 1 then Inl InvalidSnapshotTime
               else Inr (snapshot_payload (''order.'' @ wd_status w) t w #
                     (if needs_review w then [snapshot_payload ''order.recovery_required'' t w] else [])))"

text \<open>The calls one after the other; one that throws ends the row, and the effect of those before it stays.\<close>

fun apply_events ::
  "batch_env \<Rightarrow> nat \<Rightarrow> nat \<Rightarrow> nat \<Rightarrow> FlashnetWebhookPayload list \<Rightarrow> db \<Rightarrow> row_error option \<times> db" where
  "apply_events B q i j [] d = (None, d)"
| "apply_events B q i j (p # ps) d =
     (let d1 = be_others_call B q i j d in
      case applyWebhookEvent (be_env B q i j) p d1 of
        Inl e \<Rightarrow> (Some (HandlerFailed e), d1)
      | Inr d2 \<Rightarrow> apply_events B q i (Suc j) ps d2)"

definition reconcile_row :: "batch_env \<Rightarrow> nat \<Rightarrow> nat \<Rightarrow> FlashnetOrder \<Rightarrow> db \<Rightarrow> row_error option \<times> db" where
  "reconcile_row B q i row d =
     (case getQuoteOrder (be_parseDate B) (be_response B q i) (nullish (fo_quoteId row) []) of
        Inl e \<Rightarrow> (Some (LookupFailed e), d)
      | Inr None \<Rightarrow> (None, d)
      | Inr (Some w) \<Rightarrow>
          (case snapshot_events (be_parseDate B) row w of
             Inl e \<Rightarrow> (Some e, d)
           | Inr ps \<Rightarrow> apply_events B q i 0 ps d))"

text \<open>The rows of a page in order, until the abort signal; the third component tells whether it came.\<close>

type_synonym visit = "js_string option \<times> row_error option"

fun reconcile_rows ::
  "batch_env \<Rightarrow> nat \<Rightarrow> nat \<Rightarrow> FlashnetOrder list \<Rightarrow> db \<Rightarrow> visit list \<times> db \<times> bool" where
  "reconcile_rows B q i [] d = ([], d, False)"
| "reconcile_rows B q i (row # rows) d =
     (if be_aborted B q i then ([], d, True)
      else let (e, d1) = reconcile_row B q i row d;
               (vs, d2, stop) = reconcile_rows B q (Suc i) rows d1
           in ((fo_quoteId row, e) # vs, d2, stop))"

section \<open>One batch\<close>

text \<open>What one queue did: the store its query saw, the page, and the quotes it asked for.\<close>

record queue_report =
  qr_store :: db
  qr_page :: "FlashnetOrder list"
  qr_visits :: "visit list"

text \<open>The loop over the queues, from queue \<open>q\<close> on; the last component tells whether \<open>findMany\<close> threw.\<close>

fun reconcile_queues ::
  "batch_env \<Rightarrow> nat \<Rightarrow> (queue_where \<times> nat) list \<Rightarrow> js_string option list \<Rightarrow> db
   \<Rightarrow> queue_report list \<times> js_string option list \<times> db \<times> bool" where
  "reconcile_queues B q [] cs d = ([], cs, d, False)"
| "reconcile_queues B q ((w, n) # qs) cs d =
     (let d1 = be_others_query B q d in
      if be_query_fails B q then ([], cs, d1, True)
      else let rows = find_rows (be_ck B) d1 w (cs ! q) n;
               cs1 = cs[q := cursor_after n rows];
               (vs, d2, stop) = reconcile_rows B q 0 rows d1;
               rep = \<lparr>qr_store = d1, qr_page = rows, qr_visits = vs\<rparr>
           in if stop then ([rep], cs1, d2, False)
              else let (reps, cs2, d3, err) = reconcile_queues B (Suc q) qs cs1 d2
                   in (rep # reps, cs2, d3, err))"

text \<open>The flag is set for the time of the batch and cleared at its end, also when it throws.\<close>

definition reconcileBatch ::
  "batch_env \<Rightarrow> reconciler \<Rightarrow> db \<Rightarrow> queue_report list \<times> reconciler \<times> db \<times> bool" where
  "reconcileBatch B R d =
     (if running R then ([], R, d, False)
      else let (reps, cs, d', err) = reconcile_queues B 0 (queues (be_now B)) (cursors R) d
           in (reps, \<lparr>cursors = cs, running = False\<rparr>, d', err))"

text \<open>The loop of the service: an error of a batch is logged, and the next batch follows.\<close>

fun run :: "batch_env list \<Rightarrow> reconciler \<Rightarrow> db \<Rightarrow> queue_report list list \<times> reconciler \<times> db" where
  "run [] R d = ([], R, d)"
| "run (B # Bs) R d =
     (if be_stopped B then ([], R, d)
      else let (reps, R1, d1, _) = reconcileBatch B R d;
               (rest, R2, d2) = run Bs R1 d1
           in (reps # rest, R2, d2))"

section \<open>Every batch is an order writer\<close>

text \<open>What a batch relies on: the handler's environments share the collation, and others keep the contract.\<close>

definition relies_on :: "collation \<Rightarrow> batch_env \<Rightarrow> bool" where
  "relies_on ck B \<longleftrightarrow> be_ck B = ck \<and> (\<forall>q i j. env_ck (be_env B q i j) = ck)
     \<and> (\<forall>q. order_writer ck (be_others_query B q)) \<and> (\<forall>q i j. order_writer ck (be_others_call B q i j))"

lemma relies_on_simps:
  assumes "relies_on ck B"
  shows "be_ck B = ck" "env_ck (be_env B q i j) = ck"
    "order_writer ck (be_others_query B q)" "order_writer ck (be_others_call B q i j)"
  using assms by (simp_all add: relies_on_def)

lemma apply_events_evolve:
  assumes "relies_on ck B" and "orders_evolve ck d0 d"
  shows "orders_evolve ck d0 (snd (apply_events B q i j ps d))"
  using assms(2)
proof (induction ps arbitrary: j d)
  case (Cons p ps)
  let ?d1 = "be_others_call B q i j d"
  have d1: "orders_evolve ck d0 ?d1"
    using order_writer.write_after [OF relies_on_simps(4) [OF assms(1)] Cons.prems] .
  show ?case
  proof (cases "applyWebhookEvent (be_env B q i j) p ?d1")
    case (Inl e)
    with d1 show ?thesis by (simp add: Let_def)
  next
    case (Inr d2)
    then have "d2 = deliver (be_env B q i j, p) ?d1" by (simp add: deliver_def)
    moreover have "orders_evolve ck ?d1 (deliver (be_env B q i j, p) ?d1)"
      using d1 assms(1) by (intro deliver_evolves) (auto intro: orders_evolve_ok simp: relies_on_def)
    ultimately have "orders_evolve ck d0 d2" using d1 by (auto intro: orders_evolve_trans)
    with Inr Cons.IH show ?thesis by (simp add: Let_def)
  qed
qed simp

lemma reconcile_row_evolves:
  assumes "relies_on ck B" and "orders_evolve ck d0 d"
  shows "orders_evolve ck d0 (snd (reconcile_row B q i row d))"
  using assms apply_events_evolve [OF assms]
  by (simp add: reconcile_row_def split: sum.splits option.splits)

lemma reconcile_rows_evolve:
  assumes "relies_on ck B"
  shows "orders_evolve ck d0 d \<Longrightarrow> orders_evolve ck d0 (fst (snd (reconcile_rows B q i rows d)))"
proof (induction rows arbitrary: i d)
  case (Cons row rows)
  show ?case
    using Cons.prems Cons.IH [OF reconcile_row_evolves [OF assms Cons.prems]]
    by (simp add: split_beta)
qed simp

lemma reconcile_queues_evolve:
  assumes "relies_on ck B"
  shows "orders_evolve ck d0 d \<Longrightarrow>
           orders_evolve ck d0 (fst (snd (snd (reconcile_queues B q qs cs d))))"
proof (induction qs arbitrary: q cs d)
  case (Cons x qs)
  obtain w n where x: "x = (w, n)" by (cases x)
  let ?d1 = "be_others_query B q d" let ?rows = "find_rows (be_ck B) (be_others_query B q d) w (cs ! q) n"
  have d1: "orders_evolve ck d0 ?d1"
    using order_writer.write_after [OF relies_on_simps(3) [OF assms] Cons.prems] .
  note d2 = reconcile_rows_evolve [OF assms d1]
  show ?case using d1 d2 Cons.IH [OF d2] by (simp add: x Let_def split_beta)
qed simp

lemma reconcileBatch_evolves:
  assumes "relies_on ck B" and "orders_evolve ck d0 d"
  shows "orders_evolve ck d0 (fst (snd (snd (reconcileBatch B R d))))"
  using assms(2) reconcile_queues_evolve [OF assms]
  by (simp add: reconcileBatch_def split_beta Let_def)

lemma run_evolves:
  assumes "list_all (relies_on ck) Bs" and "orders_evolve ck d0 d"
  shows "orders_evolve ck d0 (snd (snd (run Bs R d)))"
  using assms
proof (induction Bs arbitrary: R d)
  case (Cons B Bs)
  then have "orders_evolve ck d0 (fst (snd (snd (reconcileBatch B R d))))"
    by (intro reconcileBatch_evolves) simp_all
  with Cons show ?case by (simp add: split_beta Let_def)
qed simp

text \<open>
  C15. The reconciler refines the order machine. However many batches run, with whatever answers
  of Flashnet, aborts and database failures, and with webhook deliveries and new quotes
  between any two of its accesses, every stored order only moves along the order machine
  and keeps its row and identifiers.
\<close>

theorem reconciler_refines_order_machine:
  assumes "orders_ok ck d" and "list_all (relies_on ck) Bs" and "run Bs R d = (reps, R', d')"
  shows "orders_evolve ck d d'"
  using run_evolves [OF assms(2) orders_evolve_refl [OF assms(1)], of R] assms(3) by simp

section \<open>No order starves\<close>

text \<open>A batch that is neither aborted nor fails.\<close>

definition uninterrupted :: "batch_env \<Rightarrow> bool" where
  "uninterrupted B \<longleftrightarrow> \<not> be_stopped B \<and> (\<forall>q i. \<not> be_aborted B q i) \<and> (\<forall>q. \<not> be_query_fails B q)"

lemma reconcile_rows_visits:
  assumes "uninterrupted B"
  shows "reconcile_rows B q i rows d = (vs, d', stop) \<Longrightarrow> map fst vs = map fo_quoteId rows \<and> \<not> stop"
proof (induction rows arbitrary: i d vs)
  case (Cons row rows)
  obtain e d1 where 1: "reconcile_row B q i row d = (e, d1)" by (cases "reconcile_row B q i row d")
  obtain vs' d2 stop' where 2: "reconcile_rows B q (Suc i) rows d1 = (vs', d2, stop')"
    by (cases "reconcile_rows B q (Suc i) rows d1")
  with 1 Cons.prems assms have "vs = (fo_quoteId row, e) # vs'" "d2 = d'" "stop' = stop"
    by (simp_all add: uninterrupted_def)
  with 2 Cons.IH [of "Suc i" d1 vs'] show ?case by simp
qed simp

text \<open>One queue served: its page from the cursor, all of it visited, the cursor moved on.\<close>

definition served ::
  "collation \<Rightarrow> queue_where \<Rightarrow> nat \<Rightarrow> js_string option \<Rightarrow> js_string option \<Rightarrow> db \<Rightarrow> queue_report \<Rightarrow> bool" where
  "served ck w n c c' d0 rep \<longleftrightarrow>
     qr_page rep = find_rows ck (qr_store rep) w c n
     \<and> map fst (qr_visits rep) = map fo_quoteId (qr_page rep)
     \<and> c' = cursor_after n (qr_page rep) \<and> orders_evolve ck d0 (qr_store rep)"

lemma reconcile_queues_served:
  assumes B: "uninterrupted B" "relies_on ck B"
    and "reconcile_queues B q qs cs d = (reps, cs', d', err)"
    and "orders_evolve ck d0 d" and "q + length qs \<le> length cs"
  shows "length reps = length qs \<and> length cs' = length cs \<and> (\<forall>k < q. cs' ! k = cs ! k)
     \<and> (\<forall>k < length qs. served ck (fst (qs ! k)) (snd (qs ! k)) (cs ! (q + k)) (cs' ! (q + k)) d0 (reps ! k))"
  using assms(3-5)
proof (induction qs arbitrary: q cs d reps)
  case (Cons x qs)
  obtain w n where x: "x = (w, n)" by (cases x)
  define d1 where "d1 = be_others_query B q d"
  define rows where "rows = find_rows ck d1 w (cs ! q) n"
  define cs1 where "cs1 = cs[q := cursor_after n rows]"
  obtain vs d2 stop where v: "reconcile_rows B q 0 rows d1 = (vs, d2, stop)"
    by (cases "reconcile_rows B q 0 rows d1")
  obtain reps' cs2 d3 err' where r: "reconcile_queues B (Suc q) qs cs1 d2 = (reps', cs2, d3, err')"
    by (cases "reconcile_queues B (Suc q) qs cs1 d2")
  have vs: "map fst vs = map fo_quoteId rows" "\<not> stop" using reconcile_rows_visits [OF B(1) v] by simp_all
  have d1: "orders_evolve ck d0 d1"
    unfolding d1_def using order_writer.write_after [OF relies_on_simps(3) [OF B(2)] Cons.prems(2)] .
  have d2: "orders_evolve ck d0 d2" using reconcile_rows_evolve [OF B(2) d1, of q 0 rows] v by simp
  have eq: "reps = \<lparr>qr_store = d1, qr_page = rows, qr_visits = vs\<rparr> # reps'" "cs' = cs2" "d' = d3" "err = err'"
    using Cons.prems(1) B relies_on_simps(1) [OF B(2)] vs(2) v r
    by (simp_all add: x Let_def uninterrupted_def d1_def [symmetric] rows_def [symmetric] cs1_def [symmetric])
  have len: "Suc q + length qs \<le> length cs1" using Cons.prems(3) by (simp add: cs1_def)
  have ih: "length reps' = length qs" "length cs2 = length cs1" "\<forall>k < Suc q. cs2 ! k = cs1 ! k"
    "\<forall>k < length qs. served ck (fst (qs ! k)) (snd (qs ! k)) (cs1 ! (Suc q + k)) (cs2 ! (Suc q + k)) d0 (reps' ! k)"
    using Cons.IH [OF _ d2 len] r Cons.prems(1) eq by auto
  have q: "cs2 ! q = cursor_after n rows" using ih(3) Cons.prems(3) by (simp add: cs1_def)
  have "served ck (fst ((x # qs) ! k)) (snd ((x # qs) ! k)) (cs ! (q + k)) (cs' ! (q + k)) d0 (reps ! k)"
    if "k < length (x # qs)" for k
  proof (cases k)
    case 0
    with q vs d1 eq show ?thesis by (simp add: served_def x rows_def)
  next
    case (Suc l)
    with that ih(4) eq show ?thesis by (simp add: cs1_def)
  qed
  with ih eq show ?case by (simp add: cs1_def)
qed simp

lemma queues_length [simp]: "length (queues t) = 3"
  by (simp add: queues_def Let_def)

lemma queues_take: "q < 3 \<Longrightarrow> snd (queues t ! q) = snd (queues t' ! q)" "q < 3 \<Longrightarrow> 0 < snd (queues t ! q)"
  by (auto simp: queues_def Let_def numeral_3_eq_3 less_Suc_eq)

text \<open>The reports of a run, with the cursor of one queue as it moves.\<close>

lemma run_served:
  assumes "list_all uninterrupted Bs" "list_all (relies_on ck) Bs" and "q < 3"
    and "run Bs R d = (repss, R', d')" and "orders_evolve ck d0 d"
    and "\<not> running R" "length (cursors R) = 3"
  shows "\<exists>c. c 0 = cursors R ! q \<and> (\<forall>k < length Bs.
           served ck (fst (queues (be_now (Bs ! k)) ! q)) (snd (queues 0 ! q))
           (c k) (c (Suc k)) d0 (repss ! k ! q))"
  using assms
proof (induction Bs arbitrary: R d repss)
  case (Cons B Bs)
  obtain reps cs d1 err where b: "reconcile_queues B 0 (queues (be_now B)) (cursors R) d = (reps, cs, d1, err)"
    by (cases "reconcile_queues B 0 (queues (be_now B)) (cursors R) d")
  let ?R1 = "\<lparr>cursors = cs, running = False\<rparr>"
  obtain rest R2 d2 where r: "run Bs ?R1 d1 = (rest, R2, d2)" by (cases "run Bs ?R1 d1")
  have B: "uninterrupted B" "relies_on ck B" using Cons.prems by simp_all
  have eq: "repss = reps # rest" "R2 = R'" "d2 = d'"
    using Cons.prems(4,6) B(1) b r by (simp_all add: reconcileBatch_def uninterrupted_def)
  note s = reconcile_queues_served [OF B b Cons.prems(5)]
  have served: "length cs = 3"
    "served ck (fst (queues (be_now B) ! q)) (snd (queues 0 ! q)) (cursors R ! q) (cs ! q) d0 (reps ! q)"
    using s Cons.prems(3,7) queues_take(1) [OF Cons.prems(3), of "be_now B" 0] by auto
  have "orders_evolve ck d0 d1" using reconcile_queues_evolve [OF B(2) Cons.prems(5), of 0 _ "cursors R"] b
    by (metis fst_conv snd_conv)
  with Cons.IH [of ?R1 d1 rest] Cons.prems r eq served(1) obtain c where
    c: "c 0 = cs ! q" "\<forall>k < length Bs. served ck (fst (queues (be_now (Bs ! k)) ! q)) (snd (queues 0 ! q))
          (c k) (c (Suc k)) d0 (rest ! k ! q)" by auto
  show ?case
    using c served(2) eq
    by (intro exI [of _ "case_nat (cursors R ! q) c"]) (auto simp: less_Suc_eq_0_disj)
qed auto

text \<open>The keys of a queue in database order; a page of rows is a page of keys.\<close>

definition waiting :: "collation \<Rightarrow> queue_where \<Rightarrow> db \<Rightarrow> FlashnetOrder list" where
  "waiting ck w d = sort_key (\<lambda>r. ck (fo_id r)) (filter (eligible ck d w) (flashnet_orders d))"

abbreviation row_keys :: "collation \<Rightarrow> FlashnetOrder list \<Rightarrow> js_string list" where
  "row_keys ck rows \<equiv> map (\<lambda>r. ck (fo_id r)) rows"

lemma find_rows_page: "row_keys ck (find_rows ck d w c n) = page n (cursor_key ck c) (row_keys ck (waiting ck w d))"
  by (simp add: find_rows_def page_def waiting_def filter_map comp_def take_map filter_sort conj_commute)

lemma find_rows_in: "set (find_rows ck d w c n) \<subseteq> set (waiting ck w d)"
  by (auto simp: find_rows_def waiting_def dest: in_set_takeD)

lemma orders_keys_distinct:
  assumes "orders_uniq ck d"
  shows "distinct (row_keys ck (flashnet_orders d))"
proof -
  have "sorted_wrt (\<lambda>r r'. ck (fo_id r) \<noteq> ck (fo_id r')) (flashnet_orders d)"
    using assms unfolding uniq_def
    by (rule sorted_wrt_mono_rel [rotated])
       (auto simp: no_clash_def flashnet_order_ixs_def clash_def row_key_def)
  then show ?thesis
    unfolding distinct_conv_nth sorted_wrt_iff_nth_less by (auto simp: nat_neq_iff) metis+
qed

lemma waiting_sorted:
  assumes "orders_uniq ck d"
  shows "sorted_wrt (<) (row_keys ck (waiting ck w d))"
proof -
  have "distinct (row_keys ck (waiting ck w d))"
    unfolding waiting_def using orders_keys_distinct [OF assms]
    by (simp add: distinct_map inj_on_def)
  then show ?thesis by (simp add: strict_sorted_iff waiting_def)
qed

lemma cursor_key_after:
  assumes "0 < n" and "\<forall>r \<in> set rows. fo_id r \<noteq> []"
  shows "cursor_key ck (cursor_after n rows) = next_cursor n (row_keys ck rows)"
proof (cases "length rows = n")
  case True
  then have "rows \<noteq> []" using assms(1) by auto
  moreover from this have "fo_id (last rows) \<noteq> []" using assms(2) by simp
  ultimately show ?thesis by (simp add: True cursor_key_def cursor_after_def next_cursor_def last_map)
next
  case False
  then show ?thesis by (simp add: cursor_key_def cursor_after_def next_cursor_def)
qed

text \<open>The rows that one report's query could have selected.\<close>

definition on_offer :: "collation \<Rightarrow> nat \<Rightarrow> batch_env \<Rightarrow> queue_report \<Rightarrow> FlashnetOrder set" where
  "on_offer ck q B rep =
     {r \<in> set (flashnet_orders (qr_store rep)). eligible ck (qr_store rep) (fst (queues (be_now B) ! q)) r}"

lemma set_waiting: "set (waiting ck (fst (queues (be_now B) ! q)) (qr_store rep)) = on_offer ck q B rep"
  by (auto simp: waiting_def on_offer_def)

text \<open>
  C11. Liveness: no order starves. Take any order and any queue, and count the orders that are
  on offer in that queue at some time during a run. A run of that number divided by the page
  size, plus two, batches contains one in which the order is not on offer, or is asked
  for; so an order that keeps waiting is looked up again and again, whatever its position and
  wherever the cursor was. Webhook deliveries and new quotes may come between.
\<close>

theorem waiting_order_is_polled:
  assumes ok: "orders_ok ck d" and fresh: "\<not> running R" "length (cursors R) = 3"
    and Bs: "list_all uninterrupted Bs" "list_all (relies_on ck) Bs"
    and run: "run Bs R d = (repss, R', d')" and q: "q < 3"
    and ids: "\<forall>k < length Bs. \<forall>r \<in> on_offer ck q (Bs ! k) (repss ! k ! q). fo_id r \<noteq> []"
    and long: "card (\<Union>k < length Bs. fo_id ` on_offer ck q (Bs ! k) (repss ! k ! q)) div snd (queues 0 ! q) + 2
                 \<le> length Bs"
  shows "\<exists>k < length Bs. \<forall>r \<in> on_offer ck q (Bs ! k) (repss ! k ! q).
           fo_id r = x \<longrightarrow> fo_quoteId r \<in> fst ` set (qr_visits (repss ! k ! q))"
proof (rule ccontr)
  let ?n = "snd (queues 0 ! q)" let ?L = "length Bs"
  let ?on = "\<lambda>k. on_offer ck q (Bs ! k) (repss ! k ! q)"
  let ?rows = "\<lambda>k. waiting ck (fst (queues (be_now (Bs ! k)) ! q)) (qr_store (repss ! k ! q))"
  assume "\<not> ?thesis"
  then have stay: "\<exists>r \<in> ?on k. fo_id r = x \<and> fo_quoteId r \<notin> fst ` set (qr_visits (repss ! k ! q))"
    if "k < ?L" for k using that by blast
  obtain c where c: "\<forall>k < ?L. served ck (fst (queues (be_now (Bs ! k)) ! q)) ?n (c k) (c (Suc k)) d (repss ! k ! q)"
    using run_served [OF Bs q run orders_evolve_refl [OF ok] fresh] by blast
  define I where "I = ck ` (\<Union>k < ?L. fo_id ` ?on k)"
  define ks where "ks k = (if k < ?L then row_keys ck (?rows k) else [ck x])" for k
  define cu where "cu = rec_nat (cursor_key ck (c 0)) (\<lambda>k p. next_cursor ?n (page ?n p (ks k)))"
  have n: "0 < ?n" using queues_take(2) [OF q] .
  have fin: "finite (\<Union>k < ?L. fo_id ` ?on k)" by (simp add: on_offer_def)
  have L0: "0 < ?L" using long by linarith
  have xI: "ck x \<in> I" using stay [OF L0] L0 by (auto simp: I_def)
  have sorted: "sorted_wrt (<) (ks k)" for k
    using c by (auto simp: ks_def served_def orders_ok_def intro!: waiting_sorted dest!: spec [of _ k] orders_evolve_ok)
  have sub: "set (ks k) \<subseteq> I" for k
    using xI by (auto simp: ks_def set_waiting I_def)
  have in_ks: "ck x \<in> set (ks k)" for k
    using stay [of k] by (auto simp: ks_def set_waiting)
  have cu: "cu k = cursor_key ck (c k)" if "k \<le> ?L" for k
    using that
  proof (induction k)
    case (Suc k)
    then have s: "served ck (fst (queues (be_now (Bs ! k)) ! q)) ?n (c k) (c (Suc k)) d (repss ! k ! q)"
      using c by simp
    have "set (qr_page (repss ! k ! q)) \<subseteq> ?on k"
      using s find_rows_in unfolding served_def set_waiting [symmetric] by metis
    with ids Suc.prems have "\<forall>r \<in> set (qr_page (repss ! k ! q)). fo_id r \<noteq> []"
      by (meson Suc_le_lessD subsetD)
    from cursor_key_after [OF n this] s Suc show ?case
      by (simp add: cu_def served_def ks_def find_rows_page)
  qed (simp add: cu_def)
  have "\<exists>j < card I div ?n + 2. ck x \<in> set (page ?n (cu j) (ks j))"
    using sorted sub in_ks fin n by (intro scan_reaches) (simp_all add: I_def cu_def)
  then obtain j where j: "j < card I div ?n + 2" "ck x \<in> set (page ?n (cu j) (ks j))" by blast
  have "card I div ?n \<le> card (\<Union>k < ?L. fo_id ` ?on k) div ?n"
    unfolding I_def using fin by (intro div_le_mono card_image_le)
  with j(1) long have jL: "j < ?L" by simp
  let ?rep = "repss ! j ! q"
  have s: "qr_page ?rep = find_rows ck (qr_store ?rep) (fst (queues (be_now (Bs ! j)) ! q)) (c j) ?n"
    "map fst (qr_visits ?rep) = map fo_quoteId (qr_page ?rep)" "orders_uniq ck (qr_store ?rep)"
    using c jL orders_evolve_ok by (auto simp: served_def orders_ok_def)
  have "ck x \<in> set (row_keys ck (qr_page ?rep))"
    using j(2) jL cu [of j] s(1) by (simp add: ks_def find_rows_page)
  then obtain r' where r': "r' \<in> set (qr_page ?rep)" "ck (fo_id r') = ck x" by auto
  then have "r' \<in> ?on j" using s(1) find_rows_in unfolding set_waiting [symmetric] by fastforce
  with stay [OF jL] r'(2) s(3) have "fo_quoteId r' \<notin> fst ` set (qr_visits ?rep)"
    by (auto simp: on_offer_def dest: orders_same_id)
  moreover have "fo_quoteId r' \<in> fst ` set (qr_visits ?rep)"
    using r'(1) s(2) by (metis image_eqI list.set_map)
  ultimately show False by blast
qed

section \<open>A concrete batch\<close>

definition demo_batch :: batch_env where
  "demo_batch = \<lparr>be_ck = id, be_now = 100, be_parseDate = (\<lambda>s. Some 17), be_stopped = False,
     be_aborted = (\<lambda>q i. False), be_query_fails = (\<lambda>q. False),
     be_response = (\<lambda>q i. OrderBody (OrderObject \<lparr>ro_id = Some ''ord_1'', ro_quoteId = Some ''q_1'',
        ro_status = Some ''completed'', ro_updatedAt = Some ''t'',
        ro_rest = wp_data (demo_payload ''order.completed'')\<rparr>)),
     be_env = (\<lambda>q i j. demo_env), be_others_query = (\<lambda>q d. d), be_others_call = (\<lambda>q i j d. d)\<rparr>"

lemma demo_batch_ok: "uninterrupted demo_batch" "relies_on id demo_batch"
  by (simp_all add: uninterrupted_def relies_on_def demo_batch_def demo_env_def order_writer_def orders_evolve_refl)

text \<open>The demo quote is paid and completed: one batch delivers it.\<close>

lemma demo_batch_delivers:
  "map fo_status (flashnet_orders (snd (snd (run [demo_batch] new_reconciler demo_db)))) = [Some ''DELIVERED'']"
  by code_simp

theorem reconciler_refines_order_machine_witness:
  "orders_evolve id demo_db (snd (snd (run [demo_batch, demo_batch] new_reconciler demo_db)))"
  using reconciler_refines_order_machine [OF demo_ok(1), of "[demo_batch, demo_batch]" new_reconciler] demo_batch_ok(2)
  by (cases "run [demo_batch, demo_batch] new_reconciler demo_db") auto

declare run.simps [simp del]

text \<open>While Flashnet knows of no payment, every batch asks again.\<close>

definition demo_idle :: batch_env where
  "demo_idle = demo_batch\<lparr>be_response := (\<lambda>q i. OrderBody OrderNull)\<rparr>"

definition demo_report :: "FlashnetOrder list \<Rightarrow> queue_report" where
  "demo_report rows = \<lparr>qr_store = demo_db, qr_page = rows, qr_visits = map (\<lambda>r. (fo_quoteId r, None)) rows\<rparr>"

lemma demo_idle_run:
  "run [demo_idle, demo_idle] new_reconciler demo_db =
     (replicate 2 [demo_report [], demo_report [demo_order], demo_report []], new_reconciler, demo_db)"
  by code_simp

lemma demo_idle_ok: "uninterrupted demo_idle" "relies_on id demo_idle"
  by (simp_all add: demo_idle_def uninterrupted_def relies_on_def demo_batch_def demo_env_def order_writer_def
      orders_evolve_refl)

lemma demo_on_offer: "on_offer id 1 demo_idle (demo_report [demo_order]) = {demo_order}"
  by (auto simp: on_offer_def demo_report_def demo_db_def eligible_def queues_def Let_def
      demo_order_def TERMINAL_def text_eq_def invoice_by_id_def demo_invoice_def demo_idle_def demo_batch_def
      SETTLEMENT_GRACE_MS_def empty_db_def)

theorem waiting_order_is_polled_witness:
  "\<exists>k < 2. \<forall>r \<in> on_offer id 1 ([demo_idle, demo_idle] ! k)
       (fst (run [demo_idle, demo_idle] new_reconciler demo_db) ! k ! 1).
     fo_id r = ''f1'' \<longrightarrow> fo_quoteId r
        \<in> fst ` set (qr_visits (fst (run [demo_idle, demo_idle] new_reconciler demo_db) ! k ! 1))"
proof -
  let ?Bs = "[demo_idle, demo_idle]" and ?reps = "fst (run [demo_idle, demo_idle] new_reconciler demo_db)"
  have on: "on_offer id 1 (?Bs ! k) (?reps ! k ! 1) = {demo_order}" if "k < 2" for k
  proof -
    from that have "k = 0 \<or> k = 1" by auto
    then show ?thesis
      using demo_on_offer by (elim disjE) (simp_all add: demo_idle_run numeral_2_eq_2)
  qed
  have "card (\<Union>k < length ?Bs. fo_id ` on_offer id 1 (?Bs ! k) (?reps ! k ! 1)) div snd (queues 0 ! 1) + 2 \<le> length ?Bs"
    using demo_on_offer by (simp add: queues_def Let_def lessThan_Suc demo_idle_run numeral_2_eq_2)
  moreover have "\<forall>k < length ?Bs. \<forall>r \<in> on_offer id 1 (?Bs ! k) (?reps ! k ! 1). fo_id r \<noteq> []"
    using on by (simp add: demo_order_def numeral_2_eq_2)
  ultimately have "\<exists>k < length ?Bs. \<forall>r \<in> on_offer id 1 (?Bs ! k) (?reps ! k ! 1).
      fo_id r = ''f1'' \<longrightarrow> fo_quoteId r \<in> fst ` set (qr_visits (?reps ! k ! 1))"
    using demo_idle_ok
    by (intro waiting_order_is_polled [OF demo_ok(1), where R = new_reconciler and R' = new_reconciler and d' = demo_db])
       (simp_all add: new_reconciler_def demo_idle_run [unfolded new_reconciler_def])
  then show ?thesis by (simp add: numeral_2_eq_2)
qed

end
