(* ===== verification/Usernames.thy ===== *)
theory Usernames
  imports Prelude
begin

text \<open>
  Usernames: normalisation, \<open>src/common/utils.ts\<close>, and the reserved names with their
  lookalikes and compounds, \<open>src/common/reserved-usernames.ts\<close>. A \<open>Set\<close> of strings is a
  list; only membership and the number of distinct elements are used of it.
\<close>

section \<open>Normalisation\<close>

definition name_char :: "char \<Rightarrow> bool" where
  "name_char c \<longleftrightarrow> is_lower c \<or> is_digit c \<or> c \<in> set ''._-''"

text \<open>\<open>/^[a-z0-9._-]{1,30}$/\<close>.\<close>

definition USERNAME_SHAPE :: "js_string \<Rightarrow> bool" where
  "USERNAME_SHAPE s \<longleftrightarrow> 1 \<le> length s \<and> length s \<le> 30 \<and> list_all name_char s"

definition normalizeUsername :: "js_string \<Rightarrow> js_string option" where
  "normalizeUsername username =
     (let normalized = trim (toLowerCase username)
      in if USERNAME_SHAPE normalized then Some normalized else None)"

section \<open>The reserved words\<close>

definition BRANDS :: "js_string list" where
  "BRANDS = [''guap'', ''tmrw'', ''tomorrow'', ''guapwallet'']"

definition ROLES :: "js_string list" where
  "ROLES = [''admin'', ''app'', ''bot'', ''care'', ''help'', ''hq'', ''info'', ''news'', ''official'',
     ''ops'', ''pay'', ''payments'', ''security'', ''staff'', ''support'', ''team'', ''wallet'']"

definition STANDALONE :: "js_string list" where
  "STANDALONE = [''abuse'', ''admin'', ''administrator'', ''billing'', ''ceo'', ''compliance'', ''contact'',
     ''customerservice'', ''customersupport'', ''flashnet'', ''help'', ''helpdesk'', ''hostmaster'', ''info'',
     ''legal'', ''moderator'', ''no-reply'', ''noreply'', ''official'', ''operator'', ''orchestra'',
     ''payments'', ''postmaster'', ''privacy'', ''refund'', ''refunds'', ''root'', ''security'', ''staff'',
     ''superuser'', ''support'', ''sysadmin'', ''system'', ''team'', ''verify'', ''verification'', ''webmaster'']"

definition FILLERS :: "js_string list" where
  "FILLERS = [''the'', ''real'', ''my'', ''true'', ''original'', ''verified'']"

definition DEFAULT_RESERVED_USERNAMES :: "js_string list" where
  "DEFAULT_RESERVED_USERNAMES = js_dedupe (BRANDS @ ROLES @ STANDALONE)"

section \<open>Skeletons\<close>

definition LOOKALIKES :: "(char \<times> char) list" where
  "LOOKALIKES = zip ''01l23456789q'' ''oiizeasgtbgg''"

definition fold_lookalike :: "char \<Rightarrow> char" where
  "fold_lookalike c = (case map_of LOOKALIKES c of None \<Rightarrow> c | Some d \<Rightarrow> d)"

definition compact :: "js_string \<Rightarrow> js_string" where
  "compact name = filter (\<lambda>c. c \<notin> set ''._-'') (toLowerCase name)"

text \<open>\<open>replace(/ab/g, c)\<close> for a two-letter pattern: the leftmost matches, not overlapping.\<close>

fun replace_pair :: "char \<Rightarrow> char \<Rightarrow> char \<Rightarrow> js_string \<Rightarrow> js_string" where
  "replace_pair a b c (x # y # s) =
     (if x = a \<and> y = b then c # replace_pair a b c s else x # replace_pair a b c (y # s))"
| "replace_pair a b c s = s"

text \<open>\<open>replace(/(.)\1+/g, '$1')\<close>; the dot matches no line terminator.\<close>

fun collapse :: "js_string \<Rightarrow> js_string" where
  "collapse (x # y # s) =
     (if x = y \<and> of_char x \<noteq> (10 :: nat) \<and> of_char x \<noteq> (13 :: nat)
      then collapse (y # s) else x # collapse (y # s))"
| "collapse s = s"

definition usernameSkeleton :: "js_string \<Rightarrow> js_string" where
  "usernameSkeleton name =
     map fold_lookalike (collapse (replace_pair (CHR ''v'') (CHR ''v'') (CHR ''w'')
       (replace_pair (CHR ''r'') (CHR ''n'') (CHR ''m'') (compact name))))"

definition drop_leading_digits :: "js_string \<Rightarrow> js_string" where
  "drop_leading_digits = dropWhile is_digit"

definition drop_trailing_digits :: "js_string \<Rightarrow> js_string" where
  "drop_trailing_digits s = rev (dropWhile is_digit (rev s))"

definition candidateSkeletons :: "js_string \<Rightarrow> js_string list" where
  "candidateSkeletons name =
     (let c = compact name;
          variants = filter (\<lambda>v. 0 < length v)
            [c, drop_trailing_digits c, drop_leading_digits c, drop_trailing_digits (drop_leading_digits c)]
      in js_dedupe (map usernameSkeleton variants))"

definition PROTECTED_SKELETONS :: "js_string list" where
  "PROTECTED_SKELETONS = map usernameSkeleton DEFAULT_RESERVED_USERNAMES"

definition FILLER_SKELETONS :: "js_string list" where
  "FILLER_SKELETONS = map usernameSkeleton FILLERS"

section \<open>Configured names\<close>

fun split_comma :: "js_string \<Rightarrow> js_string list" where
  "split_comma [] = [[]]"
| "split_comma (c # s) =
     (if c = CHR '','' then [] # split_comma s
      else case split_comma s of [] \<Rightarrow> [[c]] | w # ws \<Rightarrow> (c # w) # ws)"

definition extra_entries :: "js_string \<Rightarrow> js_string list" where
  "extra_entries r = filter (\<lambda>e. 0 < length e) (map (\<lambda>e. toLowerCase (trim e)) (split_comma r))"

text \<open>
  The parsed set is memoised by the raw value in a table that lives as long as the process; the
  parse is a function of that value, so only its result is modelled here. The warning that only
  the first parse of a value writes is in \<open>Request_Logs\<close>.
\<close>

definition extraSkeletons :: "js_string option \<Rightarrow> js_string list" where
  "extraSkeletons raw =
     (case raw of
        None \<Rightarrow> []
      | Some r \<Rightarrow>
          if r = [] then []
          else js_dedupe (filter (\<lambda>s. 0 < length s)
                 (map usernameSkeleton (filter USERNAME_SHAPE (extra_entries r)))))"

section \<open>Compounds\<close>

definition slice :: "js_string \<Rightarrow> nat \<Rightarrow> nat \<Rightarrow> js_string" where
  "slice s i j = drop i (take j s)"

text \<open>
  The dynamic program of \<open>segmentsIntoProtected\<close>: the state of every prefix, 0 for one that is
  not segmentable, 1 for fillers only, 2 with a protected word. The innermost loop tries the
  words that end at \<open>e\<close>, the middle one the prefixes \<open>start\<close> and stops at state 2, the outer
  one appends the state of the next prefix.
\<close>

definition try_word :: "js_string \<Rightarrow> js_string list \<Rightarrow> nat \<Rightarrow> nat \<Rightarrow> nat \<Rightarrow> nat \<Rightarrow> nat" where
  "try_word skeleton protectedWords e st from cur =
     (let word = slice skeleton from e
      in if word \<in> set protectedWords then 2
         else if word \<in> set FILLER_SKELETONS \<and> cur < st then st
         else cur)"

fun scan_starts :: "js_string \<Rightarrow> js_string list \<Rightarrow> nat list \<Rightarrow> nat \<Rightarrow> nat list \<Rightarrow> nat \<Rightarrow> nat" where
  "scan_starts skeleton P states e [] cur = cur"
| "scan_starts skeleton P states e (start # starts) cur =
     (if states ! start = 0 then scan_starts skeleton P states e starts cur
      else let cur' = fold (try_word skeleton P e (states ! start))
                        (if 0 < start then [start, start - 1] else [start]) cur
           in if cur' = 2 then cur' else scan_starts skeleton P states e starts cur')"

definition segment_states :: "js_string \<Rightarrow> js_string list \<Rightarrow> nat list" where
  "segment_states skeleton P =
     fold (\<lambda>e states. states @ [scan_starts skeleton P states e [0..<e] 0]) [1..<Suc (length skeleton)] [1]"

definition segmentsIntoProtected :: "js_string \<Rightarrow> js_string list \<Rightarrow> bool" where
  "segmentsIntoProtected skeleton P \<longleftrightarrow> segment_states skeleton P ! length skeleton = 2"

definition isReservedUsername :: "js_string \<Rightarrow> js_string option \<Rightarrow> bool" where
  "isReservedUsername username extra =
     (let protectedWords = PROTECTED_SKELETONS @ extraSkeletons extra
      in list_ex (\<lambda>s. segmentsIntoProtected s protectedWords) (candidateSkeletons username))"

section \<open>Normalised names\<close>

lemma name_char_lower: "name_char c \<Longrightarrow> js_lower_char c = c"
  by (auto simp: name_char_def is_lower_def is_digit_def code_in_def js_lower_char_def)

lemma name_char_space: "name_char c \<Longrightarrow> \<not> js_space c"
  by (auto simp: name_char_def is_lower_def is_digit_def code_in_def js_space_def)

lemma shape_normal: "USERNAME_SHAPE s \<Longrightarrow> trim (toLowerCase s) = s"
proof -
  assume "USERNAME_SHAPE s"
  then have s: "list_all name_char s" by (simp add: USERNAME_SHAPE_def)
  then have "toLowerCase s = s"
    by (simp add: toLowerCase_def list_all_iff name_char_lower map_idI)
  moreover from s have "list_all (\<lambda>c. \<not> js_space c) s" by (auto simp: list_all_iff name_char_space)
  ultimately show ?thesis by (simp add: trim_def list_all_dropWhile_id)
qed

lemma normalizeUsername_shape: "normalizeUsername raw = Some u \<Longrightarrow> USERNAME_SHAPE u"
  by (auto simp: normalizeUsername_def Let_def split: if_splits)

section \<open>Segmentation\<close>

text \<open>
  What the dynamic program decides, without indices: a text is a compound when it is empty or
  extends a compound by a word, where the word may share its first character with the last
  character of what precedes it. The flag says that some word was a protected one.
\<close>

inductive compound :: "js_string set \<Rightarrow> js_string set \<Rightarrow> js_string \<Rightarrow> bool \<Rightarrow> bool" for P F where
  empty: "compound P F [] False"
| protect: "compound P F u b \<Longrightarrow> w \<noteq> [] \<Longrightarrow> w \<in> P \<or> (u \<noteq> [] \<and> last u # w \<in> P) \<Longrightarrow> compound P F (u @ w) True"
| filler: "compound P F u b \<Longrightarrow> w \<noteq> [] \<Longrightarrow> w \<in> F \<or> (u \<noteq> [] \<and> last u # w \<in> F) \<Longrightarrow> compound P F (u @ w) b"


definition froms :: "nat \<Rightarrow> nat list" where
  "froms start = (if 0 < start then [start, start - 1] else [start])"

definition gain :: "js_string \<Rightarrow> js_string list \<Rightarrow> nat \<Rightarrow> nat \<Rightarrow> nat \<Rightarrow> nat" where
  "gain s P e st from =
     (if slice s from e \<in> set P then 2 else if slice s from e \<in> set FILLER_SKELETONS then st else 0)"

lemma try_word_max: "st \<le> 2 \<Longrightarrow> cur \<le> 2 \<Longrightarrow> try_word s P e st from cur = max cur (gain s P e st from)"
  by (auto simp: try_word_def gain_def Let_def)

lemma gain_le: "st \<le> 2 \<Longrightarrow> gain s P e st from \<le> 2"
  by (simp add: gain_def)

lemma try_froms:
  assumes "st \<le> 2" and "cur \<le> 2"
  shows "fold (try_word s P e st) (if 0 < start then [start, start - 1] else [start]) cur \<le> 2"
    and "k \<le> fold (try_word s P e st) (if 0 < start then [start, start - 1] else [start]) cur
           \<longleftrightarrow> k \<le> cur \<or> (\<exists>from\<in>set (froms start). k \<le> gain s P e st from)"
  using assms by (auto simp: try_word_max gain_le froms_def le_max_iff_disj)

lemma scan_starts_ge:
  assumes "\<forall>i\<in>set starts. states ! i \<le> 2" and "cur \<le> 2" and "k \<le> 2"
  shows "scan_starts s P states e starts cur \<le> 2
    \<and> (k \<le> scan_starts s P states e starts cur \<longleftrightarrow>
         k \<le> cur \<or> (\<exists>i\<in>set starts. states ! i \<noteq> 0 \<and> (\<exists>from\<in>set (froms i). k \<le> gain s P e (states ! i) from)))"
  using assms
proof (induction starts arbitrary: cur)
  case (Cons i starts)
  let ?c = "fold (try_word s P e (states ! i)) (if 0 < i then [i, i - 1] else [i]) cur"
  have st: "states ! i \<le> 2" using Cons.prems(1) by simp
  note c = try_froms [OF st Cons.prems(2), where s = s and P = P and e = e and start = i]
  show ?case
  proof (cases "states ! i = 0")
    case True
    with Cons show ?thesis by simp
  next
    case False
    show ?thesis
    proof (cases "?c = 2")
      case True
      with False Cons.prems(3) c(2) [of k] show ?thesis by (auto simp: Let_def)
    next
      case nb: False
      from Cons.IH [OF _ c(1) Cons.prems(3)] Cons.prems(1)
      have ih: "scan_starts s P states e starts ?c \<le> 2"
        "k \<le> scan_starts s P states e starts ?c \<longleftrightarrow> k \<le> ?c
           \<or> (\<exists>i\<in>set starts. states ! i \<noteq> 0 \<and> (\<exists>from\<in>set (froms i). k \<le> gain s P e (states ! i) from))"
        by simp_all
      have "scan_starts s P states e (i # starts) cur = scan_starts s P states e starts ?c"
        using False nb by (simp add: Let_def)
      with ih c(2) [of k] False show ?thesis by simp
    qed
  qed
qed simp

lemma take_split: "i < e \<Longrightarrow> e \<le> length s \<Longrightarrow> take e s = take i s @ slice s i e"
  by (simp add: slice_def drop_take min_def flip: take_add)

lemma slice_shared:
  assumes "0 < i" "i < e" "e \<le> length s"
  shows "slice s (i - 1) e = last (take i s) # slice s i e"
  using assms by (cases i) (simp_all add: slice_def take_Suc_conv_app_nth flip: Cons_nth_drop_Suc)

lemma slice_ne: "i < e \<Longrightarrow> e \<le> length s \<Longrightarrow> slice s i e \<noteq> []"
  by (simp add: slice_def)

lemma word_froms:
  assumes "i < e" "e \<le> length s"
  shows "slice s i e \<in> W \<or> (take i s \<noteq> [] \<and> last (take i s) # slice s i e \<in> W)
           \<longleftrightarrow> (\<exists>from\<in>set (froms i). slice s from e \<in> W)"
  using assms slice_shared [of i e s] by (cases i) (auto simp: froms_def)

lemma prefix_split:
  assumes "take e s = u @ w" and "w \<noteq> []" and "e \<le> length s"
  shows "length u < e" "u = take (length u) s" "w = slice s (length u) e"
proof -
  from assms have "length u + length w = e" by (metis length_append length_take min.absorb2)
  with assms(2) show "length u < e" by (cases w) auto
  then show "u = take (length u) s" using assms(1) by (metis append_eq_conv_conj min.absorb1 less_imp_le take_take)
  show "w = slice s (length u) e" using assms(1) by (simp add: slice_def)
qed

lemma compound_prefix_iff:
  assumes "0 < e" "e \<le> length s"
  shows "compound P F (take e s) b \<longleftrightarrow>
    (\<exists>i<e. \<exists>c. compound P F (take i s) c
       \<and> ((b \<and> (\<exists>from\<in>set (froms i). slice s from e \<in> P)) \<or> (b = c \<and> (\<exists>from\<in>set (froms i). slice s from e \<in> F))))"
    (is "_ \<longleftrightarrow> ?R")
proof
  assume "compound P F (take e s) b"
  then show ?R
  proof cases
    case empty
    with assms show ?thesis by auto
  next
    case (protect u c w)
    note sp = prefix_split [OF protect(1) protect(4) assms(2)]
    with protect(5) word_froms [OF sp(1) assms(2), of P] show ?thesis
      using protect(2,3) by metis
  next
    case (filler u w)
    note sp = prefix_split [OF filler(1) filler(3) assms(2)]
    with filler(4) word_froms [OF sp(1) assms(2), of F] show ?thesis
      using filler(2) by metis
  qed
next
  assume ?R
  then obtain i c where i: "i < e" "compound P F (take i s) c"
    and w: "(b \<and> (\<exists>from\<in>set (froms i). slice s from e \<in> P)) \<or> (b = c \<and> (\<exists>from\<in>set (froms i). slice s from e \<in> F))"
    by blast
  note t = take_split [OF i(1) assms(2)] and ne = slice_ne [OF i(1) assms(2)] and wf = word_froms [OF i(1) assms(2)]
  from w show "compound P F (take e s) b"
    unfolding t wf [symmetric] using compound.protect [OF i(2) ne] compound.filler [OF i(2) ne] by auto
qed

text \<open>The state of a prefix, and that the loops compute it.\<close>

definition state_ok :: "js_string \<Rightarrow> js_string list \<Rightarrow> nat \<Rightarrow> nat \<Rightarrow> bool" where
  "state_ok s P e st \<longleftrightarrow> st \<le> 2
     \<and> (1 \<le> st \<longleftrightarrow> (\<exists>b. compound (set P) (set FILLER_SKELETONS) (take e s) b))
     \<and> (2 \<le> st \<longleftrightarrow> compound (set P) (set FILLER_SKELETONS) (take e s) True)"

lemma any_flag_iff:
  "(\<exists>b. \<exists>i<e. \<exists>c. C i c \<and> ((b \<and> p i) \<or> (b = c \<and> f i))) \<longleftrightarrow> (\<exists>i<e. (\<exists>c. C i c) \<and> (p i \<or> f i))"
  by blast

lemma true_flag_iff:
  "(\<exists>i<e. \<exists>c. C i c \<and> ((True \<and> p i) \<or> (True = c \<and> f i))) \<longleftrightarrow> (\<exists>i<e. (\<exists>c. C i c) \<and> (p i \<or> (f i \<and> C i True)))"
  by auto

lemma scan_state_ok:
  assumes "\<forall>i<e. state_ok s P i (states ! i)" and "0 < e" "e \<le> length s"
  shows "state_ok s P e (scan_starts s P states e [0..<e] 0)"
proof -
  let ?C = "\<lambda>i. compound (set P) (set FILLER_SKELETONS) (take i s)"
  let ?p = "\<lambda>i. \<exists>from\<in>set (froms i). slice s from e \<in> set P"
  let ?f = "\<lambda>i. \<exists>from\<in>set (froms i). slice s from e \<in> set FILLER_SKELETONS"
  have st: "states ! i \<le> 2" "0 < states ! i \<longleftrightarrow> (\<exists>b. ?C i b)" "2 \<le> states ! i \<longleftrightarrow> ?C i True" if "i < e" for i
    using assms(1) that by (simp_all add: state_ok_def Suc_le_eq)
  then have le: "\<forall>i\<in>set [0..<e]. states ! i \<le> 2" by simp
  note ge = scan_starts_ge [OF le, of 0 _ s P e, simplified]
  have "1 \<le> scan_starts s P states e [0..<e] 0 \<longleftrightarrow> (\<exists>i<e. 0 < states ! i \<and> (?p i \<or> ?f i))"
    using ge [of 1] by (auto simp: gain_def Suc_le_eq split: if_splits)
  also have "\<dots> \<longleftrightarrow> (\<exists>i<e. (\<exists>b. ?C i b) \<and> (?p i \<or> ?f i))" using st(2) by auto
  finally have one: "1 \<le> scan_starts s P states e [0..<e] 0 \<longleftrightarrow> (\<exists>b. ?C e b)"
    unfolding compound_prefix_iff [OF assms(2,3)] any_flag_iff .
  have "2 \<le> scan_starts s P states e [0..<e] 0 \<longleftrightarrow> (\<exists>i<e. 0 < states ! i \<and> (?p i \<or> (?f i \<and> 2 \<le> states ! i)))"
    using ge [of 2] by (auto simp: gain_def split: if_splits)
  also have "\<dots> \<longleftrightarrow> (\<exists>i<e. (\<exists>b. ?C i b) \<and> (?p i \<or> (?f i \<and> ?C i True)))" using st(2,3) by auto
  finally have two: "2 \<le> scan_starts s P states e [0..<e] 0 \<longleftrightarrow> ?C e True"
    unfolding compound_prefix_iff [OF assms(2,3)] true_flag_iff .
  from one two ge [of 0] show ?thesis by (simp add: state_ok_def)
qed

lemma segment_states_ok:
  assumes "n \<le> length s"
  shows "let st = fold (\<lambda>e states. states @ [scan_starts s P states e [0..<e] 0]) [1..<Suc n] [1]
         in length st = Suc n \<and> (\<forall>i\<le>n. state_ok s P i (st ! i))"
  using assms
proof (induction n)
  case 0
  have "compound P F [] b \<longleftrightarrow> \<not> b" for P F b
    by (auto elim: compound.cases intro: compound.empty)
  then show ?case by (auto simp: state_ok_def)
next
  case (Suc n)
  let ?st = "fold (\<lambda>e states. states @ [scan_starts s P states e [0..<e] 0]) [1..<Suc n] [1]"
  from Suc have ih: "length ?st = Suc n" "\<forall>i<Suc n. state_ok s P i (?st ! i)"
    by (simp_all add: Let_def less_Suc_eq_le)
  from scan_state_ok [OF ih(2) _ Suc.prems] ih show ?case
    by (auto simp: Let_def nth_append le_Suc_eq less_Suc_eq_le)
qed

lemma segments_iff_compound:
  "segmentsIntoProtected s P \<longleftrightarrow> compound (set P) (set FILLER_SKELETONS) s True"
  using segment_states_ok [of "length s" s P]
  by (auto simp: segmentsIntoProtected_def segment_states_def state_ok_def Let_def)

section \<open>The keys of the built-in words\<close>

text \<open>The folded words, computed once; evaluation uses these tables.\<close>

lemma PROTECTED_SKELETONS_eval [code]:
  "PROTECTED_SKELETONS = [
     ''guap'', ''tmrw'', ''tomorow'', ''guapwaiet'', ''admin'', ''ap'', ''bot'', ''care'', ''heip'',
      ''hg'', ''info'', ''news'', ''oficiai'', ''ops'', ''pay'', ''payments'', ''security'', ''staf'',
      ''suport'', ''team'', ''waiet'', ''abuse'', ''administrator'', ''biiing'', ''ceo'',
      ''compiiance'', ''contact'', ''customerservice'', ''customersuport'', ''fiashnet'', ''heipdesk'',
      ''hostmaster'', ''iegai'', ''moderator'', ''norepiy'', ''norepiy'', ''operator'', ''orchestra'',
      ''postmaster'', ''privacy'', ''refund'', ''refunds'', ''rot'', ''superuser'', ''sysadmin'',
      ''system'', ''verify'', ''verification'', ''webmaster'']"
  by code_simp

lemma FILLER_SKELETONS_eval [code]: "FILLER_SKELETONS = [''the'', ''reai'', ''my'', ''true'', ''originai'', ''verified'']"
  by code_simp

lemma short_names_free:
  "\<not> isReservedUsername ''x'' None" "\<not> isReservedUsername ''y'' None" "isReservedUsername ''HQ'' None"
  by code_simp+

section \<open>Properties\<close>

text \<open>
  C38. Normalisation yields a canonical name: the result is between 1 and 30 characters of the
  allowed alphabet, normalising it again changes nothing, and it only depends on the letters
  of the input up to case and surrounding white space.
\<close>

theorem normalized_name_canonical:
  assumes "normalizeUsername raw = Some u"
  shows "USERNAME_SHAPE u \<and> normalizeUsername u = Some u
    \<and> (\<forall>raw2. trim (toLowerCase raw2) = trim (toLowerCase raw) \<longrightarrow> normalizeUsername raw2 = Some u)"
proof -
  from assms have shape: "USERNAME_SHAPE u" and u: "u = trim (toLowerCase raw)"
    by (auto simp: normalizeUsername_def Let_def split: if_splits)
  from shape have "normalizeUsername u = Some u" by (simp add: normalizeUsername_def shape_normal)
  moreover from shape u have "\<forall>raw2. trim (toLowerCase raw2) = trim (toLowerCase raw) \<longrightarrow> normalizeUsername raw2 = Some u"
    by (simp add: normalizeUsername_def)
  ultimately show ?thesis using shape by blast
qed

theorem normalized_name_canonical_witness:
  "normalizeUsername '' Alice.B '' = Some ''alice.b'' \<and> normalizeUsername ''alice.b'' = Some ''alice.b''"
proof -
  have "normalizeUsername '' Alice.B '' = Some ''alice.b''" by code_simp
  from normalized_name_canonical [OF this] this show ?thesis by blast
qed

text \<open>
  C39. The reserved-name test decides a specification without indices or tables: a name is
  reserved exactly when one of its four readings (as typed, without leading digits, without
  trailing digits, without both) folds to a text composed of protected words and fillers,
  neighbours sharing at most one character, with at least one protected word.
\<close>

theorem reserved_iff_compound:
  "isReservedUsername username extra \<longleftrightarrow>
     (\<exists>reading. reading \<in> {compact username, drop_trailing_digits (compact username), drop_leading_digits (compact username),
                   drop_trailing_digits (drop_leading_digits (compact username))}
        \<and> reading \<noteq> [] \<and> compound (set PROTECTED_SKELETONS \<union> set (extraSkeletons extra)) (set FILLER_SKELETONS)
                          (usernameSkeleton reading) True)"
  by (auto simp: isReservedUsername_def candidateSkeletons_def segments_iff_compound Let_def list_ex_iff)

lemma js_lower_char_idem: "js_lower_char (js_lower_char c) = js_lower_char c"
  by (auto simp: js_lower_char_def code_in_def)

lemma compact_idem: "compact (compact s) = compact s"
  by (simp add: compact_def toLowerCase_def filter_map comp_def js_lower_char_idem)

lemma compact_append: "compact (s @ t) = compact s @ compact t"
  by (simp add: compact_def toLowerCase_def)

lemma compact_digits: "list_all is_digit s \<Longrightarrow> compact s = s"
  by (induction s) (auto simp: compact_def toLowerCase_def is_digit_def code_in_def js_lower_char_def)

lemma skeleton_compact: "usernameSkeleton (compact s) = usernameSkeleton s"
  by (simp add: usernameSkeleton_def compact_idem)

lemma replace_pair_Nil: "replace_pair a b c s = [] \<longleftrightarrow> s = []"
  by (induction a b c s rule: replace_pair.induct) simp_all

lemma collapse_Nil: "collapse s = [] \<longleftrightarrow> s = []"
  by (induction s rule: collapse.induct) auto

lemma skeleton_Nil: "usernameSkeleton s = [] \<longleftrightarrow> compact s = []"
  by (simp add: usernameSkeleton_def replace_pair_Nil collapse_Nil)

lemma strip_digits:
  assumes "list_all is_digit p" "list_all is_digit q" "c \<noteq> []" "\<not> is_digit (hd c)" "\<not> is_digit (last c)"
  shows "drop_trailing_digits (drop_leading_digits (p @ c @ q)) = c"
proof -
  have "dropWhile is_digit (p @ c @ q) = c @ q"
    using assms(1,3,4) by (induction p) (cases c; auto)+
  moreover have "dropWhile is_digit (rev q @ rev c) = rev c"
    using assms(2,3,5) by (induction q rule: rev_induct) (cases c rule: rev_cases; auto)+
  ultimately show ?thesis by (simp add: drop_leading_digits_def drop_trailing_digits_def)
qed

text \<open>
  Disguises do not free a reserved name. Take any text that folds to the same key as a
  built-in reserved name: other case, dots, dashes and underscores, doubled letters, lookalike
  digits or letters. It is refused, also with digits put in front of it and behind it, and
  whatever the configured list contains.
\<close>

theorem reserved_disguises:
  assumes "w \<in> set DEFAULT_RESERVED_USERNAMES" and "usernameSkeleton core = usernameSkeleton w"
    and "list_all is_digit pre" and "list_all is_digit post"
    and "compact core \<noteq> []" and "\<not> is_digit (hd (compact core))" and "\<not> is_digit (last (compact core))"
  shows "isReservedUsername (pre @ core @ post) extra"
proof -
  have c: "compact (pre @ core @ post) = pre @ compact core @ post"
    using assms(3,4) by (simp add: compact_append compact_digits)
  have reading: "drop_trailing_digits (drop_leading_digits (compact (pre @ core @ post))) = compact core"
    using strip_digits [OF assms(3,4,5,6,7)] c by simp
  have "usernameSkeleton core \<in> set PROTECTED_SKELETONS"
    using assms(1,2) by (simp add: PROTECTED_SKELETONS_def)
  then have "compound (set PROTECTED_SKELETONS \<union> set (extraSkeletons extra)) (set FILLER_SKELETONS) ([] @ usernameSkeleton core) True"
    using assms(5) by (intro compound.protect [OF compound.empty]) (simp_all add: skeleton_Nil)
  then show ?thesis
    using reading assms(5)
    by (auto simp: isReservedUsername_def candidateSkeletons_def segments_iff_compound Let_def list_ex_iff skeleton_compact)
qed

theorem reserved_disguises_witness: "isReservedUsername (''00'' @ ''S.upp-p0rt'' @ ''9'') (Some ''bob'')"
proof (rule reserved_disguises [of "''support''"])
  show "''support'' \<in> set DEFAULT_RESERVED_USERNAMES" by code_simp
  show "usernameSkeleton ''S.upp-p0rt'' = usernameSkeleton ''support''" by code_simp
  show "compact ''S.upp-p0rt'' \<noteq> []" by code_simp
  show "\<not> is_digit (hd (compact ''S.upp-p0rt''))" by code_simp
  show "\<not> is_digit (last (compact ''S.upp-p0rt''))" by code_simp
qed (simp_all add: is_digit_def code_in_def)

end
