(* ===== verification/Secp.thy ===== *)
theory Secp
  imports Prelude
begin

text \<open>
  Signatures and keys, \<open>src/auth/secp256k1.utils.ts\<close>. The curve library is a parameter: its
  signature check may throw, and so may its decoding of a point.
\<close>

record secp_lib =
  secp_verify :: "buffer \<Rightarrow> buffer \<Rightarrow> buffer \<Rightarrow> bool option" \<comment> \<open>signature, message, key; \<open>None\<close> throws\<close>
  point_forms :: "js_string \<Rightarrow> (js_string \<times> js_string) option" \<comment> \<open>compressed and uncompressed hex\<close>

section \<open>DER signatures\<close>

definition subarray :: "buffer \<Rightarrow> nat \<Rightarrow> nat \<Rightarrow> buffer" where
  "subarray b i j = drop i (take j b)"

text \<open>The last 32 bytes, padded with zeros on the left.\<close>

definition normalize32 :: "buffer \<Rightarrow> buffer" where
  "normalize32 b =
     (if 32 < length b then drop (length b - 32) b
      else if length b < 32 then replicate (32 - length b) 0 @ b
      else b)"

text \<open>
  Reading past the end yields \<open>undefined\<close>: a missing tag or a missing first length returns the
  input, a missing second length reads an empty number.
\<close>

definition derToCompact :: "buffer \<Rightarrow> buffer" where
  "derToCompact sigBytes =
     (if byte_at sigBytes 2 \<noteq> Some 2 then sigBytes
      else case byte_at sigBytes 3 of
          None \<Rightarrow> sigBytes
        | Some rLen \<Rightarrow>
            (let r = subarray sigBytes 4 (4 + unat rLen); off = 4 + unat rLen in
             if byte_at sigBytes off \<noteq> Some 2 then sigBytes
             else let s = (case byte_at sigBytes (off + 1) of
                             None \<Rightarrow> []
                           | Some sLen \<Rightarrow> subarray sigBytes (off + 2) (off + 2 + unat sLen))
                  in normalize32 r @ normalize32 s))"

section \<open>Verification\<close>

definition key_shape :: "js_string \<Rightarrow> bool" where
  "key_shape key \<longleftrightarrow> list_all is_hex key \<and> (length key = 66 \<or> length key = 130)"

datatype sig_message = HexMessage js_string | RawMessage buffer

text \<open>\<open>Buffer.from(s, 'utf8')\<close> of a string of hex digits, which are ASCII.\<close>

definition ascii_bytes :: "js_string \<Rightarrow> buffer" where
  "ascii_bytes s = map of_char s"

definition finalSigBytes :: "buffer \<Rightarrow> buffer" where
  "finalSigBytes sigBytes =
     (if 64 < length sigBytes \<and> byte_at sigBytes 0 = Some 48 then derToCompact sigBytes else sigBytes)"

definition verifySignature :: "secp_lib \<Rightarrow> sig_message \<Rightarrow> js_string \<Rightarrow> js_string \<Rightarrow> bool" where
  "verifySignature L message sig key =
     (if \<not> all_hex sig then False
      else if \<not> key_shape key then False
      else case message of
          RawMessage m \<Rightarrow> secp_verify L (finalSigBytes (hex_to_bytes sig)) m (hex_to_bytes key) = Some True
        | HexMessage h \<Rightarrow>
            if \<not> all_hex h then False
            else (case secp_verify L (finalSigBytes (hex_to_bytes sig)) (hex_to_bytes h) (hex_to_bytes key) of
                    None \<Rightarrow> False
                  | Some True \<Rightarrow> True
                  | Some False \<Rightarrow>
                      secp_verify L (finalSigBytes (hex_to_bytes sig)) (ascii_bytes h) (hex_to_bytes key) = Some True))"

definition equivalentPubKeyForms :: "secp_lib \<Rightarrow> js_string \<Rightarrow> js_string list" where
  "equivalentPubKeyForms L key =
     (let lower = toLowerCase key
      in case point_forms L lower of
           None \<Rightarrow> [lower]
         | Some (c, u) \<Rightarrow> js_dedupe [lower, c, u])"

section \<open>The DER encoding\<close>

text \<open>
  Reference encoder: a number is printed in big-endian order without leading zeros, with one zero
  byte in front when its top bit is set, so that it reads as positive.
\<close>

definition der_int :: "buffer \<Rightarrow> buffer" where
  "der_int n =
     (case dropWhile (\<lambda>b. b = 0) n of
        [] \<Rightarrow> [0]
      | b # bs \<Rightarrow> if 128 \<le> unat b then 0 # b # bs else b # bs)"

definition der_signature :: "buffer \<Rightarrow> buffer \<Rightarrow> buffer" where
  "der_signature r s =
     (let body = [2, of_nat (length (der_int r))] @ der_int r @ [2, of_nat (length (der_int s))] @ der_int s
      in [48, of_nat (length body)] @ body)"

lemma zeros_prefix: "n = replicate (length n - length (dropWhile (\<lambda>b. b = 0) n)) (0 :: byte) @ dropWhile (\<lambda>b. b = 0) n"
proof (induction n)
  case (Cons a n)
  have "length (dropWhile (\<lambda>b. b = 0) n) \<le> length n" by (rule length_dropWhile_le)
  with Cons show ?case by (auto simp: Suc_diff_le)
qed simp

lemma der_int_length: "length n = 32 \<Longrightarrow> length (der_int n) \<le> 33"
  using length_dropWhile_le [of "\<lambda>b. b = 0" n] by (auto simp: der_int_def split: list.splits)

lemma normalize32_der_int:
  assumes n: "length n = 32"
  shows "normalize32 (der_int n) = n"
proof (cases "dropWhile (\<lambda>b. b = 0) n")
  case Nil
  have "n = replicate 32 0" using zeros_prefix [of n] unfolding Nil n by simp
  also have "\<dots> = replicate 31 0 @ [0]" by (simp add: replicate_append_same flip: replicate_Suc)
  finally have n0: "n = replicate 31 0 @ [0]" .
  have "der_int n = [0]" unfolding der_int_def Nil by simp
  then show ?thesis by (subst n0) (simp add: normalize32_def)
next
  case (Cons b bs)
  have le: "length (b # bs) \<le> 32" using length_dropWhile_le [of "\<lambda>b. b = 0" n] Cons n by simp
  have eq: "n = replicate (32 - length (b # bs)) 0 @ b # bs" using zeros_prefix [of n] Cons n by simp
  show ?thesis
  proof (cases "length (b # bs) = 32")
    case True
    with Cons eq show ?thesis by (simp add: der_int_def normalize32_def)
  next
    case False
    with le have lt: "length (b # bs) < 32" by simp
    have "replicate (32 - length (0 # b # bs)) 0 @ 0 # b # bs = replicate (32 - length (b # bs)) 0 @ b # bs"
      using lt by (simp add: Suc_diff_Suc replicate_app_Cons_same flip: replicate_Suc)
    with Cons eq lt show ?thesis by (auto simp: der_int_def normalize32_def)
  qed
qed

lemma unat_small [simp]: "n \<le> 33 \<Longrightarrow> unat (of_nat n :: byte) = n"
  by (simp add: unat_of_nat)

lemma derToCompact_layout:
  assumes "length x \<le> 33" "length y \<le> 33"
  shows "derToCompact ([48, l, 2, of_nat (length x)] @ x @ [2, of_nat (length y)] @ y) = normalize32 x @ normalize32 y"
  using assms by (simp add: derToCompact_def subarray_def Let_def numeral_eq_Suc)

lemma derToCompact_der:
  assumes "length r = 32" "length s = 32"
  shows "derToCompact (der_signature r s) = r @ s"
  using derToCompact_layout [OF der_int_length [OF assms(1)] der_int_length [OF assms(2)]]
    normalize32_der_int [OF assms(1)] normalize32_der_int [OF assms(2)]
  by (simp add: der_signature_def Let_def)

text \<open>
  C40. The encoding of a signature does not matter: a DER encoded signature (of the usual length,
  above 64 bytes) verifies for a message and a key exactly when the compact encoding of the
  same two numbers does, because decoding the DER form yields the compact form byte for
  byte.
\<close>

theorem signature_encoding_irrelevant:
  assumes "length r = 32" "length s = 32" and "64 < length (der_signature r s)"
  shows "derToCompact (der_signature r s) = r @ s
    \<and> verifySignature L m (bytes_to_hex (der_signature r s)) key = verifySignature L m (bytes_to_hex (r @ s)) key"
proof -
  have "byte_at (der_signature r s) 0 = Some 48" by (simp add: der_signature_def Let_def)
  then have fin: "finalSigBytes (der_signature r s) = r @ s"
    using assms by (simp add: finalSigBytes_def derToCompact_der)
  have fin': "finalSigBytes (r @ s) = r @ s" using assms(1,2) by (simp add: finalSigBytes_def)
  have hex: "all_hex (bytes_to_hex (der_signature r s))" "all_hex (bytes_to_hex (r @ s))"
    using assms by (auto simp: all_hex_def simp flip: length_0_conv)
  show ?thesis
    using derToCompact_der [OF assms(1,2)]
    by (simp add: verifySignature_def hex fin fin' cong: sig_message.case_cong option.case_cong bool.case_cong)
qed

theorem signature_encoding_irrelevant_witness:
  "derToCompact (der_signature (replicate 32 1) (replicate 32 255)) = replicate 32 1 @ replicate 32 255"
proof -
  have "64 < length (der_signature (replicate 32 1) (replicate 32 255))" by code_simp
  with signature_encoding_irrelevant [of "replicate 32 1" "replicate 32 255"] show ?thesis by simp
qed

text \<open>The forms that a lookup by key searches.\<close>

lemma equivalentPubKeyForms_set:
  "set (equivalentPubKeyForms L key) =
     {toLowerCase key} \<union> (case point_forms L (toLowerCase key) of None \<Rightarrow> {} | Some (c, u) \<Rightarrow> {c, u})"
  by (auto simp: equivalentPubKeyForms_def Let_def split: option.splits)

definition demo_secp :: secp_lib where
  "demo_secp = \<lparr>secp_verify = (\<lambda>s m k. Some (take 1 s = take 1 m)), point_forms = (\<lambda>k. Some (''02aa'', ''04aabb''))\<rparr>"

end
