(* ===== verification/Auth.thy ===== *)
theory Auth
  imports Db Usernames Secp "HOL-Library.Multiset"
begin

text \<open>
  LNURL-auth registration, \<open>src/auth/auth.service.ts\<close> and \<open>src/auth/auth.controller.ts\<close>, and the
  purge of expired nonces, \<open>src/auth/auth-nonce-purge.service.ts\<close>. A request first reads the
  store to check the nonce, the signature and the name, and then commits one transaction;
  the two parts are separate definitions, because other requests run in between.
\<close>

section \<open>Challenges\<close>

datatype auth_error =
    AuthReason js_string \<comment> \<open>400 with a reason\<close>
  | UsernameFormat \<comment> \<open>the plain error of \<open>normalizeUsername\<close>\<close>
  | AuthDbError db_error

definition NONCE_TTL_MS :: int where "NONCE_TTL_MS = 5 * 60 * 1000"

definition new_nonce :: "js_string \<Rightarrow> js_string \<Rightarrow> time_ms \<Rightarrow> AuthNonce" where
  "new_nonce nid k1 now = \<lparr>an_id = nid, an_k1 = k1, an_expiresAt = now + NONCE_TTL_MS, usedAt = None\<rparr>"

definition generateAuthChallenge ::
  "collation \<Rightarrow> js_string option \<Rightarrow> js_string \<Rightarrow> buffer \<Rightarrow> time_ms \<Rightarrow> db
   \<Rightarrow> auth_error + (js_string \<times> js_string) \<times> db" where
  "generateAuthChallenge ck publicBaseUrl nid random32 now d =
     (let k1 = bytes_to_hex random32;
          base = (case publicBaseUrl of None \<Rightarrow> ''undefined'' | Some b \<Rightarrow> b);
          callback = base @ ''/v1/auth/lnurl/callback''
      in case tbl_create ck auth_nonce_ixs (new_nonce nid k1 now) (auth_nonces d) of
           Inl e \<Rightarrow> Inl (AuthDbError e)
         | Inr t \<Rightarrow> Inr ((k1, callback), d\<lparr>auth_nonces := t\<rparr>))"

section \<open>Registration: the checks\<close>

definition nonce_by_k1 :: "collation \<Rightarrow> js_string \<Rightarrow> db \<Rightarrow> AuthNonce option" where
  "nonce_by_k1 ck k1 d = find (\<lambda>n. text_eq ck (an_k1 n) k1) (auth_nonces d)"

definition name_by_username :: "collation \<Rightarrow> js_string \<Rightarrow> db \<Rightarrow> LightningName option" where
  "name_by_username ck u d = find_unique ck ln_username_key [Text u] (lightning_names d)"

definition rejectReservedUsername :: "js_string option \<Rightarrow> js_string \<Rightarrow> auth_error + unit" where
  "rejectReservedUsername extra username =
     (if isReservedUsername username extra then Inl (AuthReason ''Username is reserved'') else Inr ())"

definition holds_key :: "collation \<Rightarrow> js_string list \<Rightarrow> LightningName \<Rightarrow> bool" where
  "holds_key ck forms r =
     (case activePubKey r of None \<Rightarrow> False | Some p \<Rightarrow> list_ex (\<lambda>f. text_eq ck p f) forms)"

definition rejectKeyWithActiveName :: "collation \<Rightarrow> secp_lib \<Rightarrow> js_string \<Rightarrow> db \<Rightarrow> auth_error + unit" where
  "rejectKeyWithActiveName ck L key d =
     (case find (holds_key ck (equivalentPubKeyForms L key)) (lightning_names d) of
        Some _ \<Rightarrow> Inl (AuthReason ''Key already has a username'')
      | None \<Rightarrow> Inr ())"

definition hex_k1 :: "js_string \<Rightarrow> bool" where
  "hex_k1 k1 \<longleftrightarrow> length k1 = 64 \<and> list_all is_hex k1"

definition bind_checks ::
  "collation \<Rightarrow> secp_lib \<Rightarrow> js_string option \<Rightarrow> time_ms \<Rightarrow> js_string \<Rightarrow> js_string \<Rightarrow> js_string \<Rightarrow> js_string \<Rightarrow> db
   \<Rightarrow> auth_error + js_string" where
  "bind_checks ck L extra now k1 sig key rawUsername d =
     (case normalizeUsername rawUsername of
        None \<Rightarrow> Inl UsernameFormat
      | Some username \<Rightarrow>
     (case nonce_by_k1 ck k1 d of
        None \<Rightarrow> Inl (AuthReason ''Invalid k1'')
      | Some nonce \<Rightarrow>
          if usedAt nonce \<noteq> None then Inl (AuthReason ''k1 already used'')
          else if an_expiresAt nonce < now then Inl (AuthReason ''k1 expired'')
          else if \<not> hex_k1 k1 then Inl (AuthReason ''Invalid k1'')
          else if \<not> all_hex sig then Inl (AuthReason ''Invalid signature'')
          else if \<not> key_shape key then Inl (AuthReason ''Invalid key'')
          else if \<not> verifySignature L (HexMessage k1) sig key then Inl (AuthReason ''Invalid signature'')
          else bind_result (rejectReservedUsername extra username) (\<lambda>_.
               bind_result (rejectKeyWithActiveName ck L key d) (\<lambda>_.
                 case name_by_username ck username d of
                   Some _ \<Rightarrow> Inl (AuthReason ''Username already taken'')
                 | None \<Rightarrow> Inr username))))"

section \<open>Registration: the transaction\<close>

definition consumable :: "collation \<Rightarrow> js_string \<Rightarrow> time_ms \<Rightarrow> AuthNonce \<Rightarrow> bool" where
  "consumable ck k1 now n \<longleftrightarrow> text_eq ck (an_k1 n) k1 \<and> usedAt n = None \<and> now < an_expiresAt n"

text \<open>\<open>updateMany\<close>: the number of rows changed and the table.\<close>

definition consume_nonce :: "collation \<Rightarrow> js_string \<Rightarrow> time_ms \<Rightarrow> AuthNonce list \<Rightarrow> nat \<times> AuthNonce list" where
  "consume_nonce ck k1 now t =
     (length (filter (consumable ck k1 now) t),
      map (\<lambda>n. if consumable ck k1 now n then n\<lparr>usedAt := Some now\<rparr> else n) t)"

definition consume_failure :: "collation \<Rightarrow> js_string \<Rightarrow> time_ms \<Rightarrow> db \<Rightarrow> auth_error" where
  "consume_failure ck k1 now d =
     (let expired = (case nonce_by_k1 ck k1 d of None \<Rightarrow> False
                     | Some n \<Rightarrow> usedAt n = None \<and> an_expiresAt n \<le> now)
      in AuthReason (if expired then ''k1 expired'' else ''k1 already used''))"

definition new_user :: "js_string \<Rightarrow> time_ms \<Rightarrow> User" where
  "new_user uid now =
     \<lparr>user_id = uid, user_updatedAt = now, defaultReceivingCurrency = USDB, bonusUsernameChanges = 0\<rparr>"

definition new_name :: "js_string \<Rightarrow> js_string \<Rightarrow> js_string \<Rightarrow> js_string \<Rightarrow> time_ms \<Rightarrow> LightningName" where
  "new_name nid username uid key now =
     \<lparr>ln_id = nid, ln_username = username, ln_userId = uid, linkingPubKeyHex = key, ln_active = True,
      activePubKey = Some key, ln_createdAt = now\<rparr>"

text \<open>The handler of a database error: a unique violation carries the index in \<open>meta.target\<close>.\<close>

definition bind_failure :: "db_error \<Rightarrow> auth_error" where
  "bind_failure e =
     (case e of
        P2002 target \<Rightarrow> AuthReason (if str_includes target ''activePubKey'' then ''Key already has a username''
                                     else ''Username already taken'')
      | P2034 \<Rightarrow> AuthReason ''Registration conflict, please retry''
      | P2028 \<Rightarrow> AuthReason ''Registration conflict, please retry''
      | _ \<Rightarrow> AuthDbError e)"

text \<open>
  The transaction, with the ids that the store generates; \<open>abort\<close> is an error with which the
  database may end it, such as a deadlock. \<open>Inl\<close> rolls back.
\<close>

definition bind_commit ::
  "collation \<Rightarrow> db_error option \<Rightarrow> time_ms \<Rightarrow> js_string \<times> js_string \<Rightarrow> js_string \<Rightarrow> js_string \<Rightarrow> js_string \<Rightarrow> db
   \<Rightarrow> auth_error + db" where
  "bind_commit ck abort now ids k1 key username d =
     (case abort of
        Some e \<Rightarrow> Inl (bind_failure e)
      | None \<Rightarrow>
          (case consume_nonce ck k1 now (auth_nonces d) of (consumed, nonces) \<Rightarrow>
             if consumed \<noteq> 1 then Inl (consume_failure ck k1 now d)
             else case tbl_create ck user_ixs (new_user (fst ids) now) (users d) of
                 Inl e \<Rightarrow> Inl (bind_failure e)
               | Inr us \<Rightarrow>
                   (case tbl_create ck lightning_name_ixs (new_name (snd ids) username (fst ids) key now)
                           (lightning_names d) of
                      Inl e \<Rightarrow> Inl (bind_failure e)
                    | Inr ns \<Rightarrow> Inr (d\<lparr>auth_nonces := nonces, users := us, lightning_names := ns\<rparr>))))"

definition verifyAndBindUsername ::
  "collation \<Rightarrow> secp_lib \<Rightarrow> js_string option \<Rightarrow> db_error option \<Rightarrow> time_ms \<Rightarrow> time_ms \<Rightarrow> js_string \<times> js_string
   \<Rightarrow> js_string \<Rightarrow> js_string \<Rightarrow> js_string \<Rightarrow> js_string \<Rightarrow> db \<Rightarrow> auth_error + db" where
  "verifyAndBindUsername ck L extra abort now now' ids k1 sig key rawUsername d =
     bind_result (bind_checks ck L extra now k1 sig key rawUsername d)
       (\<lambda>username. bind_commit ck abort now' ids k1 key username d)"

text \<open>\<open>AuthController.handleAuthCallback\<close>: the query parameters, \<open>None\<close> when absent.\<close>

definition handleAuthCallback ::
  "(js_string \<Rightarrow> js_string \<Rightarrow> js_string \<Rightarrow> js_string \<Rightarrow> auth_error + db)
   \<Rightarrow> js_string option \<Rightarrow> js_string option \<Rightarrow> js_string option \<Rightarrow> js_string option \<Rightarrow> auth_error + db" where
  "handleAuthCallback bind k1 sig key username =
     (if \<not> truthy username then Inl (AuthReason ''Username is required'')
      else if \<not> truthy k1 then Inl (AuthReason ''k1 is required'')
      else if \<not> truthy sig then Inl (AuthReason ''sig is required'')
      else if \<not> truthy key then Inl (AuthReason ''linking key is required'')
      else bind (the k1) (the sig) (the key) (the username))"

section \<open>The purge\<close>

definition PURGE_GRACE_MS :: int where "PURGE_GRACE_MS = 60 * 60 * 1000"
definition PURGE_BATCH_SIZE :: nat where "PURGE_BATCH_SIZE = 1000"
definition PURGE_MAX_BATCHES :: nat where "PURGE_MAX_BATCHES = 1000"

text \<open>
  The loop over batches: \<open>scan\<close> is the order in which the database returns the rows of a query
  without \<open>orderBy\<close>. The result is the table and the number of deleted rows.
\<close>

definition expired_before :: "time_ms \<Rightarrow> AuthNonce \<Rightarrow> bool" where
  "expired_before cutoff n \<longleftrightarrow> an_expiresAt n < cutoff"

definition batch_ids :: "(AuthNonce list \<Rightarrow> AuthNonce list) \<Rightarrow> time_ms \<Rightarrow> AuthNonce list \<Rightarrow> js_string list" where
  "batch_ids scan cutoff t = map an_id (take PURGE_BATCH_SIZE (filter (expired_before cutoff) (scan t)))"

definition delete_ids :: "collation \<Rightarrow> js_string list \<Rightarrow> AuthNonce list \<Rightarrow> AuthNonce list" where
  "delete_ids ck ids t = filter (\<lambda>n. \<not> list_ex (text_eq ck (an_id n)) ids) t"

fun purge_loop ::
  "collation \<Rightarrow> (AuthNonce list \<Rightarrow> AuthNonce list) \<Rightarrow> time_ms \<Rightarrow> nat \<Rightarrow> AuthNonce list \<Rightarrow> nat
   \<Rightarrow> AuthNonce list \<times> nat" where
  "purge_loop ck scan cutoff 0 t deleted = (t, deleted)"
| "purge_loop ck scan cutoff (Suc batches) t deleted =
     (let ids = batch_ids scan cutoff t in
      if ids = [] then (t, deleted)
      else let t' = delete_ids ck ids t; deleted' = deleted + (length t - length t')
           in if length ids < PURGE_BATCH_SIZE then (t', deleted')
              else purge_loop ck scan cutoff batches t' deleted')"

definition purgeExpired ::
  "collation \<Rightarrow> (AuthNonce list \<Rightarrow> AuthNonce list) \<Rightarrow> time_ms \<Rightarrow> db \<Rightarrow> nat \<times> db" where
  "purgeExpired ck scan now d =
     (let (t, deleted) = purge_loop ck scan (now - PURGE_GRACE_MS) PURGE_MAX_BATCHES (auth_nonces d) 0
      in (deleted, d\<lparr>auth_nonces := t\<rparr>))"

section \<open>Single use of a challenge\<close>

abbreviation nonces_uniq :: "collation \<Rightarrow> db \<Rightarrow> bool" where
  "nonces_uniq ck d \<equiv> uniq ck auth_nonce_ixs (auth_nonces d)"

definition spent :: "collation \<Rightarrow> js_string \<Rightarrow> db \<Rightarrow> bool" where
  "spent ck k1 d \<longleftrightarrow> (\<forall>n\<in>set (auth_nonces d). text_eq ck (an_k1 n) k1 \<longrightarrow> usedAt n \<noteq> None)"

lemma bind_commit_Inr:
  assumes "bind_commit ck abort now ids k1 key username d = Inr d'"
  shows "abort = None" "length (filter (consumable ck k1 now) (auth_nonces d)) = 1"
    "tbl_create ck user_ixs (new_user (fst ids) now) (users d) = Inr (users d')"
    "tbl_create ck lightning_name_ixs (new_name (snd ids) username (fst ids) key now) (lightning_names d)
       = Inr (lightning_names d')"
    "auth_nonces d' = snd (consume_nonce ck k1 now (auth_nonces d))"
    "d' = d\<lparr>auth_nonces := auth_nonces d', users := users d', lightning_names := lightning_names d'\<rparr>"
  using assms by (auto simp: bind_commit_def consume_nonce_def split: option.splits if_splits sum.splits)

lemma nonce_same_k1:
  assumes "nonces_uniq ck d" "n \<in> set (auth_nonces d)" "n' \<in> set (auth_nonces d)"
    and "text_eq ck (an_k1 n) k1" "text_eq ck (an_k1 n') k1"
  shows "n = n'"
  using assms
  by (intro uniq_clash_eq [of ck auth_nonce_ixs _ "(''auth_nonces_k1_key'', \<lambda>r. Some [Text (an_k1 r)])"])
     (auto simp: auth_nonce_ixs_def clash_def row_key_def text_eq_def)

lemma bind_commit_spends:
  assumes "nonces_uniq ck d" and "bind_commit ck abort now ids k1 key username d = Inr d'"
  shows "spent ck k1 d'"
proof -
  from bind_commit_Inr(2) [OF assms(2)] have "filter (consumable ck k1 now) (auth_nonces d) \<noteq> []"
    by (auto simp del: filter_empty_conv)
  then obtain n where n: "n \<in> set (auth_nonces d)" "consumable ck k1 now n"
    by (auto simp: filter_empty_conv)
  have "consumable ck k1 now m" if "m \<in> set (auth_nonces d)" "text_eq ck (an_k1 m) k1" for m
    using nonce_same_k1 [OF assms(1) n(1) that(1) _ that(2)] n(2) by (auto simp: consumable_def)
  then show ?thesis
    unfolding spent_def bind_commit_Inr(5) [OF assms(2)] by (auto simp: consume_nonce_def)
qed

lemma spent_refuses:
  assumes "spent ck k1 d"
  shows "bind_commit ck None now ids k1 key username d = Inl (AuthReason ''k1 already used'')"
proof -
  have "filter (consumable ck k1 now) (auth_nonces d) = []"
    using assms by (auto simp: spent_def consumable_def filter_empty_conv)
  moreover have "consume_failure ck k1 now d = AuthReason ''k1 already used''"
    using assms by (auto simp: consume_failure_def nonce_by_k1_def spent_def find_Some_iff split: option.splits)
  ultimately show ?thesis by (simp add: bind_commit_def consume_nonce_def)
qed

text \<open>What else may happen to the store: every operation of the services, in any order.\<close>

inductive auth_step :: "collation \<Rightarrow> js_string \<Rightarrow> db \<Rightarrow> db \<Rightarrow> bool" for ck k1 where
  challenge: "generateAuthChallenge ck base nid random now d = Inr (out, d') \<Longrightarrow> \<not> text_eq ck (fst out) k1
    \<Longrightarrow> auth_step ck k1 d d'"
| register: "bind_commit ck abort now ids k1' key username d = Inr d' \<Longrightarrow> auth_step ck k1 d d'"
| purge: "purgeExpired ck scan now d = (deleted, d') \<Longrightarrow> auth_step ck k1 d d'"
| other: "auth_nonces d' = auth_nonces d \<Longrightarrow> auth_step ck k1 d d'"

lemma purge_loop_subset: "set (fst (purge_loop ck scan cutoff batches t deleted)) \<subseteq> set t"
  by (induction ck scan cutoff batches t deleted rule: purge_loop.induct)
     (auto simp: Let_def delete_ids_def)

lemma spent_subset: "set (auth_nonces d') \<subseteq> set (auth_nonces d) \<Longrightarrow> spent ck k1 d \<Longrightarrow> spent ck k1 d'"
  by (auto simp: spent_def)

lemma auth_step_spent: "auth_step ck k1 d d' \<Longrightarrow> spent ck k1 d \<Longrightarrow> spent ck k1 d'"
proof (induction rule: auth_step.induct)
  case (challenge base nid random now d out d')
  then show ?case
    by (auto simp: generateAuthChallenge_def Let_def tbl_create_Inr spent_def new_nonce_def split: sum.splits)
next
  case (register abort now ids k1' key username d d')
  then show ?case
    unfolding spent_def bind_commit_Inr(5) [OF register(1)] by (auto simp: consume_nonce_def)
next
  case (purge scan now d deleted d')
  then have "auth_nonces d' = fst (purge_loop ck scan (now - PURGE_GRACE_MS) PURGE_MAX_BATCHES (auth_nonces d) 0)"
    by (auto simp: purgeExpired_def split: prod.splits)
  then have "set (auth_nonces d') \<subseteq> set (auth_nonces d)" by (simp add: purge_loop_subset)
  then show ?case using purge(2) by (rule spent_subset)
qed (simp add: spent_def)

text \<open>
  C4. A challenge registers at most one name. Once a registration with a challenge has committed,
  every later transaction with that challenge is refused as already used: whatever it read
  before, and whatever other registrations, new challenges, purges and username changes
  committed in between.
\<close>

theorem challenge_single_use:
  assumes "nonces_uniq ck d" and "bind_commit ck abort now ids k1 key username d = Inr d'"
    and "(auth_step ck k1)\<^sup>*\<^sup>* d' d''"
  shows "bind_commit ck None now2 ids2 k1 key2 username2 d'' = Inl (AuthReason ''k1 already used'')"
proof -
  have "spent ck k1 d''"
    using assms(3) bind_commit_spends [OF assms(1,2)]
    by (induction rule: rtranclp_induct) (auto intro: auth_step_spent)
  then show ?thesis by (rule spent_refuses)
qed

section \<open>What a registration does\<close>

lemma bind_checks_Inr:
  assumes "bind_checks ck L extra now k1 sig key rawUsername d = Inr username"
  shows "normalizeUsername rawUsername = Some username" "\<not> isReservedUsername username extra"
    "verifySignature L (HexMessage k1) sig key" "name_by_username ck username d = None"
    "\<forall>r\<in>set (lightning_names d). \<not> holds_key ck (equivalentPubKeyForms L key) r"
    "\<exists>n. nonce_by_k1 ck k1 d = Some n \<and> usedAt n = None \<and> now \<le> an_expiresAt n"
  using assms
  by (auto simp: bind_checks_def rejectReservedUsername_def rejectKeyWithActiveName_def find_None_iff
      split: option.splits if_splits)

lemma verifyAndBind_effect:
  assumes "verifyAndBindUsername ck L extra abort now now' ids k1 sig key rawUsername d = Inr d'"
  shows "\<exists>username nonces.
     normalizeUsername rawUsername = Some username \<and> \<not> isReservedUsername username extra
     \<and> verifySignature L (HexMessage k1) sig key
     \<and> name_by_username ck username d = None
     \<and> (\<forall>r\<in>set (lightning_names d). \<not> holds_key ck (equivalentPubKeyForms L key) r)
     \<and> name_by_username ck username d' = Some (new_name (snd ids) username (fst ids) key now')
     \<and> d' = d\<lparr>auth_nonces := nonces, users := users d @ [new_user (fst ids) now'],
              lightning_names := lightning_names d @ [new_name (snd ids) username (fst ids) key now']\<rparr>
     \<and> nonces = snd (consume_nonce ck k1 now' (auth_nonces d)) \<and> nonces \<noteq> auth_nonces d"
proof -
  from assms obtain u where c: "bind_checks ck L extra now k1 sig key rawUsername d = Inr u"
    and b: "bind_commit ck abort now' ids k1 key u d = Inr d'"
    by (auto simp: verifyAndBindUsername_def bind_result_Inr_iff)
  have us: "users d' = users d @ [new_user (fst ids) now']"
    using bind_commit_Inr(3) [OF b] by (simp add: tbl_create_Inr)
  have ns: "lightning_names d' = lightning_names d @ [new_name (snd ids) u (fst ids) key now']"
    using bind_commit_Inr(4) [OF b] by (simp add: tbl_create_Inr)
  have found: "name_by_username ck u d' = Some (new_name (snd ids) u (fst ids) key now')"
    using names_tbl.create_lookup [OF bind_commit_Inr(4) [OF b]] by (simp add: name_by_username_def new_name_def)
  have "filter (consumable ck k1 now') (auth_nonces d) \<noteq> []"
    using bind_commit_Inr(2) [OF b] by (auto simp del: filter_empty_conv)
  moreover have "filter (consumable ck k1 now') (snd (consume_nonce ck k1 now' (auth_nonces d))) = []"
    by (auto simp: consume_nonce_def consumable_def filter_empty_conv)
  ultimately have "snd (consume_nonce ck k1 now' (auth_nonces d)) \<noteq> auth_nonces d" by metis
  with bind_checks_Inr [OF c] bind_commit_Inr(5,6) [OF b] us ns found show ?thesis by metis
qed

text \<open>
  A registration that succeeds was entitled to: the key signed the challenge, the name is
  normalised, not reserved and was free, retired names included, and no active name was bound
  to the key in any of its encodings. It adds exactly one user and one active name bound to
  that key, and touches nothing else but the challenge, which is marked used.
\<close>

theorem registration_effect:
  assumes "verifyAndBindUsername ck L extra abort now now' ids k1 sig key rawUsername d = Inr d'"
  shows "\<exists>username nonces.
     normalizeUsername rawUsername = Some username \<and> \<not> isReservedUsername username extra
     \<and> verifySignature L (HexMessage k1) sig key
     \<and> name_by_username ck username d = None
     \<and> (\<forall>r\<in>set (lightning_names d). \<not> holds_key ck (equivalentPubKeyForms L key) r)
     \<and> name_by_username ck username d' = Some (new_name (snd ids) username (fst ids) key now')
     \<and> d' = d\<lparr>auth_nonces := nonces, users := users d @ [new_user (fst ids) now'],
              lightning_names := lightning_names d @ [new_name (snd ids) username (fst ids) key now']\<rparr>
     \<and> nonces = snd (consume_nonce ck k1 now' (auth_nonces d)) \<and> nonces \<noteq> auth_nonces d"
  using assms by (rule verifyAndBind_effect)

section \<open>Races between registrations\<close>

definition fresh_ids :: "collation \<Rightarrow> js_string \<times> js_string \<Rightarrow> db \<Rightarrow> bool" where
  "fresh_ids ck ids d \<longleftrightarrow> list_all (\<lambda>u. \<not> text_eq ck (user_id u) (fst ids)) (users d)
     \<and> list_all (\<lambda>r. \<not> text_eq ck (ln_id r) (snd ids)) (lightning_names d)"

definition may_consume :: "collation \<Rightarrow> js_string \<Rightarrow> time_ms \<Rightarrow> db \<Rightarrow> bool" where
  "may_consume ck k1 now d \<longleftrightarrow> length (filter (consumable ck k1 now) (auth_nonces d)) = 1"

lemma fresh_user_created:
  "fresh_ids ck ids d \<Longrightarrow>
     tbl_create ck user_ixs (new_user (fst ids) now) (users d) = Inr (users d @ [new_user (fst ids) now])"
  by (auto simp: fresh_ids_def tbl_create_Inr no_clash_def user_ixs_def clash_def row_key_def new_user_def
      text_eq_def list_all_iff)

text \<open>With a live challenge and fresh ids the outcome is that of the insert into the name table.\<close>

lemma bind_commit_insert:
  assumes "may_consume ck k1 now d" and "fresh_ids ck ids d"
  shows "bind_commit ck None now ids k1 key username d =
    (case tbl_create ck lightning_name_ixs (new_name (snd ids) username (fst ids) key now) (lightning_names d) of
       Inl e \<Rightarrow> Inl (bind_failure e)
     | Inr ns \<Rightarrow> Inr (d\<lparr>auth_nonces := snd (consume_nonce ck k1 now (auth_nonces d)),
                       users := users d @ [new_user (fst ids) now], lightning_names := ns\<rparr>))"
  using assms by (simp add: bind_commit_def consume_nonce_def may_consume_def fresh_user_created cong: sum.case_cong)

definition name_taken :: "collation \<Rightarrow> js_string \<Rightarrow> db \<Rightarrow> bool" where
  "name_taken ck u d \<longleftrightarrow> list_ex (\<lambda>r. text_eq ck (ln_username r) u) (lightning_names d)"

definition key_active :: "collation \<Rightarrow> js_string \<Rightarrow> db \<Rightarrow> bool" where
  "key_active ck key d \<longleftrightarrow> list_ex (\<lambda>r. holds_key ck [key] r) (lightning_names d)"

text \<open>Which index a fresh name violates decides the reason.\<close>

lemma name_insert:
  assumes "fresh_ids ck ids d"
  shows "tbl_create ck lightning_name_ixs (new_name (snd ids) username (fst ids) key now) (lightning_names d) =
    (if name_taken ck username d then Inl (P2002 ''lightning_names_username_key'')
     else if key_active ck key d then Inl (P2002 ''lightning_names_activePubKey_key'')
     else Inr (lightning_names d @ [new_name (snd ids) username (fst ids) key now]))"
proof -
  let ?r = "new_name (snd ids) username (fst ids) key now"
  have p: "\<not> list_ex (clash ck (''PRIMARY'', \<lambda>r. Some [Text (ln_id r)]) ?r) (lightning_names d)"
    using assms by (auto simp: fresh_ids_def list_ex_iff list_all_iff clash_def row_key_def new_name_def text_eq_def)
  have u: "clash ck (''lightning_names_username_key'', ln_username_key) ?r = (\<lambda>r. text_eq ck (ln_username r) username)"
    by (auto simp: fun_eq_iff clash_def row_key_def new_name_def text_eq_def ln_username_key_def)
  have k: "clash ck (''lightning_names_activePubKey_key'', \<lambda>r. map_option (\<lambda>p. [Text p]) (activePubKey r)) ?r
             = holds_key ck [key]"
    by (auto simp: fun_eq_iff holds_key_def clash_def row_key_def new_name_def text_eq_def split: option.splits)
  show ?thesis
    by (simp add: tbl_create_def violated_def lightning_name_ixs_def p u k name_taken_def key_active_def)
qed

lemma bind_failure_names [simp]:
  "bind_failure (P2002 ''lightning_names_username_key'') = AuthReason ''Username already taken''"
  "bind_failure (P2002 ''lightning_names_activePubKey_key'') = AuthReason ''Key already has a username''"
  by (simp_all add: bind_failure_def startsWith_def)

lemma bind_commit_outcome:
  assumes "may_consume ck k1 now d" and "fresh_ids ck ids d"
  shows "bind_commit ck None now ids k1 key username d =
    (if name_taken ck username d then Inl (AuthReason ''Username already taken'')
     else if key_active ck key d then Inl (AuthReason ''Key already has a username'')
     else Inr (d\<lparr>auth_nonces := snd (consume_nonce ck k1 now (auth_nonces d)),
                 users := users d @ [new_user (fst ids) now],
                 lightning_names := lightning_names d @ [new_name (snd ids) username (fst ids) key now]\<rparr>))"
  by (simp add: bind_commit_insert [OF assms] name_insert [OF assms(2)])

text \<open>
  C28. The loser of a race learns why. Whatever the checks of a request saw, its transaction on a
  live challenge has exactly three outcomes, decided by the store at commit time: the name is
  taken, by an active or a retired row; the key as written already carries an active name; or
  the registration is stored. After a competing registration of the same name or the same key
  it is one of the first two, never an internal error and never a second binding.
\<close>

theorem registration_race_outcome:
  assumes "bind_commit ck abort now ids k1 key username d = Inr d'"
    and "may_consume ck k1' now' d'" and "fresh_ids ck ids' d'"
    and "text_eq ck username username' \<or> text_eq ck key key'"
  shows "bind_commit ck None now' ids' k1' key' username' d' =
    Inl (AuthReason (if name_taken ck username' d' then ''Username already taken'' else ''Key already has a username''))
    \<and> (text_eq ck username username' \<longrightarrow> name_taken ck username' d')"
proof -
  have ns: "new_name (snd ids) username (fst ids) key now \<in> set (lightning_names d')"
    using bind_commit_Inr(4) [OF assms(1)] by (simp add: tbl_create_Inr)
  have "name_taken ck username' d'" if "text_eq ck username username'"
    using ns that unfolding name_taken_def list_ex_iff by (rule_tac bexI) (simp_all add: new_name_def)
  moreover have "key_active ck key' d'" if "text_eq ck key key'"
    using ns that unfolding key_active_def list_ex_iff by (rule_tac bexI) (simp_all add: new_name_def holds_key_def)
  ultimately show ?thesis
    using assms(4) by (auto simp: bind_commit_outcome [OF assms(2,3)])
qed

lemma consume_other:
  assumes "\<not> text_eq ck k1 k1'"
  shows "filter (consumable ck k1' now') (snd (consume_nonce ck k1 now t)) = filter (consumable ck k1' now') t"
  using assms by (induction t) (auto simp: consume_nonce_def consumable_def text_eq_def)

text \<open>
  C31. One key can end up with two active names. Take two registrations that use different
  challenges and names and two spellings of one key, its compressed and its uncompressed form.
  Run one after the other, the second is refused because the key has a name. But the test is
  a read before the transaction and the unique index compares spellings: when both requests
  pass their checks before either commits, both commits succeed, and the store holds two
  active names for the key.
\<close>

theorem key_encoding_race:
  assumes "bind_checks ck L extra now k1 sig key raw d = Inr u" and "bind_checks ck L extra now k1' sig' key' raw' d = Inr u'"
    and "may_consume ck k1 t d" "may_consume ck k1' t' d" "\<not> text_eq ck k1 k1'"
    and "fresh_ids ck ids d" "fresh_ids ck ids' d" "\<not> text_eq ck (fst ids) (fst ids')" "\<not> text_eq ck (snd ids) (snd ids')"
    and "\<not> text_eq ck u u'" "\<not> text_eq ck key key'" "\<not> key_active ck key d" "\<not> key_active ck key' d"
    and "list_ex (text_eq ck key) (equivalentPubKeyForms L key')"
  shows "\<exists>d1 d2. bind_commit ck None t ids k1 key u d = Inr d1
    \<and> rejectKeyWithActiveName ck L key' d1 = Inl (AuthReason ''Key already has a username'')
    \<and> bind_commit ck None t' ids' k1' key' u' d1 = Inr d2
    \<and> {new_name (snd ids) u (fst ids) key t, new_name (snd ids') u' (fst ids') key' t'} \<subseteq> set (lightning_names d2)"
proof -
  let ?n = "new_name (snd ids) u (fst ids) key t"
  let ?d1 = "d\<lparr>auth_nonces := snd (consume_nonce ck k1 t (auth_nonces d)), users := users d @ [new_user (fst ids) t],
               lightning_names := lightning_names d @ [?n]\<rparr>"
  have free: "\<not> name_taken ck u d" "\<not> name_taken ck u' d"
    using bind_checks_Inr(4) [OF assms(1)] bind_checks_Inr(4) [OF assms(2)]
    by (auto simp: name_by_username_def find_unique_def find_None_iff where_key_def row_key_def ln_username_key_def
        name_taken_def list_ex_iff text_eq_def)
  have one: "bind_commit ck None t ids k1 key u d = Inr ?d1"
    using free(1) assms(12) by (simp add: bind_commit_outcome [OF assms(3,6)])
  have "holds_key ck (equivalentPubKeyForms L key') ?n"
    using assms(14) by (simp add: holds_key_def new_name_def)
  then have "find (holds_key ck (equivalentPubKeyForms L key')) (lightning_names ?d1) \<noteq> None"
    by (simp add: find_append_Some split: option.splits)
  then have refused: "rejectKeyWithActiveName ck L key' ?d1 = Inl (AuthReason ''Key already has a username'')"
    by (auto simp: rejectKeyWithActiveName_def split: option.splits)
  have "may_consume ck k1' t' ?d1" using assms(4,5) by (simp add: may_consume_def consume_other)
  moreover have "fresh_ids ck ids' ?d1"
    using assms(7,8,9) by (simp add: fresh_ids_def new_user_def new_name_def)
  ultimately have "bind_commit ck None t' ids' k1' key' u' ?d1 =
    Inr (?d1\<lparr>auth_nonces := snd (consume_nonce ck k1' t' (auth_nonces ?d1)), users := users ?d1 @ [new_user (fst ids') t'],
             lightning_names := lightning_names ?d1 @ [new_name (snd ids') u' (fst ids') key' t']\<rparr>)"
    using free(2) assms(10,11,13)
    by (simp add: bind_commit_outcome name_taken_def key_active_def holds_key_def new_name_def)
  then obtain d2 where two: "bind_commit ck None t' ids' k1' key' u' ?d1 = Inr d2"
    and ns: "lightning_names d2 = lightning_names ?d1 @ [new_name (snd ids') u' (fst ids') key' t']" by simp
  show ?thesis
    by (rule exI [of _ ?d1], rule exI [of _ d2]) (use one refused two ns in simp)
qed

section \<open>The purge deletes exactly what is old\<close>

lemma nonces_distinct:
  assumes "uniq ck auth_nonce_ixs t"
  shows "distinct t"
proof -
  have "\<not> no_clash ck auth_nonce_ixs r r" for r
    by (simp add: no_clash_def auth_nonce_ixs_def clash_def row_key_def)
  then show ?thesis using assms by (induction t) (auto simp: uniq_def)
qed

lemma nonce_same_id:
  assumes "uniq ck auth_nonce_ixs t" "n \<in> set t" "n' \<in> set t" "text_eq ck (an_id n) (an_id n')"
  shows "n = n'"
  using assms
  by (intro uniq_clash_eq [of ck auth_nonce_ixs _ "(''PRIMARY'', \<lambda>r. Some [Text (an_id r)])"])
     (auto simp: auth_nonce_ixs_def clash_def row_key_def text_eq_def)

lemma delete_picked:
  assumes "uniq ck auth_nonce_ixs t" and "set picked \<subseteq> set t"
  shows "delete_ids ck (map an_id picked) t = filter (\<lambda>n. n \<notin> set picked) t"
proof -
  have "list_ex (text_eq ck (an_id n)) (map an_id picked) \<longleftrightarrow> n \<in> set picked" if "n \<in> set t" for n
    using nonce_same_id [OF assms(1) that] assms(2) by (auto simp: list_ex_iff text_eq_def)
  then show ?thesis unfolding delete_ids_def by (auto cong: filter_cong)
qed

lemma uniq_filter: "uniq ck ixs t \<Longrightarrow> uniq ck ixs (filter p t)"
  by (simp add: uniq_def sorted_wrt_filter)

lemma length_filter_out:
  assumes "distinct xs" and "set ys \<subseteq> set xs" and "distinct ys"
  shows "length (filter (\<lambda>x. x \<notin> set ys) xs) = length xs - length ys"
proof -
  have "length (filter (\<lambda>x. x \<notin> set ys) xs) = card (set xs - set ys)"
    using assms(1) by (simp add: distinct_length_filter set_diff_eq Int_def conj_commute)
  also have "\<dots> = length xs - length ys"
    using assms by (simp add: card_Diff_subset distinct_card)
  finally show ?thesis .
qed

lemma purge_batch:
  assumes u: "uniq ck auth_nonce_ixs t" and scan: "mset (scan t) = mset t"
  shows "length (batch_ids scan cutoff t) = min PURGE_BATCH_SIZE (length (filter (expired_before cutoff) t))"
    and "filter (\<lambda>n. \<not> expired_before cutoff n) (delete_ids ck (batch_ids scan cutoff t) t)
           = filter (\<lambda>n. \<not> expired_before cutoff n) t"
    and "length (filter (expired_before cutoff) (delete_ids ck (batch_ids scan cutoff t) t))
           = length (filter (expired_before cutoff) t) - PURGE_BATCH_SIZE"
proof -
  let ?e = "expired_before cutoff"
  let ?old = "filter ?e (scan t)"
  let ?picked = "take PURGE_BATCH_SIZE ?old"
  have m: "mset ?old = mset (filter ?e t)" using scan by simp
  then have len: "length ?old = length (filter ?e t)" by (metis size_mset)
  then show "length (batch_ids scan cutoff t) = min PURGE_BATCH_SIZE (length (filter ?e t))"
    by (simp add: batch_ids_def min.commute)
  have sub: "set ?picked \<subseteq> set (filter ?e t)" using set_take_subset mset_eq_setD [OF m] by fast
  have del: "delete_ids ck (batch_ids scan cutoff t) t = filter (\<lambda>n. n \<notin> set ?picked) t"
    unfolding batch_ids_def using sub by (intro delete_picked [OF u]) auto
  from sub show "filter (\<lambda>n. \<not> ?e n) (delete_ids ck (batch_ids scan cutoff t) t) = filter (\<lambda>n. \<not> ?e n) t"
    unfolding del filter_filter by (intro filter_cong) auto
  have "distinct (scan t)" using nonces_distinct [OF u] scan by (metis mset_eq_imp_distinct_iff)
  then have "distinct ?picked" by simp
  moreover have "distinct (filter ?e t)" using nonces_distinct [OF u] by simp
  ultimately have "length (filter (\<lambda>n. n \<notin> set ?picked) (filter ?e t)) = length (filter ?e t) - length ?picked"
    using sub by (rule_tac length_filter_out)
  then show "length (filter ?e (delete_ids ck (batch_ids scan cutoff t) t)) = length (filter ?e t) - PURGE_BATCH_SIZE"
    unfolding del using len by (simp add: conj_commute min_def)
qed

lemma purge_loop_exact:
  assumes "uniq ck auth_nonce_ixs t" and "\<And>t. mset (scan t) = mset t"
    and "purge_loop ck scan cutoff batches t deleted = (t', deleted')"
  shows "filter (\<lambda>n. \<not> expired_before cutoff n) t' = filter (\<lambda>n. \<not> expired_before cutoff n) t
    \<and> length (filter (expired_before cutoff) t') = length (filter (expired_before cutoff) t) - batches * PURGE_BATCH_SIZE
    \<and> deleted' + length t' = deleted + length t"
  using assms(1,3)
proof (induction batches arbitrary: t deleted)
  case (Suc batches)
  let ?e = "expired_before cutoff"
  let ?ids = "batch_ids scan cutoff t" let ?t = "delete_ids ck ?ids t"
  note b = purge_batch [OF Suc.prems(1), where scan = scan and cutoff = cutoff, OF assms(2)]
  have pos: "0 < PURGE_BATCH_SIZE" by (simp add: PURGE_BATCH_SIZE_def)
  have le: "length ?t \<le> length t" by (simp add: delete_ids_def)
  have u: "uniq ck auth_nonce_ixs ?t" using Suc.prems(1) by (simp add: delete_ids_def uniq_filter)
  consider (none) "?ids = []" | (last) "?ids \<noteq> []" "length ?ids < PURGE_BATCH_SIZE" | (full) "?ids \<noteq> []" "\<not> length ?ids < PURGE_BATCH_SIZE"
    by blast
  then show ?case
  proof cases
    case none
    with b(1) pos have "length (filter ?e t) = 0" by (simp add: min_def split: if_splits)
    with none Suc.prems(2) show ?thesis by simp
  next
    case last
    with b(1) have "length (filter ?e t) < PURGE_BATCH_SIZE" by simp
    with last Suc.prems(2) b(2,3) le show ?thesis by (auto simp: Let_def)
  next
    case full
    with Suc.prems(2) have "purge_loop ck scan cutoff batches ?t (deleted + (length t - length ?t)) = (t', deleted')"
      by (simp add: Let_def)
    from Suc.IH [OF u this] b(2,3) le show ?thesis by (simp add: diff_diff_add)
  qed
qed simp

text \<open>
  C32. A purge run deletes only challenges that expired more than an hour before it, whatever order
  the database returns rows in; it deletes all of them when there are at most a million,
  and otherwise a million of them; and the number it returns is the number of deleted rows.
\<close>

theorem purge_exact:
  assumes "nonces_uniq ck d" and "\<And>t. mset (scan t) = mset t"
    and "purgeExpired ck scan now d = (deleted, d')"
  shows "filter (\<lambda>n. now - 3600000 \<le> an_expiresAt n) (auth_nonces d') = filter (\<lambda>n. now - 3600000 \<le> an_expiresAt n) (auth_nonces d)
    \<and> length (filter (\<lambda>n. an_expiresAt n < now - 3600000) (auth_nonces d'))
        = length (filter (\<lambda>n. an_expiresAt n < now - 3600000) (auth_nonces d)) - 1000000
    \<and> deleted + length (auth_nonces d') = length (auth_nonces d)"
proof -
  have "purge_loop ck scan (now - PURGE_GRACE_MS) PURGE_MAX_BATCHES (auth_nonces d) 0 = (auth_nonces d', deleted)"
    using assms(3) by (auto simp: purgeExpired_def split: prod.splits)
  from purge_loop_exact [OF assms(1,2) this] show ?thesis
    by (simp add: expired_before_def [abs_def] PURGE_GRACE_MS_def PURGE_MAX_BATCHES_def PURGE_BATCH_SIZE_def not_less)
qed

section \<open>A concrete store\<close>

text \<open>Two live challenges, and one key in two encodings whose signatures verify.\<close>

definition demo_k1 :: "char \<Rightarrow> js_string" where "demo_k1 c = replicate 64 c"
definition demo_key_c :: js_string where "demo_key_c = replicate 66 (CHR ''a'')"
definition demo_key_u :: js_string where "demo_key_u = replicate 130 (CHR ''b'')"

definition demo_point :: secp_lib where
  "demo_point = \<lparr>secp_verify = (\<lambda>s m k. Some True), point_forms = (\<lambda>k. Some (demo_key_c, demo_key_u))\<rparr>"

definition demo_auth_db :: db where
  "demo_auth_db = empty_db\<lparr>auth_nonces :=
     [new_nonce ''n1'' (demo_k1 (CHR ''a'')) 0, new_nonce ''n2'' (demo_k1 (CHR ''b'')) 0]\<rparr>"

lemmas demo_auth_defs = demo_k1_def demo_key_c_def demo_key_u_def demo_point_def demo_auth_db_def new_nonce_def
  NONCE_TTL_MS_def empty_db_def

lemma demo_hex [simp]: "is_hex (CHR ''a'')" "is_hex (CHR ''b'')"
  by (simp_all add: is_hex_def code_in_def)

lemma demo_normal: "normalizeUsername ''x'' = Some ''x''" "normalizeUsername ''y'' = Some ''y''"
  by code_simp+

lemma demo_checks:
  "bind_checks id demo_point None 5 (demo_k1 (CHR ''a'')) ''ab'' demo_key_c ''x'' demo_auth_db = Inr ''x''"
  "bind_checks id demo_point None 5 (demo_k1 (CHR ''b'')) ''ab'' demo_key_u ''y'' demo_auth_db = Inr ''y''"
  by (simp_all add: bind_checks_def demo_normal nonce_by_k1_def text_eq_def hex_k1_def all_hex_def key_shape_def
      verifySignature_def list_all_iff rejectReservedUsername_def short_names_free rejectKeyWithActiveName_def
      name_by_username_def find_unique_def demo_auth_defs)

lemma demo_live: "may_consume id (demo_k1 (CHR ''a'')) 6 demo_auth_db" "may_consume id (demo_k1 (CHR ''b'')) 7 demo_auth_db"
  by (simp_all add: may_consume_def consumable_def text_eq_def demo_auth_defs)

lemma demo_fresh_ids: "fresh_ids id ids demo_auth_db"
  by (simp add: fresh_ids_def demo_auth_defs)

lemma demo_nonces_uniq: "nonces_uniq id demo_auth_db"
  by (simp add: uniq_def no_clash_def auth_nonce_ixs_def clash_def row_key_def demo_auth_defs)

lemma demo_no_names: "\<not> key_active id key demo_auth_db" "\<not> name_taken id u demo_auth_db"
  by (simp_all add: key_active_def name_taken_def demo_auth_defs)

definition demo_registered :: db where
  "demo_registered = demo_auth_db
     \<lparr>auth_nonces := snd (consume_nonce id (demo_k1 (CHR ''a'')) 6 (auth_nonces demo_auth_db)),
      users := [new_user ''u1'' 6], lightning_names := [new_name ''l1'' ''x'' ''u1'' demo_key_c 6]\<rparr>"

lemma demo_commit:
  "bind_commit id None 6 (''u1'', ''l1'') (demo_k1 (CHR ''a'')) demo_key_c ''x'' demo_auth_db = Inr demo_registered"
  using bind_commit_outcome [OF demo_live(1) demo_fresh_ids]
  by (simp add: demo_no_names demo_registered_def) (simp add: demo_auth_defs)

theorem challenge_single_use_witness:
  "bind_commit id None 9 (''u2'', ''l2'') (demo_k1 (CHR ''a'')) demo_key_u ''y'' demo_registered
     = Inl (AuthReason ''k1 already used'')"
  by (rule challenge_single_use [OF demo_nonces_uniq demo_commit rtranclp.rtrancl_refl])

theorem registration_effect_witness:
  "\<exists>d'. verifyAndBindUsername id demo_point None None 5 6 (''u1'', ''l1'') (demo_k1 (CHR ''a'')) ''ab'' demo_key_c ''x'' demo_auth_db = Inr d'
     \<and> users d' = [new_user ''u1'' 6]"
proof -
  obtain d' where ok: "verifyAndBindUsername id demo_point None None 5 6 (''u1'', ''l1'') (demo_k1 (CHR ''a'')) ''ab'' demo_key_c ''x'' demo_auth_db
      = Inr d'"
    by (simp add: verifyAndBindUsername_def demo_checks demo_commit)
  from registration_effect [OF ok] have "users d' = users demo_auth_db @ [new_user ''u1'' 6]" by auto
  with ok show ?thesis by (simp add: demo_auth_db_def empty_db_def)
qed

theorem registration_race_outcome_witness:
  "bind_commit id None 7 (''u2'', ''l2'') (demo_k1 (CHR ''b'')) demo_key_c ''y'' demo_registered
     = Inl (AuthReason ''Key already has a username'')"
proof -
  have "may_consume id (demo_k1 (CHR ''b'')) 7 demo_registered"
    by (simp add: demo_registered_def may_consume_def consume_nonce_def consumable_def text_eq_def demo_auth_defs)
  moreover have "fresh_ids id (''u2'', ''l2'') demo_registered"
    by (simp add: demo_registered_def fresh_ids_def text_eq_def new_user_def new_name_def)
  moreover have "\<not> name_taken id ''y'' demo_registered"
    by (simp add: demo_registered_def name_taken_def text_eq_def new_name_def)
  ultimately show ?thesis
    using registration_race_outcome [OF demo_commit, of "demo_k1 (CHR ''b'')" 7 "(''u2'', ''l2'')" "''y''" demo_key_c]
    by (simp add: text_eq_def)
qed

theorem key_encoding_race_witness:
  "\<exists>d1 d2. bind_commit id None 6 (''u1'', ''l1'') (demo_k1 (CHR ''a'')) demo_key_c ''x'' demo_auth_db = Inr d1
     \<and> bind_commit id None 7 (''u2'', ''l2'') (demo_k1 (CHR ''b'')) demo_key_u ''y'' d1 = Inr d2
     \<and> length (lightning_names d2) \<ge> 2"
proof -
  have forms: "list_ex (text_eq id demo_key_c) (equivalentPubKeyForms demo_point demo_key_u)"
    unfolding list_ex_iff equivalentPubKeyForms_set by (simp add: demo_point_def text_eq_def)
  have keys: "\<not> text_eq id demo_key_c demo_key_u"
    by (simp add: text_eq_def demo_key_c_def demo_key_u_def replicate_eq_replicate)
  have k1s: "\<not> text_eq id (demo_k1 (CHR ''a'')) (demo_k1 (CHR ''b''))"
    by (simp add: text_eq_def demo_k1_def replicate_eq_replicate)
  obtain d1 d2 where d: "bind_commit id None 6 (''u1'', ''l1'') (demo_k1 (CHR ''a'')) demo_key_c ''x'' demo_auth_db = Inr d1"
    "bind_commit id None 7 (''u2'', ''l2'') (demo_k1 (CHR ''b'')) demo_key_u ''y'' d1 = Inr d2"
    "{new_name ''l1'' ''x'' ''u1'' demo_key_c 6, new_name ''l2'' ''y'' ''u2'' demo_key_u 7} \<subseteq> set (lightning_names d2)"
    using key_encoding_race [OF demo_checks demo_live k1s, of "(''u1'', ''l1'')" "(''u2'', ''l2'')", OF demo_fresh_ids demo_fresh_ids]
      keys forms demo_no_names by (auto simp: text_eq_def)
  have "card {new_name ''l1'' ''x'' ''u1'' demo_key_c 6, new_name ''l2'' ''y'' ''u2'' demo_key_u 7} = 2"
    by (simp add: new_name_def)
  with card_mono [OF _ d(3)] have "2 \<le> length (lightning_names d2)"
    using card_length [of "lightning_names d2"] by simp
  with d show ?thesis by blast
qed

theorem purge_exact_witness:
  "fst (purgeExpired id id 4000000 demo_auth_db) + length (auth_nonces (snd (purgeExpired id id 4000000 demo_auth_db))) = 2"
proof -
  obtain n d' where p: "purgeExpired id id 4000000 demo_auth_db = (n, d')" by (cases "purgeExpired id id 4000000 demo_auth_db")
  from purge_exact [OF demo_nonces_uniq _ p] have "n + length (auth_nonces d') = length (auth_nonces demo_auth_db)" by simp
  with p show ?thesis by (simp add: demo_auth_db_def)
qed

end
