(* ===== verification/Username_Change.thy ===== *)
theory Username_Change
  imports Auth
begin

text \<open>
  Username changes, \<open>src/username/username.service.ts\<close>: the quota, claiming a new name,
  switching back to an owned one, and the support grant. A change reads the account, checks
  the name, and commits one transaction; each part is a definition of its own, and the step
  relation at the end interleaves the parts of any number of requests.
\<close>

section \<open>Reading an account\<close>

datatype username_error =
    InvalidUsername \<comment> \<open>400\<close>
  | SameUsername \<comment> \<open>400\<close>
  | UsernameReserved \<comment> \<open>400\<close>
  | ChangeLimitReached \<comment> \<open>409\<close>
  | UsernameTaken \<comment> \<open>409\<close>
  | ChangeInProgress \<comment> \<open>409\<close>
  | NoActiveUsername \<comment> \<open>404\<close>
  | BaseUrlMissing
  | BaseUrlInvalid
  | UsernameDbError db_error

definition DEFAULT_NEW_NAME_ALLOWANCE :: int where "DEFAULT_NEW_NAME_ALLOWANCE = 2"
definition MAX_GRANT_PER_CALL :: int where "MAX_GRANT_PER_CALL = 5"

record account_state =
  as_rows :: "LightningName list"
  as_active :: LightningName
  as_limit :: int

definition owned_rows :: "collation \<Rightarrow> js_string \<Rightarrow> db \<Rightarrow> LightningName list" where
  "owned_rows ck userId d = filter (\<lambda>r. text_eq ck (ln_userId r) userId) (lightning_names d)"

text \<open>\<open>orderBy: [{ active: 'desc' }, { createdAt: 'asc' }]\<close>.\<close>

definition order_rows :: "LightningName list \<Rightarrow> LightningName list" where
  "order_rows rs = sort_key ln_createdAt (filter ln_active rs) @ sort_key ln_createdAt (filter (\<lambda>r. \<not> ln_active r) rs)"

definition user_by_id :: "collation \<Rightarrow> js_string \<Rightarrow> db \<Rightarrow> User option" where
  "user_by_id ck userId d = find (\<lambda>u. text_eq ck (user_id u) userId) (users d)"

definition loadState :: "collation \<Rightarrow> js_string \<Rightarrow> db \<Rightarrow> username_error + account_state" where
  "loadState ck userId d =
     (case user_by_id ck userId d of
        None \<Rightarrow> Inl (UsernameDbError P2025)
      | Some user \<Rightarrow>
          (let rows = order_rows (owned_rows ck userId d) in
           case find ln_active rows of
             None \<Rightarrow> Inl NoActiveUsername
           | Some active \<Rightarrow>
               Inr \<lparr>as_rows = rows, as_active = active,
                    as_limit = DEFAULT_NEW_NAME_ALLOWANCE + bonusUsernameChanges user\<rparr>))"

record quota =
  changesUsed :: int
  changesLimit :: int
  changesRemaining :: int

definition buildQuota :: "nat \<Rightarrow> int \<Rightarrow> quota" where
  "buildQuota rows limit =
     (let used = max 0 (int rows - 1)
      in \<lparr>changesUsed = used, changesLimit = limit, changesRemaining = max 0 (limit - used)\<rparr>)"

text \<open>
  The public address of a name. The host name of a URL is the runtime's \<open>URL\<close> class, a parameter;
  \<open>None\<close> is a text that is not a URL.
\<close>

record base_url =
  bu_publicBaseUrl :: "js_string option"
  bu_hostname :: "js_string \<Rightarrow> js_string option"

definition getDomainFromBaseUrl :: "base_url \<Rightarrow> js_string \<Rightarrow> username_error + js_string" where
  "getDomainFromBaseUrl B url = (case bu_hostname B url of None \<Rightarrow> Inl BaseUrlInvalid | Some h \<Rightarrow> Inr h)"

definition toLightningAddress :: "base_url \<Rightarrow> js_string \<Rightarrow> username_error + js_string" where
  "toLightningAddress B username =
     (if \<not> truthy (bu_publicBaseUrl B) then Inl BaseUrlMissing
      else bind_result (getDomainFromBaseUrl B (the (bu_publicBaseUrl B))) (\<lambda>domain. Inr (username @ ''@'' @ domain)))"

record UsernameInfo =
  ui_quota :: quota
  ui_username :: js_string
  ui_lightningAddress :: js_string
  ui_history :: "(js_string \<times> bool \<times> time_ms) list"

definition getUsernameInfo :: "collation \<Rightarrow> base_url \<Rightarrow> js_string \<Rightarrow> db \<Rightarrow> username_error + UsernameInfo" where
  "getUsernameInfo ck B userId d =
     bind_result (loadState ck userId d) (\<lambda>st.
     bind_result (toLightningAddress B (ln_username (as_active st))) (\<lambda>address.
       Inr \<lparr>ui_quota = buildQuota (length (as_rows st)) (as_limit st),
            ui_username = ln_username (as_active st), ui_lightningAddress = address,
            ui_history = map (\<lambda>r. (ln_username r, ln_active r, ln_createdAt r)) (as_rows st)\<rparr>))"

section \<open>Changing the name: reads\<close>

record change_plan =
  cp_userId :: js_string
  cp_username :: js_string
  cp_state :: account_state
  cp_owned :: "LightningName option"

text \<open>Up to the quota test: everything that rests on the first read of the account.\<close>

definition change_load ::
  "collation \<Rightarrow> js_string option \<Rightarrow> js_string \<Rightarrow> js_string \<Rightarrow> db \<Rightarrow> username_error + change_plan" where
  "change_load ck extra userId rawUsername d =
     (case normalizeUsername rawUsername of
        None \<Rightarrow> Inl InvalidUsername
      | Some username \<Rightarrow>
          bind_result (loadState ck userId d) (\<lambda>st.
            if ln_username (as_active st) = username then Inl SameUsername
            else let owned = find (\<lambda>r. ln_username r = username) (as_rows st)
                 in if owned = None \<and> isReservedUsername username extra then Inl UsernameReserved
                    else if owned = None \<and> as_limit st \<le> int (length (as_rows st)) - 1 then Inl ChangeLimitReached
                    else Inr \<lparr>cp_userId = userId, cp_username = username, cp_state = st, cp_owned = owned\<rparr>))"

record ChangeUsernameResponse =
  cr_quota :: quota
  cr_username :: js_string
  cr_lightningAddress :: js_string
  cr_switchedBack :: bool

definition change_response :: "base_url \<Rightarrow> nat \<Rightarrow> int \<Rightarrow> js_string \<Rightarrow> bool \<Rightarrow> username_error + ChangeUsernameResponse" where
  "change_response B rows limit username switched =
     bind_result (toLightningAddress B username) (\<lambda>address.
       Inr \<lparr>cr_quota = buildQuota rows limit, cr_username = username, cr_lightningAddress = address,
            cr_switchedBack = switched\<rparr>)"

definition convergedResponse ::
  "collation \<Rightarrow> base_url \<Rightarrow> js_string \<Rightarrow> js_string \<Rightarrow> bool \<Rightarrow> db \<Rightarrow> username_error + ChangeUsernameResponse option" where
  "convergedResponse ck B userId username switched d =
     bind_result (loadState ck userId d) (\<lambda>st.
       if ln_username (as_active st) \<noteq> username then Inr None
       else map_sum id Some (change_response B (length (as_rows st)) (as_limit st) username switched))"

text \<open>The advisory lookup of a new name; \<open>Inr None\<close> lets the request go on.\<close>

definition claim_check ::
  "collation \<Rightarrow> base_url \<Rightarrow> change_plan \<Rightarrow> db \<Rightarrow> username_error + ChangeUsernameResponse option" where
  "claim_check ck B p d =
     (if cp_owned p \<noteq> None then Inr None
      else case name_by_username ck (cp_username p) d of
          None \<Rightarrow> Inr None
        | Some taken \<Rightarrow>
            bind_result
              (if ln_userId taken = cp_userId p then convergedResponse ck B (cp_userId p) (cp_username p) False d
               else Inr None)
              (\<lambda>converged. case converged of Some r \<Rightarrow> Inr (Some r) | None \<Rightarrow> Inl UsernameTaken))"

section \<open>Changing the name: the transaction\<close>

definition update_name ::
  "collation \<Rightarrow> js_string \<Rightarrow> (LightningName \<Rightarrow> LightningName) \<Rightarrow> LightningName list \<Rightarrow> db_error + LightningName list" where
  "update_name ck i f t =
     tbl_update ck lightning_name_ixs (where_key ck (\<lambda>r. Some [Text (ln_id r)]) [Text i]) f t"

definition claimed_name :: "js_string \<Rightarrow> change_plan \<Rightarrow> time_ms \<Rightarrow> LightningName" where
  "claimed_name nid p now =
     \<lparr>ln_id = nid, ln_username = cp_username p, ln_userId = cp_userId p,
      linkingPubKeyHex = linkingPubKeyHex (as_active (cp_state p)), ln_active = True,
      activePubKey = Some (linkingPubKeyHex (as_active (cp_state p))), ln_createdAt = now\<rparr>"

definition retire_name :: "LightningName \<Rightarrow> LightningName" where
  "retire_name r = r\<lparr>ln_active := False, activePubKey := None\<rparr>"

definition change_commit ::
  "collation \<Rightarrow> js_string \<Rightarrow> time_ms \<Rightarrow> change_plan \<Rightarrow> db \<Rightarrow> db_error + db" where
  "change_commit ck nid now p d =
     bind_result (update_name ck (ln_id (as_active (cp_state p))) retire_name (lightning_names d)) (\<lambda>t.
     bind_result
       (case cp_owned p of
          Some owned \<Rightarrow>
            update_name ck (ln_id owned)
              (\<lambda>r. r\<lparr>ln_active := True, activePubKey := Some (linkingPubKeyHex owned)\<rparr>) t
        | None \<Rightarrow>
            if user_by_id ck (cp_userId p) d = None then Inl P2003
            else tbl_create ck lightning_name_ixs (claimed_name nid p now) t)
       (\<lambda>t'. Inr (d\<lparr>lightning_names := t'\<rparr>)))"

text \<open>The kind of a database error; \<open>meta.target\<close> names the violated index.\<close>

definition isUniqueViolation :: "db_error \<Rightarrow> bool" where
  "isUniqueViolation e = (case e of P2002 _ \<Rightarrow> True | _ \<Rightarrow> False)"

definition isUniqueViolationOn :: "db_error \<Rightarrow> js_string \<Rightarrow> bool" where
  "isUniqueViolationOn e column =
     (case e of P2002 target \<Rightarrow> str_includes target column | _ \<Rightarrow> False)"

text \<open>After a failed transaction: the account is read again to see whether it converged.\<close>

definition change_conflict ::
  "collation \<Rightarrow> base_url \<Rightarrow> change_plan \<Rightarrow> db_error \<Rightarrow> db \<Rightarrow> username_error + ChangeUsernameResponse" where
  "change_conflict ck B p e d =
     (if \<not> isUniqueViolation e then Inl (UsernameDbError e)
      else bind_result (convergedResponse ck B (cp_userId p) (cp_username p) (cp_owned p \<noteq> None) d) (\<lambda>converged.
        case converged of
          Some r \<Rightarrow> Inr r
        | None \<Rightarrow>
            if isUniqueViolationOn e ''username'' then Inl UsernameTaken
            else if isUniqueViolationOn e ''activePubKey'' then Inl ChangeInProgress
            else Inl (UsernameDbError e)))"

definition change_success :: "base_url \<Rightarrow> change_plan \<Rightarrow> username_error + ChangeUsernameResponse" where
  "change_success B p =
     change_response B
       (if cp_owned p \<noteq> None then length (as_rows (cp_state p)) else Suc (length (as_rows (cp_state p))))
       (as_limit (cp_state p)) (cp_username p) (cp_owned p \<noteq> None)"

text \<open>
  The whole request when nothing else runs: the answer, and the store. An answer that cannot
  be built (no base URL) is an error although the change was stored.
\<close>

definition changeUsername ::
  "collation \<Rightarrow> base_url \<Rightarrow> js_string option \<Rightarrow> js_string \<Rightarrow> time_ms \<Rightarrow> js_string \<Rightarrow> js_string \<Rightarrow> db
   \<Rightarrow> (username_error + ChangeUsernameResponse) \<times> db" where
  "changeUsername ck B extra nid now userId rawUsername d =
     (case change_load ck extra userId rawUsername d of
        Inl e \<Rightarrow> (Inl e, d)
      | Inr p \<Rightarrow>
          (case claim_check ck B p d of
             Inl e \<Rightarrow> (Inl e, d)
           | Inr (Some r) \<Rightarrow> (Inr r, d)
           | Inr None \<Rightarrow>
               (case change_commit ck nid now p d of
                  Inl e \<Rightarrow> (change_conflict ck B p e d, d)
                | Inr d' \<Rightarrow> (change_success B p, d'))))"

section \<open>Support\<close>

definition resolveActiveByPubKey :: "collation \<Rightarrow> js_string \<Rightarrow> db \<Rightarrow> username_error + LightningName" where
  "resolveActiveByPubKey ck pubKeyHex d =
     (case find (\<lambda>r. text_eq ck (linkingPubKeyHex r) (toLowerCase pubKeyHex) \<and> ln_active r) (lightning_names d) of
        None \<Rightarrow> Inl NoActiveUsername
      | Some r \<Rightarrow> Inr r)"

definition getUsernameInfoByPubKey :: "collation \<Rightarrow> base_url \<Rightarrow> js_string \<Rightarrow> db \<Rightarrow> username_error + UsernameInfo" where
  "getUsernameInfoByPubKey ck B pubKeyHex d =
     bind_result (resolveActiveByPubKey ck pubKeyHex d) (\<lambda>active. getUsernameInfo ck B (ln_userId active) d)"

text \<open>\<open>GrantUsernameChangesDto\<close>: the bounds of the amount and a reason.\<close>

definition grant_dto_ok :: "int \<Rightarrow> js_string \<Rightarrow> bool" where
  "grant_dto_ok amount reason \<longleftrightarrow> 1 \<le> amount \<and> amount \<le> MAX_GRANT_PER_CALL \<and> reason \<noteq> []"

definition grantExtraChanges ::
  "collation \<Rightarrow> base_url \<Rightarrow> time_ms \<Rightarrow> js_string \<Rightarrow> int \<Rightarrow> db \<Rightarrow> (username_error + UsernameInfo) \<times> db" where
  "grantExtraChanges ck B now pubKeyHex amount d =
     (case resolveActiveByPubKey ck pubKeyHex d of
        Inl e \<Rightarrow> (Inl e, d)
      | Inr active \<Rightarrow>
          (case tbl_update ck user_ixs (where_key ck (\<lambda>u. Some [Text (user_id u)]) [Text (ln_userId active)])
                  (\<lambda>u. u\<lparr>bonusUsernameChanges := bonusUsernameChanges u + amount, user_updatedAt := now\<rparr>) (users d) of
             Inl e \<Rightarrow> (Inl (UsernameDbError e), d)
           | Inr us \<Rightarrow> (let d' = d\<lparr>users := us\<rparr> in (getUsernameInfo ck B (ln_userId active) d', d'))))"

section \<open>The invariant of the name table\<close>

definition same_name :: "LightningName \<Rightarrow> LightningName \<Rightarrow> bool" where
  "same_name r r' \<longleftrightarrow> ln_id r' = ln_id r \<and> ln_username r' = ln_username r \<and> ln_userId r' = ln_userId r
     \<and> linkingPubKeyHex r' = linkingPubKeyHex r \<and> ln_createdAt r' = ln_createdAt r"

definition mirror_ok :: "LightningName \<Rightarrow> bool" where
  "mirror_ok r \<longleftrightarrow> activePubKey r = (if ln_active r then Some (linkingPubKeyHex r) else None)"

definition names_ok :: "collation \<Rightarrow> js_string list \<Rightarrow> LightningName list \<Rightarrow> bool" where
  "names_ok ck uids t \<longleftrightarrow> uniq ck lightning_name_ixs t \<and> list_all mirror_ok t
     \<and> (\<forall>r\<in>set t. \<forall>r'\<in>set t. text_eq ck (ln_userId r) (ln_userId r') \<longrightarrow> linkingPubKeyHex r = linkingPubKeyHex r')
     \<and> (\<forall>r\<in>set t. \<exists>r'\<in>set t. text_eq ck (ln_userId r) (ln_userId r') \<and> ln_active r')
     \<and> (\<forall>r\<in>set t. \<exists>u\<in>set uids. text_eq ck u (ln_userId r))"

abbreviation accounts_ok :: "collation \<Rightarrow> db \<Rightarrow> bool" where
  "accounts_ok ck d \<equiv> names_ok ck (map user_id (users d)) (lightning_names d)"

lemma names_okD:
  assumes "names_ok ck uids t"
  shows "uniq ck lightning_name_ixs t" "r \<in> set t \<Longrightarrow> mirror_ok r"
    "r \<in> set t \<Longrightarrow> r' \<in> set t \<Longrightarrow> text_eq ck (ln_userId r) (ln_userId r') \<Longrightarrow> linkingPubKeyHex r = linkingPubKeyHex r'"
    "r \<in> set t \<Longrightarrow> \<exists>r'\<in>set t. text_eq ck (ln_userId r) (ln_userId r') \<and> ln_active r'"
    "r \<in> set t \<Longrightarrow> \<exists>u\<in>set uids. text_eq ck u (ln_userId r)"
  using assms by (auto simp: names_ok_def list_all_iff)

lemma same_name_refl [simp]: "same_name r r"
  by (simp add: same_name_def)

lemma same_name_trans: "same_name a b \<Longrightarrow> same_name b c \<Longrightarrow> same_name a c"
  by (simp add: same_name_def)

lemma text_eq_sym: "text_eq ck a b \<longleftrightarrow> text_eq ck b a"
  by (auto simp: text_eq_def)

lemma text_eq_trans: "text_eq ck a b \<Longrightarrow> text_eq ck b c \<Longrightarrow> text_eq ck a c"
  by (simp add: text_eq_def)

lemma ln_primary_in: "(''PRIMARY'', \<lambda>r. Some [Text (ln_id r)]) \<in> set lightning_name_ixs"
  by (simp add: lightning_name_ixs_def)

lemma ln_active_in: "(''lightning_names_activePubKey_key'', \<lambda>r. map_option (\<lambda>p. [Text p]) (activePubKey r)) \<in> set lightning_name_ixs"
  by (simp add: lightning_name_ixs_def)

lemma update_name_split:
  assumes "uniq ck lightning_name_ixs t" and "r \<in> set t" and "update_name ck (ln_id r) f t = Inr t'"
  shows "\<exists>xs ys. t = xs @ r # ys \<and> t' = xs @ f r # ys"
proof -
  from tbl_update_split [OF assms(1) ln_primary_in assms(3) [unfolded update_name_def]] obtain xs r0 ys where
    s: "t = xs @ r0 # ys" "t' = xs @ f r0 # ys" "\<forall>x\<in>set (xs @ ys). \<not> where_key ck (\<lambda>r. Some [Text (ln_id r)]) [Text (ln_id r)] x"
    by blast
  have "r \<notin> set (xs @ ys)" using s(3) by (auto simp: where_key_def row_key_def)
  with s assms(2) show ?thesis by auto
qed

lemma update_name_uniq:
  assumes "uniq ck lightning_name_ixs t" and "update_name ck i f t = Inr t'"
  shows "uniq ck lightning_name_ixs t'"
  using tbl_update_uniq [OF assms(1) ln_primary_in] assms(2) by (simp add: update_name_def)

text \<open>An account has one active name: the unique index on the mirror column leaves no room for two.\<close>

lemma active_unique:
  assumes ok: "names_ok ck uids t" and r: "r \<in> set t" "r' \<in> set t" "ln_active r" "ln_active r'"
    and u: "text_eq ck (ln_userId r) (ln_userId r')"
  shows "r = r'"
proof (rule uniq_clash_eq [OF names_okD(1) [OF ok] ln_active_in r(1,2)])
  show "clash ck (''lightning_names_activePubKey_key'', \<lambda>r. map_option (\<lambda>p. [Text p]) (activePubKey r)) r r'"
    using names_okD(2) [OF ok r(1)] names_okD(2) [OF ok r(2)] names_okD(3) [OF ok r(1,2) u] r(3,4)
    by (simp add: mirror_ok_def clash_def row_key_def)
qed

lemma name_distinct:
  assumes "uniq ck lightning_name_ixs t"
  shows "distinct t"
proof -
  have "\<not> no_clash ck lightning_name_ixs r r" for r
    by (simp add: no_clash_def lightning_name_ixs_def clash_def row_key_def)
  then show ?thesis using assms by (induction t) (auto simp: uniq_def)
qed

lemma one_active:
  assumes ok: "names_ok ck uids t" and r: "r \<in> set t"
  shows "length (filter (\<lambda>x. ln_active x \<and> text_eq ck (ln_userId x) (ln_userId r)) t) = 1"
proof -
  let ?P = "\<lambda>x. ln_active x \<and> text_eq ck (ln_userId x) (ln_userId r)"
  obtain a where a: "a \<in> set t" "text_eq ck (ln_userId r) (ln_userId a)" "ln_active a"
    using names_okD(4) [OF ok r] by blast
  have Pa: "?P a" using a by (simp add: text_eq_def)
  have only: "x = a" if "x \<in> set t" "?P x" for x
    using active_unique [OF ok that(1) a(1) _ a(3)] that(2) a(2) by (auto intro: text_eq_trans)
  have "{x \<in> set t. ?P x} = {a}" using a(1) Pa only by blast
  then have "set (filter ?P t) = {a}" by simp
  moreover have "length (filter ?P t) = card (set (filter ?P t))"
    using name_distinct [OF names_okD(1) [OF ok]] by (intro distinct_card [symmetric] distinct_filter)
  ultimately show ?thesis by simp
qed

section \<open>A commit keeps the invariant\<close>

text \<open>What a plan remembers of the store: rows that are still there, with the same identity.\<close>

definition plan_ok :: "collation \<Rightarrow> LightningName list \<Rightarrow> change_plan \<Rightarrow> bool" where
  "plan_ok ck t p \<longleftrightarrow>
     (\<exists>a\<in>set t. same_name a (as_active (cp_state p)) \<and> text_eq ck (ln_userId a) (cp_userId p))
     \<and> (\<forall>oo. cp_owned p = Some oo \<longrightarrow> (\<exists>b\<in>set t. same_name b oo \<and> text_eq ck (ln_userId b) (cp_userId p)))"

definition persists :: "LightningName list \<Rightarrow> LightningName list \<Rightarrow> bool" where
  "persists t t' \<longleftrightarrow> (\<forall>r\<in>set t. \<exists>r'\<in>set t'. same_name r r')"

lemma persists_refl [simp]: "persists t t"
  unfolding persists_def by (blast intro: same_name_refl)

lemma persists_trans: "persists t t' \<Longrightarrow> persists t' t'' \<Longrightarrow> persists t t''"
  unfolding persists_def by (meson same_name_trans)

lemma persists_middle: "same_name r r' \<Longrightarrow> persists (xs @ r # ys) (xs @ r' # ys)"
  unfolding persists_def by (metis Un_iff set_append list.set_intros same_name_refl set_ConsD)

lemma persists_append: "persists t (t @ [r])"
  unfolding persists_def by (metis Un_iff set_append same_name_refl)

lemma plan_persists:
  assumes "plan_ok ck t p" and "persists t t'"
  shows "plan_ok ck t' p"
proof -
  have move: "\<exists>b'\<in>set t'. same_name b' oo \<and> text_eq ck (ln_userId b') (cp_userId p)"
    if "b \<in> set t" "same_name b oo" "text_eq ck (ln_userId b) (cp_userId p)" for b oo
  proof -
    from assms(2) that(1) obtain b' where "b' \<in> set t'" "same_name b b'" by (auto simp: persists_def)
    with that(2,3) show ?thesis by (intro bexI [of _ b']) (simp_all add: same_name_def)
  qed
  from assms(1) show ?thesis unfolding plan_ok_def using move by blast
qed

lemma commit_shape:
  assumes ok: "names_ok ck uids (lightning_names d)" and pl: "plan_ok ck (lightning_names d) p"
    and c: "change_commit ck nid now p d = Inr d'"
  obtains a xs ys where "lightning_names d = xs @ a # ys" "same_name a (as_active (cp_state p))"
    "text_eq ck (ln_userId a) (cp_userId p)" "d' = d\<lparr>lightning_names := lightning_names d'\<rparr>"
    "uniq ck lightning_name_ixs (xs @ retire_name a # ys)"
    "(\<exists>oo b us vs. cp_owned p = Some oo \<and> xs @ retire_name a # ys = us @ b # vs \<and> same_name b oo
        \<and> text_eq ck (ln_userId b) (cp_userId p)
        \<and> lightning_names d' = us @ b\<lparr>ln_active := True, activePubKey := Some (linkingPubKeyHex b)\<rparr> # vs)
     \<or> (cp_owned p = None \<and> user_by_id ck (cp_userId p) d \<noteq> None
        \<and> lightning_names d' = (xs @ retire_name a # ys) @ [claimed_name nid p now])"
    "uniq ck lightning_name_ixs (lightning_names d')"
proof -
  from pl obtain a where a: "a \<in> set (lightning_names d)" "same_name a (as_active (cp_state p))"
    "text_eq ck (ln_userId a) (cp_userId p)" by (auto simp: plan_ok_def)
  have ida: "ln_id (as_active (cp_state p)) = ln_id a" using a(2) by (simp add: same_name_def)
  from c obtain t where t: "update_name ck (ln_id a) retire_name (lightning_names d) = Inr t"
    and t': "(case cp_owned p of
          Some owned \<Rightarrow> update_name ck (ln_id owned)
              (\<lambda>r. r\<lparr>ln_active := True, activePubKey := Some (linkingPubKeyHex owned)\<rparr>) t
        | None \<Rightarrow> if user_by_id ck (cp_userId p) d = None then Inl P2003
            else tbl_create ck lightning_name_ixs (claimed_name nid p now) t) = Inr (lightning_names d')"
    and d': "d' = d\<lparr>lightning_names := lightning_names d'\<rparr>"
    by (auto simp: change_commit_def bind_result_Inr_iff ida)
  from update_name_split [OF names_okD(1) [OF ok] a(1) t] obtain xs ys where
    sp: "lightning_names d = xs @ a # ys" "t = xs @ retire_name a # ys" by blast
  have ut: "uniq ck lightning_name_ixs t" by (rule update_name_uniq [OF names_okD(1) [OF ok] t])
  show thesis
  proof (cases "cp_owned p")
    case None
    with t' have cr: "tbl_create ck lightning_name_ixs (claimed_name nid p now) t = Inr (lightning_names d')"
      "user_by_id ck (cp_userId p) d \<noteq> None" by (auto split: if_splits)
    have u': "uniq ck lightning_name_ixs (lightning_names d')" using ut cr(1) by (rule tbl_create_uniq)
    show thesis
      by (rule that [OF sp(1) a(2,3) d' _ _ u']) (use ut sp(2) None cr in \<open>simp_all add: tbl_create_Inr\<close>)
  next
    case (Some oo)
    from pl Some obtain b where b: "b \<in> set (lightning_names d)" "same_name b oo" "text_eq ck (ln_userId b) (cp_userId p)"
      by (auto simp: plan_ok_def)
    have "\<exists>b'\<in>set t. same_name b' oo \<and> text_eq ck (ln_userId b') (cp_userId p)"
      using b sp by (cases "b = a") (auto simp: same_name_def retire_name_def)
    then obtain b' where b': "b' \<in> set t" "same_name b' oo" "text_eq ck (ln_userId b') (cp_userId p)" by blast
    have eq: "ln_id oo = ln_id b'" "linkingPubKeyHex oo = linkingPubKeyHex b'" using b'(2) by (simp_all add: same_name_def)
    from t' Some eq have up: "update_name ck (ln_id b') (\<lambda>r. r\<lparr>ln_active := True, activePubKey := Some (linkingPubKeyHex b')\<rparr>) t
      = Inr (lightning_names d')" by simp
    from update_name_split [OF ut b'(1) up] obtain us vs where
      "t = us @ b' # vs" "lightning_names d' = us @ b'\<lparr>ln_active := True, activePubKey := Some (linkingPubKeyHex b')\<rparr> # vs"
      by blast
    then show thesis
      by (intro that [OF sp(1) a(2,3) d' _ _ update_name_uniq [OF ut up]]) (use ut sp(2) Some b' in auto)
  qed
qed

text \<open>The middle of the table changes hands inside one account; everybody else keeps their rows.\<close>

lemma names_ok_replace:
  assumes ok: "names_ok ck uids t"
    and u: "uniq ck lightning_name_ixs t'" and m: "list_all mirror_ok t'"
    and old: "\<forall>r'\<in>set t'. (\<exists>r\<in>set t. same_name r r') \<or> (text_eq ck (ln_userId r') uid
                 \<and> (\<exists>r\<in>set t. text_eq ck (ln_userId r) uid \<and> linkingPubKeyHex r = linkingPubKeyHex r'))"
    and other: "\<forall>r\<in>set t. \<not> text_eq ck (ln_userId r) uid \<longrightarrow> r \<in> set t'"
    and act: "\<exists>r'\<in>set t'. text_eq ck (ln_userId r') uid \<and> ln_active r'"
    and usr: "\<exists>u\<in>set uids. text_eq ck u uid"
  shows "names_ok ck uids t'"
proof -
  have orig: "\<exists>r\<in>set t. text_eq ck (ln_userId r') (ln_userId r) \<and> linkingPubKeyHex r = linkingPubKeyHex r'"
    if "r' \<in> set t'" for r'
    using old [rule_format, OF that] unfolding same_name_def text_eq_def by metis
  have "linkingPubKeyHex r = linkingPubKeyHex r'"
    if r: "r \<in> set t'" "r' \<in> set t'" "text_eq ck (ln_userId r) (ln_userId r')" for r r'
  proof -
    obtain q q' where q: "q \<in> set t" "text_eq ck (ln_userId r) (ln_userId q)" "linkingPubKeyHex q = linkingPubKeyHex r"
      "q' \<in> set t" "text_eq ck (ln_userId r') (ln_userId q')" "linkingPubKeyHex q' = linkingPubKeyHex r'"
      using orig [OF r(1)] orig [OF r(2)] by blast
    have "text_eq ck (ln_userId q) (ln_userId q')" using q(2,5) r(3) by (simp add: text_eq_def)
    from names_okD(3) [OF ok q(1,4) this] q(3,6) show ?thesis by simp
  qed
  moreover have "\<exists>r'\<in>set t'. text_eq ck (ln_userId r) (ln_userId r') \<and> ln_active r'" if r: "r \<in> set t'" for r
  proof (cases "text_eq ck (ln_userId r) uid")
    case True
    with act show ?thesis unfolding text_eq_def by metis
  next
    case False
    obtain q where q: "q \<in> set t" "text_eq ck (ln_userId r) (ln_userId q)" using orig [OF r] by blast
    obtain q' where q': "q' \<in> set t" "text_eq ck (ln_userId q) (ln_userId q')" "ln_active q'"
      using names_okD(4) [OF ok q(1)] by blast
    have eq: "text_eq ck (ln_userId r) (ln_userId q')" using q(2) q'(2) by (simp add: text_eq_def)
    with False have "\<not> text_eq ck (ln_userId q') uid" by (simp add: text_eq_def)
    with other q' have "q' \<in> set t'" by blast
    with eq q'(3) show ?thesis by blast
  qed
  moreover have "\<exists>u\<in>set uids. text_eq ck u (ln_userId r)" if r: "r \<in> set t'" for r
  proof -
    obtain q where q: "q \<in> set t" "text_eq ck (ln_userId r) (ln_userId q)" using orig [OF r] by blast
    from names_okD(5) [OF ok q(1)] q(2) show ?thesis by (auto simp: text_eq_def)
  qed
  ultimately show ?thesis using u m by (auto simp: names_ok_def)
qed

lemma retire_same: "same_name r (retire_name r)" "mirror_ok (retire_name r)"
  by (simp_all add: same_name_def retire_name_def mirror_ok_def)

lemma activate_same:
  "same_name r (r\<lparr>ln_active := True, activePubKey := Some (linkingPubKeyHex r)\<rparr>)"
  "mirror_ok (r\<lparr>ln_active := True, activePubKey := Some (linkingPubKeyHex r)\<rparr>)"
  by (simp_all add: same_name_def mirror_ok_def)

lemma change_commit_ok:
  assumes ok: "accounts_ok ck d" and pl: "plan_ok ck (lightning_names d) p"
    and c: "change_commit ck nid now p d = Inr d'"
  shows "accounts_ok ck d' \<and> persists (lightning_names d) (lightning_names d')"
  using ok pl c
proof (cases rule: commit_shape)
  case (1 a xs ys)
  let ?t = "xs @ retire_name a # ys"
  have users: "users d' = users d" using 1(4) by (metis db.simps(9) db.surjective db.update_convs(2) db.select_convs(1))
  have a: "a \<in> set (lightning_names d)" using 1(1) by simp
  have usr: "\<exists>u\<in>set (map user_id (users d)). text_eq ck u (cp_userId p)"
    using names_okD(5) [OF ok a] 1(3) by (auto simp: text_eq_def)
  have mt: "list_all mirror_ok ?t"
    using ok 1(1) by (simp add: names_ok_def retire_same)
  have pt: "persists (lightning_names d) ?t" unfolding 1(1) by (rule persists_middle [OF retire_same(1)])
  from 1(6) show ?thesis
  proof (elim disjE exE conjE)
    fix oo b :: LightningName and us vs :: "LightningName list"
    let ?b = "b\<lparr>ln_active := True, activePubKey := Some (linkingPubKeyHex b)\<rparr>"
    assume b: "?t = us @ b # vs" "text_eq ck (ln_userId b) (cp_userId p)" "lightning_names d' = us @ ?b # vs"
    have "persists (lightning_names d) (us @ ?b # vs)"
      by (rule persists_trans [OF pt]) (simp only: b(1) persists_middle [OF activate_same(1)])
    moreover have "names_ok ck (map user_id (users d)) (us @ ?b # vs)"
    proof (rule names_ok_replace [OF ok _ _ _ _ _ usr])
      show "uniq ck lightning_name_ixs (us @ ?b # vs)" using 1(7) b(3) by simp
      show "list_all mirror_ok (us @ ?b # vs)" using mt unfolding b(1) by (simp add: activate_same(2))
      have old: "\<exists>r\<in>set (lightning_names d). same_name r x" if "x \<in> set ?t" for x
        using that 1(1) retire_same(1) by (auto intro: same_name_refl)
      have "\<exists>r\<in>set (lightning_names d). same_name r x" if "x \<in> set (us @ ?b # vs)" for x
      proof (cases "x = ?b")
        case True
        with old [of b] b(1) show ?thesis by (auto intro: same_name_trans [OF _ activate_same(1)])
      next
        case False
        with that have "x \<in> set ?t" unfolding b(1) by auto
        then show ?thesis by (rule old)
      qed
      then show "\<forall>r'\<in>set (us @ ?b # vs). (\<exists>r\<in>set (lightning_names d). same_name r r') \<or> (text_eq ck (ln_userId r') (cp_userId p)
                 \<and> (\<exists>r\<in>set (lightning_names d). text_eq ck (ln_userId r) (cp_userId p) \<and> linkingPubKeyHex r = linkingPubKeyHex r'))"
        by blast
      show "\<forall>r\<in>set (lightning_names d). \<not> text_eq ck (ln_userId r) (cp_userId p) \<longrightarrow> r \<in> set (us @ ?b # vs)"
      proof (intro ballI impI)
        fix r assume r: "r \<in> set (lightning_names d)" "\<not> text_eq ck (ln_userId r) (cp_userId p)"
        with 1(3) have "r \<noteq> a" by auto
        with r(1) have "r \<in> set ?t" unfolding 1(1) by auto
        moreover from r(2) b(2) have "r \<noteq> b" by auto
        ultimately show "r \<in> set (us @ ?b # vs)" unfolding b(1) by auto
      qed
      show "\<exists>r'\<in>set (us @ ?b # vs). text_eq ck (ln_userId r') (cp_userId p) \<and> ln_active r'"
        by (rule bexI [of _ ?b]) (use b(2) in simp_all)
    qed
    ultimately show ?thesis using b(3) users by simp
  next
    let ?n = "claimed_name nid p now"
    assume n: "lightning_names d' = ?t @ [?n]"
    have nu: "text_eq ck (ln_userId ?n) (cp_userId p)" "ln_active ?n" "mirror_ok ?n" "linkingPubKeyHex ?n = linkingPubKeyHex a"
      using 1(2) by (simp_all add: claimed_name_def text_eq_def mirror_ok_def same_name_def)
    have "names_ok ck (map user_id (users d)) (?t @ [?n])"
    proof (rule names_ok_replace [OF ok _ _ _ _ _ usr])
      show "uniq ck lightning_name_ixs (?t @ [?n])" using 1(7) n by simp
      show "list_all mirror_ok (?t @ [?n])" using mt nu(3) by simp
      show "\<forall>r'\<in>set (?t @ [?n]). (\<exists>r\<in>set (lightning_names d). same_name r r') \<or> (text_eq ck (ln_userId r') (cp_userId p)
                 \<and> (\<exists>r\<in>set (lightning_names d). text_eq ck (ln_userId r) (cp_userId p) \<and> linkingPubKeyHex r = linkingPubKeyHex r'))"
        using 1(1,3) nu retire_same(1) [of a] by (auto intro: same_name_refl)
      show "\<forall>r\<in>set (lightning_names d). \<not> text_eq ck (ln_userId r) (cp_userId p) \<longrightarrow> r \<in> set (?t @ [?n])"
        using 1(1,3) by auto
      show "\<exists>r'\<in>set (?t @ [?n]). text_eq ck (ln_userId r') (cp_userId p) \<and> ln_active r'"
        using nu by auto
    qed
    moreover have "persists (lightning_names d) (?t @ [?n])" by (rule persists_trans [OF pt persists_append])
    ultimately show ?thesis using n users by simp
  qed
qed

section \<open>Interleaved requests\<close>

text \<open>
  The state is the store and the requests in flight, each with what it read and whether it has
  passed the advisory check. A request reads the account, checks, and commits at any later
  time; registrations, grants and every operation that leaves the name table alone run in
  between. A request may also end early, with an answer or an error.
\<close>

type_synonym name_state = "db \<times> (change_plan \<times> bool) list"

inductive name_step :: "collation \<Rightarrow> name_state \<Rightarrow> name_state \<Rightarrow> bool" for ck where
  load: "change_load ck extra userId raw d = Inr p \<Longrightarrow> name_step ck (d, ps) (d, (p, False) # ps)"
| check: "(p, False) \<in> set ps \<Longrightarrow> claim_check ck B p d = Inr None
    \<Longrightarrow> name_step ck (d, ps) (d, (p, True) # remove1 (p, False) ps)"
| commit: "(p, True) \<in> set ps \<Longrightarrow> change_commit ck nid now p d = Inr d'
    \<Longrightarrow> name_step ck (d, ps) (d', remove1 (p, True) ps)"
| finish: "name_step ck (d, ps) (d, remove1 q ps)"
| register: "bind_commit ck abort now ids k1 key username d = Inr d' \<Longrightarrow> name_step ck (d, ps) (d', ps)"
| grant: "grantExtraChanges ck B now pubKey amount d = (out, d') \<Longrightarrow> name_step ck (d, ps) (d', ps)"
| other: "lightning_names d' = lightning_names d \<Longrightarrow> users d' = users d \<Longrightarrow> name_step ck (d, ps) (d', ps)"

definition state_inv :: "collation \<Rightarrow> name_state \<Rightarrow> bool" where
  "state_inv ck s \<longleftrightarrow> accounts_ok ck (fst s) \<and> (\<forall>(p, b)\<in>set (snd s). plan_ok ck (lightning_names (fst s)) p)"

lemma set_order_rows: "set (order_rows rs) = set rs"
  by (auto simp: order_rows_def)

lemma length_order_rows: "length (order_rows rs) = length rs"
  by (simp add: order_rows_def sum_length_filter_compl)

lemma loadState_Inr:
  assumes "loadState ck userId d = Inr st"
  shows "as_rows st = order_rows (owned_rows ck userId d)" "as_active st \<in> set (owned_rows ck userId d)"
    "ln_active (as_active st)"
    "\<exists>u. user_by_id ck userId d = Some u \<and> as_limit st = DEFAULT_NEW_NAME_ALLOWANCE + bonusUsernameChanges u"
proof -
  from assms obtain u where u: "user_by_id ck userId d = Some u"
    "find ln_active (order_rows (owned_rows ck userId d)) = Some (as_active st)"
    "as_rows st = order_rows (owned_rows ck userId d)" "as_limit st = DEFAULT_NEW_NAME_ALLOWANCE + bonusUsernameChanges u"
    by (auto simp: loadState_def Let_def split: option.splits)
  from u(2) have "as_active st \<in> set (order_rows (owned_rows ck userId d))" "ln_active (as_active st)"
    by (auto simp: find_Some_iff)
  with u show "as_rows st = order_rows (owned_rows ck userId d)" "as_active st \<in> set (owned_rows ck userId d)"
    "ln_active (as_active st)"
    "\<exists>u. user_by_id ck userId d = Some u \<and> as_limit st = DEFAULT_NEW_NAME_ALLOWANCE + bonusUsernameChanges u"
    by (auto simp: set_order_rows)
qed

lemma change_load_Inr:
  assumes "change_load ck extra userId raw d = Inr p"
  shows "loadState ck userId d = Inr (cp_state p)" "cp_userId p = userId" "normalizeUsername raw = Some (cp_username p)"
    "cp_owned p = find (\<lambda>r. ln_username r = cp_username p) (as_rows (cp_state p))"
    "cp_owned p = None \<Longrightarrow> int (length (as_rows (cp_state p))) - 1 < as_limit (cp_state p)"
    "ln_username (as_active (cp_state p)) \<noteq> cp_username p"
  using assms by (auto simp: change_load_def bind_result_Inr_iff Let_def split: option.splits if_splits)

lemma change_load_plan_ok:
  assumes "change_load ck extra userId raw d = Inr p"
  shows "plan_ok ck (lightning_names d) p"
proof -
  note l = change_load_Inr [OF assms]
  have "as_active (cp_state p) \<in> set (lightning_names d)" "text_eq ck (ln_userId (as_active (cp_state p))) userId"
    using loadState_Inr(2) [OF l(1)] by (auto simp: owned_rows_def)
  moreover have "oo \<in> set (lightning_names d) \<and> text_eq ck (ln_userId oo) userId" if "cp_owned p = Some oo" for oo
  proof -
    from that l(4) have "oo \<in> set (as_rows (cp_state p))" by (auto simp: find_Some_iff)
    then show ?thesis by (auto simp: loadState_Inr(1) [OF l(1)] set_order_rows owned_rows_def)
  qed
  ultimately show ?thesis unfolding plan_ok_def l(2) by (blast intro: same_name_refl)
qed

lemma bind_commit_accounts_ok:
  assumes ok: "accounts_ok ck d" and b: "bind_commit ck abort now ids k1 key username d = Inr d'"
  shows "accounts_ok ck d' \<and> persists (lightning_names d) (lightning_names d')"
proof -
  let ?n = "new_name (snd ids) username (fst ids) key now"
  have us: "users d' = users d @ [new_user (fst ids) now]"
    and free: "\<forall>u\<in>set (users d). \<not> text_eq ck (user_id u) (fst ids)"
    using bind_commit_Inr(3) [OF b]
    by (auto simp: tbl_create_Inr no_clash_def user_ixs_def clash_def row_key_def new_user_def text_eq_def)
  have ns: "lightning_names d' = lightning_names d @ [?n]"
    using bind_commit_Inr(4) [OF b] by (simp add: tbl_create_Inr)
  have new: "\<not> text_eq ck (ln_userId r) (fst ids)" if "r \<in> set (lightning_names d)" for r
    using names_okD(5) [OF ok that] free by (auto simp: text_eq_def)
  have n: "ln_userId ?n = fst ids" "ln_active ?n" "mirror_ok ?n" by (simp_all add: new_name_def mirror_ok_def)
  have "uniq ck lightning_name_ixs (lightning_names d @ [?n])"
    using tbl_create_uniq [OF names_okD(1) [OF ok] bind_commit_Inr(4) [OF b]] ns by simp
  moreover have "list_all mirror_ok (lightning_names d @ [?n])" using ok n by (simp add: names_ok_def)
  moreover have "linkingPubKeyHex r = linkingPubKeyHex r'"
    if "r \<in> set (lightning_names d @ [?n])" "r' \<in> set (lightning_names d @ [?n])" "text_eq ck (ln_userId r) (ln_userId r')" for r r'
    using that new [of r] new [of r'] names_okD(3) [OF ok, of r r'] n(1) by (auto simp: text_eq_def)
  moreover have "\<exists>r'\<in>set (lightning_names d @ [?n]). text_eq ck (ln_userId r) (ln_userId r') \<and> ln_active r'"
    if "r \<in> set (lightning_names d @ [?n])" for r
    using that names_okD(4) [OF ok, of r] n by (auto simp: text_eq_def)
  moreover have "\<exists>u\<in>set (map user_id (users d')). text_eq ck u (ln_userId r)" if "r \<in> set (lightning_names d @ [?n])" for r
    using that names_okD(5) [OF ok, of r] n us by (auto simp: text_eq_def new_user_def)
  ultimately show ?thesis unfolding ns names_ok_def using persists_append by blast
qed

lemma grant_keeps:
  assumes "grantExtraChanges ck B now pubKey amount d = (out, d')"
  shows "lightning_names d' = lightning_names d" "map user_id (users d') = map user_id (users d)"
  using assms
  by (auto simp: grantExtraChanges_def tbl_update_def Let_def comp_def split: sum.splits option.splits)

lemma name_step_inv:
  assumes "name_step ck s s'" and "state_inv ck s"
  shows "state_inv ck s' \<and> persists (lightning_names (fst s)) (lightning_names (fst s'))"
  using assms
proof (induction rule: name_step.induct)
  case (load extra userId raw d p ps)
  then show ?case by (auto simp: state_inv_def change_load_plan_ok)
next
  case (check p ps B d)
  then show ?case by (auto simp: state_inv_def dest: notin_set_remove1)
next
  case (commit p ps nid now d d')
  then have "plan_ok ck (lightning_names d) p" "accounts_ok ck d" by (auto simp: state_inv_def)
  from change_commit_ok [OF this(2,1) commit(2)] commit(3) show ?case
    by (auto simp: state_inv_def dest: notin_set_remove1 intro: plan_persists)
next
  case (finish d ps q)
  then show ?case by (auto simp: state_inv_def dest: notin_set_remove1)
next
  case (register abort now ids k1 key username d d' ps)
  then have "accounts_ok ck d" by (simp add: state_inv_def)
  from bind_commit_accounts_ok [OF this register(1)] register(2) show ?case
    by (auto simp: state_inv_def intro: plan_persists)
next
  case (grant B now pubKey amount d out d' ps)
  from grant_keeps [OF grant(1)] grant(2) show ?case by (simp add: state_inv_def)
next
  case (other d' d ps)
  then show ?case by (simp add: state_inv_def)
qed

lemma name_steps_inv:
  assumes "(name_step ck)\<^sup>*\<^sup>* s s'" and "state_inv ck s"
  shows "state_inv ck s' \<and> persists (lightning_names (fst s)) (lightning_names (fst s'))"
  using assms by (induction rule: rtranclp_induct) (auto dest: name_step_inv intro: persists_trans)

section \<open>Properties\<close>

text \<open>
  C1. Under any interleaving of username changes, registrations and grants, every account that has a
  name has exactly one active name, and the column behind the unique index mirrors the
  active flag: two racing changes never leave an account with two active names or with none.
\<close>

theorem one_active_name_always:
  assumes "accounts_ok ck d0" and "(name_step ck)\<^sup>*\<^sup>* (d0, []) (d, ps)" and "r \<in> set (lightning_names d)"
  shows "length (filter ln_active (owned_rows ck (ln_userId r) d)) = 1
    \<and> activePubKey r = (if ln_active r then Some (linkingPubKeyHex r) else None)"
proof -
  have ok: "accounts_ok ck d" using name_steps_inv [OF assms(2)] assms(1) by (simp add: state_inv_def)
  from one_active [OF this assms(3)] names_okD(2) [OF ok assms(3)] show ?thesis
    by (simp add: owned_rows_def conj_commute mirror_ok_def)
qed

text \<open>
  C2. A name never changes hands. Once a row for a name exists, every later store, under any
  interleaving, has exactly that row's identity for the name: the same account, the same key
  and the same claim date, whether the name is active or retired. Nobody else can ever take
  it.
\<close>

theorem name_never_released:
  assumes "accounts_ok ck d0" and "(name_step ck)\<^sup>*\<^sup>* (d0, []) (d, ps)" and "r0 \<in> set (lightning_names d0)"
  shows "\<exists>r\<in>set (lightning_names d). same_name r0 r
    \<and> (\<forall>r'\<in>set (lightning_names d). text_eq ck (ln_username r') (ln_username r0) \<longrightarrow> r' = r)"
proof -
  have inv: "accounts_ok ck d" "persists (lightning_names d0) (lightning_names d)"
    using name_steps_inv [OF assms(2)] assms(1) by (simp_all add: state_inv_def)
  then obtain r where r: "r \<in> set (lightning_names d)" "same_name r0 r" using assms(3) by (auto simp: persists_def)
  have "r' = r" if "r' \<in> set (lightning_names d)" "text_eq ck (ln_username r') (ln_username r0)" for r'
    using that r
    by (intro uniq_clash_eq [OF names_okD(1) [OF inv(1)], of "(''lightning_names_username_key'', ln_username_key)"])
       (auto simp: lightning_name_ixs_def clash_def row_key_def ln_username_key_def text_eq_def same_name_def)
  with r show ?thesis by blast
qed

text \<open>The rows of an account after a commit.\<close>

lemma owned_rows_middle:
  "length (filter P (xs @ r # ys)) = length (filter P (xs @ r' # ys))" if "P r = P r'" for P
  using that by simp

lemma change_commit_rows:
  assumes ok: "accounts_ok ck d" and pl: "plan_ok ck (lightning_names d) p"
    and ow: "\<And>oo. cp_owned p = Some oo \<Longrightarrow> ln_username oo = cp_username p"
    and c: "change_commit ck nid now p d = Inr d'"
  shows "users d' = users d"
    and "length (owned_rows ck uid d') = length (owned_rows ck uid d)
           + (if cp_owned p = None \<and> text_eq ck (cp_userId p) uid then 1 else 0)"
    and "\<exists>r\<in>set (lightning_names d'). text_eq ck (ln_userId r) (cp_userId p) \<and> ln_active r \<and> ln_username r = cp_username p"
proof -
  let ?P = "\<lambda>r. text_eq ck (ln_userId r) uid"
  have "users d' = users d
    \<and> length (owned_rows ck uid d') = length (owned_rows ck uid d)
           + (if cp_owned p = None \<and> text_eq ck (cp_userId p) uid then 1 else 0)
    \<and> (\<exists>r\<in>set (lightning_names d'). text_eq ck (ln_userId r) (cp_userId p) \<and> ln_active r \<and> ln_username r = cp_username p)"
    using ok pl c
  proof (cases rule: commit_shape)
    case (1 a xs ys)
    have users: "users d' = users d" by (subst 1(4)) simp
    have len: "length (filter ?P (lightning_names d)) = length (filter ?P (xs @ retire_name a # ys))"
      unfolding 1(1) by (rule owned_rows_middle) (simp add: retire_name_def)
    from 1(6) show ?thesis
    proof (elim disjE exE conjE)
      fix oo b :: LightningName and us vs :: "LightningName list"
      assume b: "cp_owned p = Some oo" "xs @ retire_name a # ys = us @ b # vs" "same_name b oo"
        "text_eq ck (ln_userId b) (cp_userId p)"
        "lightning_names d' = us @ b\<lparr>ln_active := True, activePubKey := Some (linkingPubKeyHex b)\<rparr> # vs"
      with ow [OF b(1)] users len show ?thesis by (simp add: owned_rows_def same_name_def)
    next
      assume "cp_owned p = None" "lightning_names d' = (xs @ retire_name a # ys) @ [claimed_name nid p now]"
      with users len show ?thesis by (simp add: owned_rows_def claimed_name_def text_eq_def)
    qed
  qed
  then show "users d' = users d"
    "length (owned_rows ck uid d') = length (owned_rows ck uid d)
           + (if cp_owned p = None \<and> text_eq ck (cp_userId p) uid then 1 else 0)"
    "\<exists>r\<in>set (lightning_names d'). text_eq ck (ln_userId r) (cp_userId p) \<and> ln_active r \<and> ln_username r = cp_username p"
    by blast+
qed

lemma loadState_active:
  assumes ok: "accounts_ok ck d" and u: "user_by_id ck userId d = Some u"
    and r: "r \<in> set (lightning_names d)" "text_eq ck (ln_userId r) userId" "ln_active r"
  shows "loadState ck userId d = Inr \<lparr>as_rows = order_rows (owned_rows ck userId d), as_active = r,
           as_limit = DEFAULT_NEW_NAME_ALLOWANCE + bonusUsernameChanges u\<rparr>"
proof -
  let ?rows = "order_rows (owned_rows ck userId d)"
  have "r \<in> set ?rows" using r by (simp add: set_order_rows owned_rows_def)
  then obtain a where a: "find ln_active ?rows = Some a" using r(3) by (cases "find ln_active ?rows") (auto simp: find_None_iff)
  then have "a \<in> set ?rows" "ln_active a" by (auto simp: find_Some_iff)
  then have "a = r"
    using r by (intro active_unique [OF ok]) (auto simp: set_order_rows owned_rows_def text_eq_def)
  with a u show ?thesis by (simp add: loadState_def)
qed

definition within_quota :: "collation \<Rightarrow> js_string \<Rightarrow> db \<Rightarrow> bool" where
  "within_quota ck userId d =
     (case user_by_id ck userId d of
        None \<Rightarrow> True
      | Some u \<Rightarrow> int (length (owned_rows ck userId d)) - 1 \<le> DEFAULT_NEW_NAME_ALLOWANCE + bonusUsernameChanges u)"

text \<open>The store after a request that ran alone.\<close>

lemma changeUsername_cases:
  assumes "changeUsername ck B extra nid now userId raw d = (out, d')"
  obtains (unchanged) "d' = d"
    | (committed) p where "change_load ck extra userId raw d = Inr p" "claim_check ck B p d = Inr None"
        "change_commit ck nid now p d = Inr d'" "out = change_success B p"
  using assms by (auto simp: changeUsername_def split: sum.splits option.splits)

lemma plan_owned_username:
  "change_load ck extra userId raw d = Inr p \<Longrightarrow> cp_owned p = Some oo \<Longrightarrow> ln_username oo = cp_username p"
  using change_load_Inr(4) [of ck extra userId raw d p] by (auto simp: find_Some_iff)

text \<open>
  C33. A change that runs alone never exceeds the quota: if every account has claimed at most its
  allowance of new names, then this still holds after the request, whatever it asked for and
  whoever asked. Switching back to an owned name claims nothing.
\<close>

theorem change_keeps_quota:
  assumes "accounts_ok ck d" and "within_quota ck uid d"
    and "changeUsername ck B extra nid now userId raw d = (out, d')"
  shows "within_quota ck uid d'"
  using assms(3)
proof (cases rule: changeUsername_cases)
  case (committed p)
  note pl = change_load_plan_ok [OF committed(1)] and l = change_load_Inr [OF committed(1)]
  note rows = change_commit_rows [OF assms(1) pl plan_owned_username [OF committed(1)] committed(3)]
  have user: "user_by_id ck i d' = user_by_id ck i d" for i using rows(1) by (simp add: user_by_id_def)
  show ?thesis
  proof (cases "cp_owned p = None \<and> text_eq ck userId uid")
    case True
    have same: "owned_rows ck uid d = owned_rows ck userId d" "user_by_id ck uid d = user_by_id ck userId d"
      using True by (simp_all add: owned_rows_def user_by_id_def text_eq_def)
    from l(5) True have "int (length (as_rows (cp_state p))) - 1 < as_limit (cp_state p)" by simp
    then have "\<exists>u. user_by_id ck userId d = Some u
        \<and> int (length (owned_rows ck userId d)) - 1 < DEFAULT_NEW_NAME_ALLOWANCE + bonusUsernameChanges u"
      using loadState_Inr(1,4) [OF l(1)] by (auto simp: length_order_rows)
    then show ?thesis using rows(2) [of uid] True same l(2) user by (auto simp: within_quota_def)
  next
    case False
    then have "length (owned_rows ck uid d') = length (owned_rows ck uid d)" using rows(2) [of uid] l(2) by simp
    with assms(2) user show ?thesis by (simp add: within_quota_def split: option.splits)
  qed
qed (use assms(2) in simp)

lemma map_sum_Some: "map_sum id Some x = Inr (Some r) \<longleftrightarrow> x = Inr r"
  by (cases x) simp_all

text \<open>
  A successful answer tells the truth. After a request that ran alone and was answered with
  success, the account's active name is the requested one in normal form, and the answer's
  quota is the one that reading the account now yields.
\<close>

theorem change_answer_matches_store:
  assumes ok: "accounts_ok ck d" and ch: "changeUsername ck B extra nid now userId raw d = (Inr resp, d')"
  shows "\<exists>st. loadState ck userId d' = Inr st \<and> normalizeUsername raw = Some (cr_username resp)
    \<and> ln_username (as_active st) = cr_username resp
    \<and> cr_quota resp = buildQuota (length (as_rows st)) (as_limit st)"
proof -
  have resp: "cr_username r = u \<and> cr_quota r = buildQuota n l" if "change_response B n l u sw = Inr r" for r n l u sw
    using that by (auto simp: change_response_def bind_result_Inr_iff)
  have conv: "\<exists>st. loadState ck userId d = Inr st \<and> ln_username (as_active st) = u \<and> cr_username r = u
      \<and> cr_quota r = buildQuota (length (as_rows st)) (as_limit st)"
    if "convergedResponse ck B userId u sw d = Inr (Some r)" for r u sw
  proof -
    from that obtain st where st: "loadState ck userId d = Inr st" "ln_username (as_active st) = u"
      "change_response B (length (as_rows st)) (as_limit st) u sw = Inr r"
      by (auto simp: convergedResponse_def bind_result_Inr_iff map_sum_Some split: if_splits)
    with resp [OF st(3)] show ?thesis by blast
  qed
  from ch obtain p where p: "change_load ck extra userId raw d = Inr p"
    by (auto simp: changeUsername_def split: sum.splits)
  note l = change_load_Inr [OF p]
  consider (early) sw where "d' = d" "convergedResponse ck B userId (cp_username p) sw d = Inr (Some resp)"
    | (committed) "change_commit ck nid now p d = Inr d'" "change_success B p = Inr resp"
    using ch p l(2)
    by (auto simp: changeUsername_def claim_check_def change_conflict_def bind_result_Inr_iff
        split: sum.splits option.splits if_splits db_error.splits)
  then show ?thesis
  proof cases
    case early
    from conv [OF early(2)] early(1) l(3) show ?thesis by auto
  next
    case committed
    note rows = change_commit_rows [OF ok change_load_plan_ok [OF p] plan_owned_username [OF p] committed(1)]
    obtain u where u: "user_by_id ck userId d' = Some u" "as_limit (cp_state p) = DEFAULT_NEW_NAME_ALLOWANCE + bonusUsernameChanges u"
      using loadState_Inr(4) [OF l(1)] rows(1) by (auto simp: user_by_id_def)
    obtain r where r: "r \<in> set (lightning_names d')" "text_eq ck (ln_userId r) userId" "ln_active r" "ln_username r = cp_username p"
      using rows(3) l(2) by auto
    have ok': "accounts_ok ck d'" using change_commit_ok [OF ok change_load_plan_ok [OF p] committed(1)] by simp
    have len: "length (owned_rows ck userId d') =
      (if cp_owned p \<noteq> None then length (as_rows (cp_state p)) else Suc (length (as_rows (cp_state p))))"
      using rows(2) [of userId] l(2) loadState_Inr(1) [OF l(1)] by (simp add: length_order_rows text_eq_def)
    from resp [OF committed(2) [unfolded change_success_def]] len u(2) r(4) l(3) show ?thesis
      by (simp add: loadState_active [OF ok' u(1) r(1,2,3)] length_order_rows)
  qed
qed

section \<open>A concrete account\<close>

text \<open>One user with an active name and a retired one, so one claim is left of the default two.\<close>

definition demo_row :: "js_string \<Rightarrow> js_string \<Rightarrow> bool \<Rightarrow> time_ms \<Rightarrow> LightningName" where
  "demo_row i u act t = \<lparr>ln_id = i, ln_username = u, ln_userId = ''u1'', linkingPubKeyHex = ''k'', ln_active = act,
     activePubKey = (if act then Some ''k'' else None), ln_createdAt = t\<rparr>"

definition demo_account :: db where
  "demo_account = empty_db\<lparr>users := [new_user ''u1'' 0], lightning_names := [demo_row ''l1'' ''w'' False 1, demo_row ''l2'' ''x'' True 2]\<rparr>"

definition demo_state :: account_state where
  "demo_state = \<lparr>as_rows = [demo_row ''l2'' ''x'' True 2, demo_row ''l1'' ''w'' False 1], as_active = demo_row ''l2'' ''x'' True 2, as_limit = 2\<rparr>"

definition demo_claim :: "js_string \<Rightarrow> change_plan" where
  "demo_claim u = \<lparr>cp_userId = ''u1'', cp_username = u, cp_state = demo_state, cp_owned = None\<rparr>"

definition demo_base :: base_url where
  "demo_base = \<lparr>bu_publicBaseUrl = Some ''h'', bu_hostname = (\<lambda>u. Some u)\<rparr>"

definition demo_account_y :: db where
  "demo_account_y = demo_account\<lparr>lightning_names :=
     [demo_row ''l1'' ''w'' False 1, demo_row ''l2'' ''x'' False 2, demo_row ''l3'' ''y'' True 3]\<rparr>"

definition demo_back :: change_plan where
  "demo_back = \<lparr>cp_userId = ''u1'', cp_username = ''x'',
     cp_state = \<lparr>as_rows = [demo_row ''l3'' ''y'' True 3, demo_row ''l1'' ''w'' False 1, demo_row ''l2'' ''x'' False 2],
                as_active = demo_row ''l3'' ''y'' True 3, as_limit = 2\<rparr>,
     cp_owned = Some (demo_row ''l2'' ''x'' False 2)\<rparr>"

definition demo_account_back :: db where
  "demo_account_back = demo_account\<lparr>lightning_names :=
     [demo_row ''l1'' ''w'' False 1, demo_row ''l2'' ''x'' True 2, demo_row ''l3'' ''y'' False 3]\<rparr>"

definition demo_account_over :: db where
  "demo_account_over = demo_account\<lparr>lightning_names :=
     [demo_row ''l1'' ''w'' False 1, demo_row ''l2'' ''x'' False 2, demo_row ''l3'' ''y'' False 3, demo_row ''l4'' ''z'' True 4]\<rparr>"

lemma demo_loads:
  "change_load id None ''u1'' ''y'' demo_account = Inr (demo_claim ''y'')"
  "change_load id None ''u1'' ''z'' demo_account = Inr (demo_claim ''z'')"
  "change_load id None ''u1'' ''x'' demo_account_y = Inr demo_back"
  by code_simp+

lemma demo_claims_free:
  "claim_check id demo_base (demo_claim ''y'') demo_account = Inr None"
  "claim_check id demo_base (demo_claim ''z'') demo_account = Inr None"
  "claim_check id demo_base demo_back demo_account_y = Inr None"
  by code_simp+

lemma demo_commits:
  "change_commit id ''l3'' 3 (demo_claim ''y'') demo_account = Inr demo_account_y"
  "change_commit id ''n'' 3 demo_back demo_account_y = Inr demo_account_back"
  "change_commit id ''l4'' 4 (demo_claim ''z'') demo_account_back = Inr demo_account_over"
  by code_simp+

text \<open>
  C34. Concurrency exceeds the quota. Two claims of one account pass the quota test on the same
  read; the first commits; a switch back to the old name, which is free, makes the row that
  the second claim remembers active again; so the second commit meets no conflict and is
  stored as well. The account has claimed three new names with an allowance of two. Each step
  is a step of the service, and the same four requests one after the other would refuse the
  last one.
\<close>

theorem quota_race:
  "\<exists>d ps. (name_step id)\<^sup>*\<^sup>* (demo_account, []) (d, ps) \<and> within_quota id ''u1'' demo_account
     \<and> \<not> within_quota id ''u1'' d
     \<and> changeUsername id demo_base None ''l4'' 4 ''u1'' ''z'' demo_account_back = (Inl ChangeLimitReached, demo_account_back)"
proof -
  let ?y = "demo_claim ''y''" and ?z = "demo_claim ''z''"
  have s1: "name_step id (demo_account, []) (demo_account, [(?y, False)])"
    by (rule name_step.load [OF demo_loads(1)])
  have s2: "name_step id (demo_account, [(?y, False)]) (demo_account, [(?z, False), (?y, False)])"
    by (rule name_step.load [OF demo_loads(2)])
  have s3: "name_step id (demo_account, [(?z, False), (?y, False)]) (demo_account, [(?z, True), (?y, False)])"
    using name_step.check [OF _ demo_claims_free(2), of "[(?z, False), (?y, False)]"] by simp
  have s4: "name_step id (demo_account, [(?z, True), (?y, False)]) (demo_account, [(?y, True), (?z, True)])"
    using name_step.check [OF _ demo_claims_free(1), of "[(?z, True), (?y, False)]"] by simp
  have s5: "name_step id (demo_account, [(?y, True), (?z, True)]) (demo_account_y, [(?z, True)])"
    using name_step.commit [OF _ demo_commits(1), of "[(?y, True), (?z, True)]"] by simp
  have s6: "name_step id (demo_account_y, [(?z, True)]) (demo_account_y, [(demo_back, False), (?z, True)])"
    by (rule name_step.load [OF demo_loads(3)])
  have s7: "name_step id (demo_account_y, [(demo_back, False), (?z, True)]) (demo_account_y, [(demo_back, True), (?z, True)])"
    using name_step.check [OF _ demo_claims_free(3), of "[(demo_back, False), (?z, True)]"] by simp
  have s8: "name_step id (demo_account_y, [(demo_back, True), (?z, True)]) (demo_account_back, [(?z, True)])"
    using name_step.commit [OF _ demo_commits(2), of "[(demo_back, True), (?z, True)]"] by simp
  have s9: "name_step id (demo_account_back, [(?z, True)]) (demo_account_over, [])"
    using name_step.commit [OF _ demo_commits(3), of "[(?z, True)]"] by simp
  have "(name_step id)\<^sup>*\<^sup>* (demo_account, []) (demo_account_over, [])"
    using s1 s2 s3 s4 s5 s6 s7 s8 s9 by (meson converse_rtranclp_into_rtranclp rtranclp.rtrancl_refl)
  moreover have "within_quota id ''u1'' demo_account" "\<not> within_quota id ''u1'' demo_account_over"
    by code_simp+
  moreover have "changeUsername id demo_base None ''l4'' 4 ''u1'' ''z'' demo_account_back = (Inl ChangeLimitReached, demo_account_back)"
    by code_simp
  ultimately show ?thesis by blast
qed

lemma demo_accounts_ok: "accounts_ok id demo_account"
  by (simp add: names_ok_def demo_account_def demo_row_def new_user_def empty_db_def mirror_ok_def uniq_def no_clash_def
      lightning_name_ixs_def clash_def row_key_def ln_username_key_def text_eq_def)

lemma demo_change:
  "changeUsername id demo_base None ''l3'' 3 ''u1'' ''y'' demo_account = (change_success demo_base (demo_claim ''y''), demo_account_y)"
  by (simp add: changeUsername_def demo_loads demo_claims_free demo_commits)

theorem one_active_name_always_witness:
  "length (filter ln_active (owned_rows id ''u1'' demo_account)) = 1"
  using one_active_name_always [OF demo_accounts_ok rtranclp.rtrancl_refl, of "demo_row ''l2'' ''x'' True 2"]
  by (simp add: demo_account_def demo_row_def)

theorem name_never_released_witness:
  "\<exists>r\<in>set (lightning_names demo_account). same_name (demo_row ''l1'' ''w'' False 1) r"
  using name_never_released [OF demo_accounts_ok rtranclp.rtrancl_refl, of "demo_row ''l1'' ''w'' False 1"]
  by (auto simp: demo_account_def)

theorem change_keeps_quota_witness: "within_quota id ''u1'' demo_account_y"
proof (rule change_keeps_quota [OF demo_accounts_ok _ demo_change])
  show "within_quota id ''u1'' demo_account" by code_simp
qed

theorem change_answer_matches_store_witness:
  "\<exists>st. loadState id ''u1'' demo_account_y = Inr st \<and> ln_username (as_active st) = ''y''"
proof -
  obtain resp where r: "change_success demo_base (demo_claim ''y'') = Inr resp" "cr_username resp = ''y''"
    by (simp add: change_success_def change_response_def toLightningAddress_def getDomainFromBaseUrl_def demo_base_def demo_claim_def)
  have "changeUsername id demo_base None ''l3'' 3 ''u1'' ''y'' demo_account = (Inr resp, demo_account_y)"
    using demo_change r(1) by simp
  from change_answer_matches_store [OF demo_accounts_ok this] r(2) show ?thesis by auto
qed

end
