(* ===== verification/Ops.thy ===== *)
theory Ops
  imports Refund_Case Username_Change
begin

text \<open>
  The endpoints of operations and of preferences: \<open>src/refund-case/internal-ops.guard.ts\<close>, the
  controllers that it guards (\<open>src/refund-case/refund-case.controller.ts\<close> and
  \<open>src/username/username-ops.controller.ts\<close>), and
  \<open>src/currency-preference/currency-preference.service.ts\<close>.
\<close>

section \<open>The guard\<close>

type_synonym ops_token = "buffer option"

definition ops_constructor :: "js_string option \<Rightarrow> ops_token" where
  "ops_constructor configured = (if truthy configured then map_option utf8_bytes configured else None)"

definition ops_canActivate :: "ops_token \<Rightarrow> js_string option \<Rightarrow> js_string + unit" where
  "ops_canActivate tokenBuffer authorization =
     (case tokenBuffer of
        None \<Rightarrow> Inl ''Ops endpoint is not configured''
      | Some token \<Rightarrow>
          (case authorization of
             None \<Rightarrow> Inl ''Missing or malformed Authorization header''
           | Some header \<Rightarrow>
               if header = [] \<or> \<not> startsWith header ''Bearer '' then Inl ''Missing or malformed Authorization header''
               else let provided = drop 7 header in
                 if provided = [] then Inl ''Missing bearer token''
                 else if length (utf8_bytes provided) \<noteq> length token then Inl ''Invalid token''
                 else if utf8_bytes provided \<noteq> token then Inl ''Invalid token''
                 else Inr ()))"

section \<open>The guarded endpoints\<close>

datatype refund_request =
    ListOpen "int option" "int option"
  | FindCase js_string
  | MarkCasePaid js_string MarkPaidOpts
  | MarkCaseAbandoned js_string "js_string option"

datatype username_ops_request =
    ReadUsernames js_string
  | GrantChanges js_string int js_string

datatype ops_request = RefundRequest refund_request | UsernameOpsRequest username_ops_request

datatype ops_answer =
    OpsUnauthorized js_string
  | OpsBadRequest
  | CaseList "refund_error + RefundCase list \<times> nat"
  | CaseAnswer "refund_error + RefundCase"
  | UsernamesAnswer "username_error + UsernameInfo"

text \<open>The query parameters have their defaults from the pipes, before the service applies its own.\<close>

definition listOpen :: "int option \<Rightarrow> int option \<Rightarrow> db \<Rightarrow> refund_error + RefundCase list \<times> nat" where
  "listOpen limit offset d =
     listOpenRefundCases (Some (case limit of None \<Rightarrow> 50 | Some l \<Rightarrow> l)) (Some (case offset of None \<Rightarrow> 0 | Some k \<Rightarrow> k)) d"

definition case_answer :: "db \<Rightarrow> refund_error + RefundCase \<times> db \<Rightarrow> ops_answer \<times> db" where
  "case_answer d r = (case r of Inl e \<Rightarrow> (CaseAnswer (Inl e), d) | Inr (c, d') \<Rightarrow> (CaseAnswer (Inr c), d'))"

definition refund_case_controller :: "collation \<Rightarrow> time_ms \<Rightarrow> refund_request \<Rightarrow> db \<Rightarrow> ops_answer \<times> db" where
  "refund_case_controller ck now req d =
     (case req of
        ListOpen limit offset \<Rightarrow> (CaseList (listOpen limit offset d), d)
      | FindCase i \<Rightarrow> (CaseAnswer (findOne ck i d), d)
      | MarkCasePaid i opts \<Rightarrow> case_answer d (markPaid ck now i opts d)
      | MarkCaseAbandoned i reason \<Rightarrow> case_answer d (markAbandoned ck now i reason d))"

definition username_ops_controller ::
  "collation \<Rightarrow> base_url \<Rightarrow> time_ms \<Rightarrow> username_ops_request \<Rightarrow> db \<Rightarrow> ops_answer \<times> db" where
  "username_ops_controller ck B now req d =
     (case req of
        ReadUsernames pubkey \<Rightarrow> (UsernamesAnswer (getUsernameInfoByPubKey ck B pubkey d), d)
      | GrantChanges pubkey amount reason \<Rightarrow>
          if \<not> grant_dto_ok amount reason then (OpsBadRequest, d)
          else (case grantExtraChanges ck B now pubkey amount d of (a, d') \<Rightarrow> (UsernamesAnswer a, d')))"

definition ops_endpoint ::
  "js_string option \<Rightarrow> js_string option \<Rightarrow> collation \<Rightarrow> base_url \<Rightarrow> time_ms \<Rightarrow> ops_request \<Rightarrow> db \<Rightarrow> ops_answer \<times> db" where
  "ops_endpoint configured authorization ck B now req d =
     (case ops_canActivate (ops_constructor configured) authorization of
        Inl reason \<Rightarrow> (OpsUnauthorized reason, d)
      | Inr _ \<Rightarrow>
          (case req of
             RefundRequest r \<Rightarrow> refund_case_controller ck now r d
           | UsernameOpsRequest r \<Rightarrow> username_ops_controller ck B now r d))"

section \<open>Preferences\<close>

record CurrencyPreference =
  cp_currency :: ReceivingCurrency
  cp_updatedAt :: time_ms

definition getPreference :: "collation \<Rightarrow> js_string \<Rightarrow> db \<Rightarrow> db_error + CurrencyPreference" where
  "getPreference ck userId d =
     (case user_by_id ck userId d of
        None \<Rightarrow> Inl P2025
      | Some u \<Rightarrow> Inr \<lparr>cp_currency = defaultReceivingCurrency u, cp_updatedAt = user_updatedAt u\<rparr>)"

definition setPreference ::
  "collation \<Rightarrow> time_ms \<Rightarrow> js_string \<Rightarrow> ReceivingCurrency \<Rightarrow> db \<Rightarrow> db_error + CurrencyPreference \<times> db" where
  "setPreference ck now userId currency d =
     bind_result (tbl_update ck user_ixs (where_key ck (\<lambda>u. Some [Text (user_id u)]) [Text userId])
        (\<lambda>u. u\<lparr>defaultReceivingCurrency := currency, user_updatedAt := now\<rparr>) (users d)) (\<lambda>t.
      Inr (\<lparr>cp_currency = currency, cp_updatedAt = now\<rparr>, d\<lparr>users := t\<rparr>))"

section \<open>Text and bytes\<close>

lemma utf8_char_cancel:
  assumes "utf8_char c @ s = utf8_char e @ t"
  shows "c = e \<and> s = t"
proof -
  let ?m = "of_char c :: nat" let ?n = "of_char e :: nat"
  have bound: "?m < 256" "?n < 256" by simp_all
  have inj: "(of_nat x :: byte) = of_nat y \<longleftrightarrow> x = y" if "x < 256" "y < 256" for x y
  proof
    assume "(of_nat x :: byte) = of_nat y"
    then have "unat (of_nat x :: byte) = unat (of_nat y :: byte)" by simp
    with that show "x = y" by (simp add: unat_of_nat take_bit_eq_mod)
  qed simp
  have lead: "192 + ?m div 64 < 256" "192 + ?n div 64 < 256" "128 + ?m mod 64 < 256" "128 + ?n mod 64 < 256"
    using bound by linarith+
  have "?m = ?n \<and> s = t"
  proof (cases "?m < 128"; cases "?n < 128")
    assume "?m < 128" "?n < 128"
    with assms show ?thesis using inj [OF bound] by (simp add: utf8_char_def)
  next
    assume "?m < 128" "\<not> ?n < 128"
    with assms show ?thesis using inj [OF bound(1) lead(2)] by (simp add: utf8_char_def Let_def)
  next
    assume "\<not> ?m < 128" "?n < 128"
    with assms show ?thesis using inj [OF lead(1) bound(2)] by (simp add: utf8_char_def Let_def)
  next
    assume "\<not> ?m < 128" "\<not> ?n < 128"
    with assms have "192 + ?m div 64 = 192 + ?n div 64" "128 + ?m mod 64 = 128 + ?n mod 64" "s = t"
      using inj [OF lead(1,2)] inj [OF lead(3,4)] by (simp_all add: utf8_char_def Let_def)
    then show ?thesis by (metis add_left_cancel div_mult_mod_eq)
  qed
  then show ?thesis by simp
qed

lemma utf8_char_nonempty: "utf8_char c \<noteq> []"
  by (simp add: utf8_char_def Let_def)

lemma utf8_bytes_inj: "utf8_bytes a = utf8_bytes b \<Longrightarrow> a = b"
proof (induction a arbitrary: b)
  case Nil
  then show ?case using utf8_char_nonempty by (cases b) (auto simp: utf8_bytes_def)
next
  case (Cons c a)
  then have "b \<noteq> []" using utf8_char_nonempty by (auto simp: utf8_bytes_def)
  then obtain e b' where b: "b = e # b'" by (cases b) blast+
  have "c = e \<and> utf8_bytes a = utf8_bytes b'"
    using Cons.prems by (intro utf8_char_cancel) (simp add: b utf8_bytes_def)
  with Cons.IH b show ?case by blast
qed

lemma ops_canActivate_iff:
  "ops_canActivate (ops_constructor configured) authorization = Inr ()
     \<longleftrightarrow> truthy configured \<and> authorization = Some (''Bearer '' @ nullish configured [])"
proof (cases "truthy configured")
  case True
  then obtain token where t: "configured = Some token" "token \<noteq> []" by (cases configured) auto
  have len: "length ''Bearer '' = 7" by simp
  have "ops_canActivate (Some (utf8_bytes token)) (Some header) = Inr () \<longleftrightarrow> header = ''Bearer '' @ token" for header
  proof
    assume "ops_canActivate (Some (utf8_bytes token)) (Some header) = Inr ()"
    then have "startsWith header ''Bearer ''" "utf8_bytes (drop 7 header) = utf8_bytes token"
      by (simp_all add: ops_canActivate_def Let_def split: if_splits)
    then have "take 7 header = ''Bearer ''" "drop 7 header = token"
      using utf8_bytes_inj by (simp_all only: startsWith_def len)
    then show "header = ''Bearer '' @ token" by (metis append_take_drop_id)
  next
    assume "header = ''Bearer '' @ token"
    moreover have "startsWith (''Bearer '' @ token) ''Bearer ''" by (simp add: startsWith_def)
    moreover have "drop 7 (''Bearer '' @ token) = token" by simp
    ultimately show "ops_canActivate (Some (utf8_bytes token)) (Some header) = Inr ()"
      using t(2) by (simp add: ops_canActivate_def Let_def)
  qed
  then show ?thesis
    using t by (cases authorization) (simp_all add: ops_constructor_def nullish_def ops_canActivate_def)
next
  case False
  then show ?thesis by (simp add: ops_constructor_def ops_canActivate_def)
qed

text \<open>
  C22. The operations endpoints are closed to everyone else. The guard lets a request through
  exactly when a token is configured and the header is the word \<open>Bearer\<close>, a space and that
  token; every other request is answered as unauthorised and changes nothing, whatever it
  asks for.
\<close>

theorem ops_guard_exact:
  "(ops_canActivate (ops_constructor configured) authorization = Inr ()
      \<longleftrightarrow> truthy configured \<and> authorization = Some (''Bearer '' @ nullish configured []))
   \<and> (authorization \<noteq> Some (''Bearer '' @ nullish configured []) \<or> \<not> truthy configured
      \<longrightarrow> (\<exists>reason. ops_endpoint configured authorization ck B now req d = (OpsUnauthorized reason, d)))"
proof -
  have "\<exists>reason. ops_endpoint configured authorization ck B now req d = (OpsUnauthorized reason, d)"
    if "ops_canActivate (ops_constructor configured) authorization \<noteq> Inr ()"
    using that by (cases "ops_canActivate (ops_constructor configured) authorization") (simp_all add: ops_endpoint_def)
  with ops_canActivate_iff show ?thesis by blast
qed

text \<open>A preference that was set is the one that is read, and it is the one the payment callback tests.\<close>

lemma setPreference_get:
  assumes "uniq ck user_ixs (users d)" and "setPreference ck now userId currency d = Inr (p, d')"
  shows "getPreference ck userId d' = Inr p \<and> cp_currency p = currency"
proof -
  let ?f = "\<lambda>u. u\<lparr>defaultReceivingCurrency := currency, user_updatedAt := now\<rparr>"
  let ?P = "where_key ck (\<lambda>u. Some [Text (user_id u)]) [Text userId]"
  have P: "?P u \<longleftrightarrow> text_eq ck (user_id u) userId" for u
    by (simp add: where_key_def row_key_def text_eq_def)
  from assms(2) obtain t where t: "tbl_update ck user_ixs ?P ?f (users d) = Inr t"
    "p = \<lparr>cp_currency = currency, cp_updatedAt = now\<rparr>" "d' = d\<lparr>users := t\<rparr>"
    by (auto simp: setPreference_def bind_result_Inr_iff)
  have "(''PRIMARY'', \<lambda>u. Some [Text (user_id u)]) \<in> set user_ixs" by (simp add: user_ixs_def)
  from tbl_update_split [OF assms(1) this t(1)] obtain xs u ys where
    s: "t = xs @ ?f u # ys" "?P u" "\<forall>x \<in> set (xs @ ys). \<not> ?P x" by blast
  have "find (\<lambda>u. text_eq ck (user_id u) userId) t = Some (?f u)"
  proof -
    have "find (\<lambda>u. text_eq ck (user_id u) userId) xs = None" using s(3) P by (auto simp: find_None_iff)
    moreover have "text_eq ck (user_id (?f u)) userId" using s(2) unfolding P by simp
    ultimately show ?thesis unfolding s(1) by (induction xs) auto
  qed
  with t show ?thesis by (simp add: getPreference_def user_by_id_def)
qed

definition demo_base :: base_url where
  "demo_base = \<lparr>bu_publicBaseUrl = None, bu_hostname = (\<lambda>u. None)\<rparr>"

theorem ops_guard_exact_witness:
  "ops_canActivate (ops_constructor (Some ''t'')) (Some ''Bearer t'') = Inr ()
   \<and> (\<exists>reason. ops_endpoint (Some ''t'') (Some ''Bearer u'') id demo_base 0 (UsernameOpsRequest (GrantChanges ''k'' 5 ''why'')) empty_db
        = (OpsUnauthorized reason, empty_db))"
  using ops_guard_exact [of "Some ''t''" "Some ''Bearer t''"]
    ops_guard_exact [of "Some ''t''" "Some ''Bearer u''" id demo_base 0 "UsernameOpsRequest (GrantChanges ''k'' 5 ''why'')" empty_db]
  by (simp add: nullish_def)

end
