(* ===== verification/Store.thy ===== *)
theory Store
  imports Order_Writers Ops
begin

text \<open>
  What the store promises as a whole. The invariant \<open>store_ok\<close> joins the invariants of the tables
  with the references between them; the contract \<open>store_evolves\<close> says how the store may change:
  names and invoices are never lost, orders move along the order machine, a resolved refund
  case stays as it is. Every operation that writes is shown to keep the contract, through the
  locale \<open>store_op\<close>, so a sequence of operations of any components keeps it too.
\<close>

section \<open>Lists that grow\<close>

definition grows :: "('a \<Rightarrow> 'a \<Rightarrow> bool) \<Rightarrow> 'a list \<Rightarrow> 'a list \<Rightarrow> bool" where
  "grows R xs ys \<longleftrightarrow> list_all2 R xs (take (length xs) ys)"

lemma grows_iff_nth:
  "grows R xs ys \<longleftrightarrow> length xs \<le> length ys \<and> (\<forall>i < length xs. R (xs ! i) (ys ! i))"
  by (auto simp: grows_def list_all2_conv_all_nth)

lemma grows_refl [intro]: "(\<And>x. R x x) \<Longrightarrow> grows R xs xs"
  by (simp add: grows_iff_nth)

lemma grows_append [intro]: "(\<And>x. R x x) \<Longrightarrow> grows R xs (xs @ ys)"
  by (simp add: grows_iff_nth nth_append)

lemma grows_middle: "R x y \<Longrightarrow> (\<And>x. R x x) \<Longrightarrow> grows R (xs @ x # zs) (xs @ y # zs)"
  by (auto simp: grows_iff_nth nth_append nth_Cons split: nat.split)

lemma grows_trans:
  assumes "grows R xs ys" and "grows R ys zs" and "\<And>x y z. R x y \<Longrightarrow> R y z \<Longrightarrow> R x z"
  shows "grows R xs zs"
  using assms(1,2) assms(3) unfolding grows_iff_nth by (meson order_less_le_trans order_trans)

lemma grows_mem: "grows R xs ys \<Longrightarrow> x \<in> set xs \<Longrightarrow> \<exists>y \<in> set ys. R x y"
  unfolding grows_iff_nth by (metis in_set_conv_nth order_less_le_trans)

section \<open>The invariant\<close>

abbreviation users_uniq :: "collation \<Rightarrow> db \<Rightarrow> bool" where
  "users_uniq ck d \<equiv> uniq ck user_ixs (users d)"

abbreviation invoices_uniq :: "collation \<Rightarrow> db \<Rightarrow> bool" where
  "invoices_uniq ck d \<equiv> uniq ck invoice_ixs (invoices d)"

text \<open>The foreign keys from invoices to names and from orders and cases to invoices.\<close>

definition refs_ok :: "collation \<Rightarrow> db \<Rightarrow> bool" where
  "refs_ok ck d \<longleftrightarrow>
     list_all (\<lambda>i. list_ex (\<lambda>n. text_eq ck (ln_id n) (usernameId i)) (lightning_names d)) (invoices d)
     \<and> list_all (\<lambda>r. list_ex (\<lambda>i. text_eq ck (inv_id i) (fo_invoiceId r)) (invoices d)) (flashnet_orders d)
     \<and> list_all (\<lambda>c. list_ex (\<lambda>i. text_eq ck (inv_id i) (rc_invoiceId c)) (invoices d)) (refund_cases d)"

definition store_ok :: "collation \<Rightarrow> db \<Rightarrow> bool" where
  "store_ok ck d \<longleftrightarrow> accounts_ok ck d \<and> users_uniq ck d \<and> nonces_uniq ck d \<and> invoices_uniq ck d
     \<and> orders_ok ck d \<and> events_uniq ck d \<and> cases_ok ck d \<and> failed_have_cases ck d \<and> refs_ok ck d"

lemma store_okD:
  assumes "store_ok ck d"
  shows "accounts_ok ck d" "users_uniq ck d" "nonces_uniq ck d" "invoices_uniq ck d"
    "orders_ok ck d" "orders_uniq ck d" "events_uniq ck d" "cases_ok ck d" "failed_have_cases ck d" "refs_ok ck d"
  using assms by (simp_all add: store_ok_def orders_ok_def)

lemma store_ok_empty: "store_ok ck empty_db"
  by (simp add: store_ok_def empty_db_def names_ok_def orders_ok_def failed_have_cases_def refs_ok_def)

section \<open>The contract\<close>

definition case_kept :: "RefundCase \<Rightarrow> RefundCase \<Rightarrow> bool" where
  "case_kept c c' \<longleftrightarrow> rc_id c' = rc_id c \<and> rc_invoiceId c' = rc_invoiceId c \<and> rc_amountSats c' = rc_amountSats c
     \<and> rc_createdAt c' = rc_createdAt c \<and> (rc_status c \<noteq> OPEN \<longrightarrow> c' = c)"

text \<open>The receipt of an event keeps its key, and what was handled stays handled.\<close>

definition event_kept :: "FlashnetWebhookEvent \<Rightarrow> FlashnetWebhookEvent \<Rightarrow> bool" where
  "event_kept e e' \<longleftrightarrow> we_id e' = we_id e \<and> we_orderId e' = we_orderId e \<and> we_event e' = we_event e
     \<and> we_timestamp e' = we_timestamp e \<and> (processedAt e \<noteq> None \<longrightarrow> processedAt e' \<noteq> None)"

lemma event_kept_refl [simp, intro]: "event_kept e e"
  by (simp add: event_kept_def)

lemma event_kept_trans: "event_kept a b \<Longrightarrow> event_kept b c \<Longrightarrow> event_kept a c"
  by (auto simp: event_kept_def)

lemma handled_kept:
  assumes g: "grows event_kept (webhook_events d) (webhook_events d')" and u: "events_uniq ck d'"
    and h: "event_handled ck p d"
  shows "event_handled ck p d'"
proof -
  from h obtain ts e where e: "js_BigInt (wp_timestamp p) = Some ts" "processedAt e \<noteq> None"
    and f: "find (where_key ck we_key (event_cells p ts)) (webhook_events d) = Some e"
    by (auto simp: event_handled_def find_unique_def split: option.splits)
  from f have m: "e \<in> set (webhook_events d)" "where_key ck we_key (event_cells p ts) e"
    by (auto simp: find_Some_iff)
  from grows_mem [OF g m(1)] obtain e' where e': "e' \<in> set (webhook_events d')" "event_kept e e'" by blast
  then have w: "where_key ck we_key (event_cells p ts) e'"
    using m(2) by (simp add: where_key_def row_key_def we_key_def event_kept_def)
  with e'(1) obtain f where f: "find (where_key ck we_key (event_cells p ts)) (webhook_events d') = Some f"
    by (metis find_None_iff not_None_eq)
  then have "f \<in> set (webhook_events d')" "where_key ck we_key (event_cells p ts) f"
    by (auto simp: find_Some_iff)
  with w e'(1) have "f = e'"
    by (intro uniq_clash_eq [OF u, where ix = "(''flashnet_webhook_events_orderId_event_timestamp_key'', we_key)"])
      (auto simp: webhook_event_ixs_def clash_def where_key_def)
  with f e e'(2) show ?thesis by (simp add: event_handled_def find_unique_def event_kept_def)
qed

text \<open>What may happen to a refund case is a parameter of the contract; mostly it is \<open>case_kept\<close>.\<close>

definition store_moves :: "(RefundCase \<Rightarrow> RefundCase \<Rightarrow> bool) \<Rightarrow> collation \<Rightarrow> db \<Rightarrow> db \<Rightarrow> bool" where
  "store_moves R ck d d' \<longleftrightarrow> store_ok ck d'
     \<and> grows (\<lambda>u u'. user_id u' = user_id u) (users d) (users d')
     \<and> persists (lightning_names d) (lightning_names d')
     \<and> grows (=) (invoices d) (invoices d')
     \<and> orders_evolve ck d d'
     \<and> grows event_kept (webhook_events d) (webhook_events d')
     \<and> grows R (refund_cases d) (refund_cases d')"

abbreviation store_evolves :: "collation \<Rightarrow> db \<Rightarrow> db \<Rightarrow> bool" where
  "store_evolves \<equiv> store_moves case_kept"

lemma case_kept_refl [simp, intro]: "case_kept c c"
  by (simp add: case_kept_def)

lemma case_kept_trans: "case_kept a b \<Longrightarrow> case_kept b c \<Longrightarrow> case_kept a c"
  by (auto simp: case_kept_def)

lemma store_moves_ok: "store_moves R ck d d' \<Longrightarrow> store_ok ck d'"
  by (simp add: store_moves_def)

lemma store_moves_refl: "(\<And>c. R c c) \<Longrightarrow> store_ok ck d \<Longrightarrow> store_moves R ck d d"
  by (auto simp: store_moves_def intro: orders_evolve_refl store_okD)

lemma store_moves_trans:
  assumes "store_moves R ck d d'" and "store_moves R ck d' d''" and "\<And>a b c. R a b \<Longrightarrow> R b c \<Longrightarrow> R a c"
  shows "store_moves R ck d d''"
proof -
  have "grows R (refund_cases d) (refund_cases d'')"
    using assms(1,2) assms(3) by (auto simp: store_moves_def elim: grows_trans [where R = R])
  then show ?thesis
    using assms(1,2) unfolding store_moves_def
    by (auto intro: persists_trans orders_evolve_trans
        elim: grows_trans [where R = "(=)"] grows_trans [where R = "\<lambda>u u'. user_id u' = user_id u"]
          grows_trans [OF _ _ event_kept_trans])
qed

lemmas store_evolves_ok = store_moves_ok [where R = case_kept]
lemmas store_evolves_refl = store_moves_refl [where R = case_kept, OF case_kept_refl]

lemma store_evolves_trans: "store_evolves ck d d' \<Longrightarrow> store_evolves ck d' d'' \<Longrightarrow> store_evolves ck d d''"
  by (erule (1) store_moves_trans) (rule case_kept_trans)

locale store_op =
  fixes ck :: collation and pre :: "db \<Rightarrow> bool" and wr :: "db \<Rightarrow> db"
  assumes op_evolves: "store_ok ck d \<Longrightarrow> pre d \<Longrightarrow> store_evolves ck d (wr d)"
begin

lemma op_ok: "store_ok ck d \<Longrightarrow> pre d \<Longrightarrow> store_ok ck (wr d)"
  by (rule store_evolves_ok [OF op_evolves])

lemma op_after: "store_evolves ck d0 d \<Longrightarrow> pre d \<Longrightarrow> store_evolves ck d0 (wr d)"
  by (blast intro: store_evolves_trans op_evolves store_evolves_ok)

end

section \<open>Writes to one part of the store\<close>

lemma refs_okD:
  assumes "refs_ok ck d"
  shows "i \<in> set (invoices d) \<Longrightarrow> \<exists>n \<in> set (lightning_names d). text_eq ck (ln_id n) (usernameId i)"
    "r \<in> set (flashnet_orders d) \<Longrightarrow> \<exists>i \<in> set (invoices d). text_eq ck (inv_id i) (fo_invoiceId r)"
    "c \<in> set (refund_cases d) \<Longrightarrow> \<exists>i \<in> set (invoices d). text_eq ck (inv_id i) (rc_invoiceId c)"
  using assms by (auto simp: refs_ok_def list_all_iff list_ex_iff)

lemma refs_okI:
  assumes "\<And>i. i \<in> set (invoices d) \<Longrightarrow> \<exists>n \<in> set (lightning_names d). text_eq ck (ln_id n) (usernameId i)"
    and "\<And>r. r \<in> set (flashnet_orders d) \<Longrightarrow> \<exists>i \<in> set (invoices d). text_eq ck (inv_id i) (fo_invoiceId r)"
    and "\<And>c. c \<in> set (refund_cases d) \<Longrightarrow> \<exists>i \<in> set (invoices d). text_eq ck (inv_id i) (rc_invoiceId c)"
  shows "refs_ok ck d"
  using assms by (auto simp: refs_ok_def list_all_iff list_ex_iff)

lemma persists_id: "persists t t' \<Longrightarrow> n \<in> set t \<Longrightarrow> \<exists>n' \<in> set t'. ln_id n' = ln_id n"
  unfolding persists_def same_name_def by blast

lemma orders_evolve_same: "orders_ok ck d \<Longrightarrow> flashnet_orders d' = flashnet_orders d \<Longrightarrow> orders_evolve ck d d'"
  using orders_evolve_refl [of ck d] by (simp add: orders_evolve_def orders_ok_def)

lemma failed_have_cases_cong:
  "flashnet_orders d' = flashnet_orders d \<Longrightarrow> refund_cases d' = refund_cases d
   \<Longrightarrow> failed_have_cases ck d' = failed_have_cases ck d"
  by (simp add: failed_have_cases_def case_by_invoice_def)

text \<open>Accounts: users, names and challenges.\<close>

lemma evolve_accounts:
  assumes ok: "store_ok ck d"
    and frame: "invoices d' = invoices d" "flashnet_orders d' = flashnet_orders d"
      "webhook_events d' = webhook_events d" "refund_cases d' = refund_cases d"
    and new: "accounts_ok ck d'" "users_uniq ck d'" "nonces_uniq ck d'"
      "persists (lightning_names d) (lightning_names d')" "grows (\<lambda>u u'. user_id u' = user_id u) (users d) (users d')"
  shows "store_evolves ck d d'"
proof -
  note k = store_okD [OF ok]
  have "refs_ok ck d'"
  proof (rule refs_okI)
    fix i assume "i \<in> set (invoices d')"
    with refs_okD(1) [OF k(10)] frame(1) obtain n where "n \<in> set (lightning_names d)" "text_eq ck (ln_id n) (usernameId i)" by auto
    with persists_id [OF new(4)] show "\<exists>n \<in> set (lightning_names d'). text_eq ck (ln_id n) (usernameId i)" by metis
  qed (use refs_okD(2,3) [OF k(10)] frame in auto)
  then have "store_ok ck d'"
    using k new frame failed_have_cases_cong [OF frame(2,4)] by (simp add: store_ok_def orders_ok_def)
  then show ?thesis
    using new frame orders_evolve_same [OF k(5) frame(2)] by (auto simp: store_moves_def)
qed

text \<open>Swaps: orders, events and cases.\<close>

lemma evolve_swap:
  assumes ok: "store_ok ck d"
    and frame: "users d' = users d" "lightning_names d' = lightning_names d" "auth_nonces d' = auth_nonces d"
      "invoices d' = invoices d"
    and new: "orders_evolve ck d d'" "length (flashnet_orders d') = length (flashnet_orders d)"
      "events_uniq ck d'" "cases_ok ck d'" "failed_have_cases ck d'"
      "grows event_kept (webhook_events d) (webhook_events d')" "grows R (refund_cases d) (refund_cases d')"
      "\<And>c. c \<in> set (refund_cases d') \<Longrightarrow> \<exists>i \<in> set (invoices d). text_eq ck (inv_id i) (rc_invoiceId c)"
  shows "store_moves R ck d d'"
proof -
  note k = store_okD [OF ok]
  have "refs_ok ck d'"
  proof (rule refs_okI)
    fix r assume "r \<in> set (flashnet_orders d')"
    then obtain i where i: "i < length (flashnet_orders d)" "r = flashnet_orders d' ! i"
      using new(2) by (metis in_set_conv_nth)
    with orders_evolve_nth(2) [OF new(1) i(1)] have "fo_invoiceId r = fo_invoiceId (flashnet_orders d ! i)"
      by (simp add: row_evolves_def)
    with refs_okD(2) [OF k(10), of "flashnet_orders d ! i"] i(1) frame(4)
    show "\<exists>i \<in> set (invoices d'). text_eq ck (inv_id i) (fo_invoiceId r)" by simp
  qed (use refs_okD(1) [OF k(10)] new(8) frame in auto)
  then have "store_ok ck d'"
    using k new frame orders_evolve_ok [OF new(1)] by (simp add: store_ok_def)
  then show ?thesis using new frame by (auto simp: store_moves_def)
qed

text \<open>Payments: an invoice, and with it an order that waits for payment.\<close>

lemma evolve_payment:
  assumes ok: "store_ok ck d" and d': "d' = d\<lparr>invoices := invoices d @ [iv], flashnet_orders := flashnet_orders d @ ords\<rparr>"
    and iv: "invoices_uniq ck d'" "n \<in> set (lightning_names d)" "text_eq ck (ln_id n) (usernameId iv)"
    and ords: "orders_evolve ck d d'"
      "\<And>r. r \<in> set ords \<Longrightarrow> order_status r = Some PENDING_PAYMENT \<and> fo_invoiceId r = inv_id iv"
  shows "store_evolves ck d d'"
proof -
  note k = store_okD [OF ok]
  have "refs_ok ck d'"
    by (rule refs_okI) (use refs_okD [OF k(10)] iv(2,3) ords(2) d' in \<open>auto simp: text_eq_def\<close>)
  moreover have "failed_have_cases ck d'"
    using k(9) ords(2) unfolding failed_have_cases_def d'
    by (fastforce simp: list_all_iff case_by_invoice_def order_status_Some)
  ultimately have "store_ok ck d'"
    using k iv(1) orders_evolve_ok [OF ords(1)] by (simp add: store_ok_def d')
  then show ?thesis using ords(1) by (auto simp: store_moves_def d')
qed

end
