(* ===== verification/Bolt11.thy ===== *)
theory Bolt11
  imports Prelude
begin

text \<open>
  The reader of BOLT11 invoices, \<open>src/common/bolt11-tags.ts\<close> and
  \<open>src/common/bolt11-description-hash.ts\<close>. An invoice is a prefix and a list of 5-bit words; the
  bech32 codec is a library's, so it is a parameter.
\<close>

section \<open>The tag reader\<close>

definition BOLT11_TIMESTAMP_WORDS :: nat where "BOLT11_TIMESTAMP_WORDS = 7"
definition BOLT11_SIGNATURE_WORDS :: nat where "BOLT11_SIGNATURE_WORDS = 104"

text \<open>Tags that may appear at most once: p, x, d, s, n, h.\<close>

definition SINGLE_TAGS :: "nat list" where "SINGLE_TAGS = [1, 6, 13, 16, 19, 23]"

datatype tag_error = TruncatedTag | TagOverruns | RepeatedTag

type_synonym tag_map = "nat \<Rightarrow> nat list option"

definition tag_length :: "nat list \<Rightarrow> nat \<Rightarrow> nat" where
  "tag_length words offset = words ! (offset + 1) * 32 + words ! (offset + 2)"

text \<open>The loop from \<open>offset\<close> on; \<open>end\<close> is negative for an input shorter than a signature.\<close>

function read_tags :: "nat list \<Rightarrow> int \<Rightarrow> nat \<Rightarrow> tag_map \<Rightarrow> tag_error + tag_map" where
  "read_tags words fin offset tags =
     (if int offset < fin then
        if int offset + 3 > fin then Inl TruncatedTag
        else let tag = words ! offset; len = tag_length words offset in
          if int (offset + 3 + len) > fin then Inl TagOverruns
          else if tags tag \<noteq> None \<and> tag \<in> set SINGLE_TAGS then Inl RepeatedTag
          else read_tags words fin (offset + 3 + len) (tags(tag \<mapsto> take len (drop (offset + 3) words)))
      else Inr tags)"
  by pat_completeness auto
termination
  by (relation "measure (\<lambda>(words, fin, offset, tags). nat (fin - int offset))") auto

declare read_tags.simps [simp del]

definition readBolt11Tags :: "nat list \<Rightarrow> tag_error + tag_map \<times> int" where
  "readBolt11Tags words =
     (let fin = int (length words) - int BOLT11_SIGNATURE_WORDS
      in map_sum id (\<lambda>tags. (tags, fin)) (read_tags words fin BOLT11_TIMESTAMP_WORDS Map.empty))"

section \<open>The description hash\<close>

record bech32_lib =
  bech32_decode :: "js_string \<Rightarrow> nat \<Rightarrow> (js_string \<times> nat list) option" \<comment> \<open>with a limit; \<open>None\<close> throws\<close>
  bech32_fromWords :: "nat list \<Rightarrow> buffer option"

definition DESCRIPTION_HASH_TAG :: nat where "DESCRIPTION_HASH_TAG = 23"

definition DESCRIPTION_HASH_WORDS :: nat where "DESCRIPTION_HASH_WORDS = 52"

definition bolt11DescriptionHash :: "'x bech32_lib_scheme \<Rightarrow> js_string \<Rightarrow> js_string option" where
  "bolt11DescriptionHash L invoice =
     (case bech32_decode L invoice 4096 of
        None \<Rightarrow> None
      | Some (hrp, words) \<Rightarrow>
          (case readBolt11Tags words of
             Inl _ \<Rightarrow> None
           | Inr (tags, _) \<Rightarrow>
               (case tags DESCRIPTION_HASH_TAG of
                  None \<Rightarrow> None
                | Some hash \<Rightarrow>
                    if length hash \<noteq> DESCRIPTION_HASH_WORDS then None
                    else map_option bytes_to_hex (bech32_fromWords L hash))))"

section \<open>The grammar of tagged fields\<close>

text \<open>Reference encoder: each field is its tag, its length in two words, and its data.\<close>

definition encode_field :: "nat \<times> nat list \<Rightarrow> nat list" where
  "encode_field f = fst f # length (snd f) div 32 # length (snd f) mod 32 # snd f"

definition encode_fields :: "(nat \<times> nat list) list \<Rightarrow> nat list" where
  "encode_fields fs = concat (map encode_field fs)"

text \<open>No tag of the single-use ones twice, nor one that was seen before.\<close>

fun singles_ok :: "nat set \<Rightarrow> (nat \<times> nat list) list \<Rightarrow> bool" where
  "singles_ok seen [] = True"
| "singles_ok seen ((t, ds) # fs) = (\<not> (t \<in> seen \<and> t \<in> set SINGLE_TAGS) \<and> singles_ok (insert t seen) fs)"

lemma encode_fields_simps [simp]:
  "encode_fields [] = []" "encode_fields (f # fs) = encode_field f @ encode_fields fs"
  by (simp_all add: encode_fields_def)

lemma length_encode_field [simp]: "length (encode_field f) = 3 + length (snd f)"
  by (simp add: encode_field_def)

primrec store_fields :: "(nat \<times> nat list) list \<Rightarrow> tag_map \<Rightarrow> tag_map" where
  "store_fields [] tags = tags"
| "store_fields (f # fs) tags = store_fields fs (tags(fst f \<mapsto> snd f))"

lemma store_fields_append: "store_fields (xs @ ys) tags = store_fields ys (store_fields xs tags)"
  by (induction xs arbitrary: tags) simp_all

lemma store_fields_map_of: "store_fields fs Map.empty = map_of (rev fs)"
  by (induction fs rule: rev_induct) (auto simp: store_fields_append simp del: fun_upd_apply)

text \<open>Reading what was encoded: every field is stored, a repeated tag with its last value.\<close>

lemma read_tags_encoded:
  assumes "words = pre @ encode_fields fs @ sig" and "fin = int (length pre + length (encode_fields fs))"
    and "singles_ok (dom tags) fs"
  shows "read_tags words fin (length pre) tags = Inr (store_fields fs tags)"
  using assms
proof (induction fs arbitrary: pre tags)
  case Nil
  then show ?case by (simp add: read_tags.simps)
next
  case (Cons f fs)
  obtain t ds where f: "f = (t, ds)" by (cases f)
  have w: "words = pre @ [t, length ds div 32, length ds mod 32] @ ds @ encode_fields fs @ sig"
    using Cons.prems(1) by (simp add: f encode_field_def)
  have nth: "words ! length pre = t" "tag_length words (length pre) = length ds"
    by (simp_all add: w tag_length_def nth_append)
  have ds: "take (length ds) (drop (length pre + 3) words) = ds" by (simp add: w)
  let ?pre = "pre @ encode_field f"
  have "singles_ok (dom (tags(t \<mapsto> ds))) fs" using Cons.prems(3) by (simp add: f del: fun_upd_apply)
  then have "read_tags words fin (length ?pre) (tags(t \<mapsto> ds)) = Inr (store_fields fs (tags(t \<mapsto> ds)))"
    using Cons.prems(1,2) by (intro Cons.IH) (simp_all add: f del: fun_upd_apply)
  moreover have "read_tags words fin (length pre) tags = read_tags words fin (length ?pre) (tags(t \<mapsto> ds))"
    using Cons.prems ds nth
    by (subst read_tags.simps) (auto simp: f Let_def add.assoc add.commute [of 3] simp del: fun_upd_apply)
  ultimately show ?case by (simp add: f del: fun_upd_apply)
qed

text \<open>And conversely: what the loop accepts is an encoding.\<close>

lemma read_tags_decompose:
  assumes "read_tags words fin offset tags = Inr tags'" and "int offset \<le> fin" "fin \<le> int (length words)"
    and "list_all (\<lambda>w. w < 32) words"
  shows "\<exists>fs. words = take offset words @ encode_fields fs @ drop (nat fin) words
           \<and> singles_ok (dom tags) fs \<and> tags' = store_fields fs tags"
  using assms
proof (induction words fin offset tags rule: read_tags.induct)
  case (1 words fin offset tags)
  show ?case
  proof (cases "int offset < fin")
    case False
    with 1 show ?thesis by (intro exI [of _ "[]"]) (auto simp: read_tags.simps [of words])
  next
    case True
    let ?t = "words ! offset" let ?len = "tag_length words offset"
    let ?ds = "take ?len (drop (offset + 3) words)"
    have c: "\<not> int offset + 3 > fin" "\<not> int (offset + 3 + ?len) > fin"
        "\<not> (tags ?t \<noteq> None \<and> ?t \<in> set SINGLE_TAGS)"
      and r: "read_tags words fin (offset + 3 + ?len) (tags(?t \<mapsto> ?ds)) = Inr tags'"
      using 1(2) True by (auto simp: read_tags.simps [of words fin offset] Let_def split: if_splits)
    have "int (offset + 3 + ?len) \<le> fin" using c(2) by linarith
    from 1(1) [OF True c(1) refl refl c(2,3) r this 1(4,5)] obtain fs where
      fs: "words = take (offset + 3 + ?len) words @ encode_fields fs @ drop (nat fin) words"
          "singles_ok (dom (tags(?t \<mapsto> ?ds))) fs" "tags' = store_fields fs (tags(?t \<mapsto> ?ds))" by blast
    have off: "offset + 3 + ?len \<le> length words" using c(2) 1(4) by linarith
    then have len: "length ?ds = ?len" by simp
    have "words ! (offset + 2) < 32" using 1(5) off by (simp add: list_all_length)
    then have dm: "?len div 32 = words ! (offset + 1)" "?len mod 32 = words ! (offset + 2)"
      by (simp_all add: tag_length_def)
    have "take (offset + 3 + ?len) words = take offset words @ encode_field (?t, ?ds)"
    proof -
      have "take (offset + 3 + ?len) words = take (offset + 3) words @ ?ds" by (simp add: take_add)
      also have "take (offset + 3) words = take offset words @ [?t, words ! (offset + 1), words ! (offset + 2)]"
        using off by (simp add: numeral_3_eq_3 take_Suc_conv_app_nth)
      finally show ?thesis using dm len by (simp add: encode_field_def)
    qed
    then have "words = take offset words @ encode_fields ((?t, ?ds) # fs) @ drop (nat fin) words"
      using fs(1) by simp
    moreover have "singles_ok (dom tags) ((?t, ?ds) # fs)" "tags' = store_fields ((?t, ?ds) # fs) tags"
      using fs(2,3) c(3) by (auto simp del: fun_upd_apply)
    ultimately show ?thesis by blast
  qed
qed

lemma map_sum_pair_Inr: "map_sum id (\<lambda>x. (x, f)) r = Inr (y, g) \<longleftrightarrow> g = f \<and> r = Inr y"
  by (cases r) auto

lemma readBolt11Tags_Inr:
  "readBolt11Tags words = Inr (tags, fin) \<longleftrightarrow>
     fin = int (length words) - int BOLT11_SIGNATURE_WORDS
     \<and> read_tags words fin BOLT11_TIMESTAMP_WORDS Map.empty = Inr tags"
  unfolding readBolt11Tags_def Let_def map_sum_pair_Inr by blast

lemma readBolt11Tags_fields:
  assumes "readBolt11Tags words = Inr (tags, fin)" and "list_all (\<lambda>w. w < 32) words"
    and "BOLT11_TIMESTAMP_WORDS + BOLT11_SIGNATURE_WORDS \<le> length words"
  obtains ts fs sig where "words = ts @ encode_fields fs @ sig" "length ts = BOLT11_TIMESTAMP_WORDS"
    "length sig = BOLT11_SIGNATURE_WORDS" "singles_ok {} fs" "tags = map_of (rev fs)"
    "fin = int (length ts + length (encode_fields fs))"
proof -
  let ?fin = "int (length words) - int BOLT11_SIGNATURE_WORDS"
  let ?ts = "take BOLT11_TIMESTAMP_WORDS words" let ?sig = "drop (nat ?fin) words"
  have r: "read_tags words ?fin BOLT11_TIMESTAMP_WORDS Map.empty = Inr tags" "fin = ?fin"
    using assms(1) unfolding readBolt11Tags_Inr by auto
  have "int BOLT11_TIMESTAMP_WORDS \<le> ?fin" "?fin \<le> int (length words)" using assms(3) by linarith+
  from read_tags_decompose [OF r(1) this assms(2)] obtain fs where
    fs: "words = ?ts @ encode_fields fs @ ?sig" "singles_ok {} fs" "tags = map_of (rev fs)"
    by (auto simp: store_fields_map_of)
  have len: "length ?ts = BOLT11_TIMESTAMP_WORDS" "length ?sig = BOLT11_SIGNATURE_WORDS"
    using assms(3) by simp_all
  have "length words = length ?ts + length (encode_fields fs) + length ?sig"
    using arg_cong [where f = length, OF fs(1)] by (simp only: length_append)
  then have "fin = int (length ?ts + length (encode_fields fs))" using r(2) len(2) by linarith
  with fs len show thesis by (intro that)
qed

lemma readBolt11Tags_encoded:
  assumes "length ts = BOLT11_TIMESTAMP_WORDS" "length sig = BOLT11_SIGNATURE_WORDS" "singles_ok {} fs"
  shows "readBolt11Tags (ts @ encode_fields fs @ sig) = Inr (map_of (rev fs), int (length ts + length (encode_fields fs)))"
proof -
  let ?words = "ts @ encode_fields fs @ sig" let ?fin = "int (length ts + length (encode_fields fs))"
  have "read_tags ?words ?fin (length ts) Map.empty = Inr (store_fields fs Map.empty)"
    using assms by (intro read_tags_encoded) auto
  with assms show ?thesis by (simp add: readBolt11Tags_Inr store_fields_map_of)
qed

text \<open>
  C20. The tag reader is exact. On a data part of 5-bit words that is long enough for a timestamp
  and a signature, it succeeds exactly when the words between the two are the encoding of some
  sequence of fields in which no single-use tag is repeated, and it returns exactly those
  fields (of a repeated multi-use tag the last) and the position of the signature.
\<close>

theorem bolt11_reader_exact:
  assumes "list_all (\<lambda>w. w < 32) words" and "BOLT11_TIMESTAMP_WORDS + BOLT11_SIGNATURE_WORDS \<le> length words"
  shows "readBolt11Tags words = Inr (tags, fin) \<longleftrightarrow>
    (\<exists>ts fs sig. words = ts @ encode_fields fs @ sig \<and> length ts = BOLT11_TIMESTAMP_WORDS
       \<and> length sig = BOLT11_SIGNATURE_WORDS \<and> singles_ok {} fs
       \<and> tags = map_of (rev fs) \<and> fin = int (length ts + length (encode_fields fs)))"
    (is "?read \<longleftrightarrow> ?fields")
proof
  assume ?read
  then show ?fields by (rule readBolt11Tags_fields [OF _ assms]) blast
next
  assume ?fields
  then show ?read using readBolt11Tags_encoded by blast
qed

text \<open>The smallest data part with one field: tag 23 with the words 5 and 6.\<close>

definition demo_words :: "nat list" where
  "demo_words = replicate 7 0 @ encode_fields [(23, [5, 6])] @ replicate 104 0"

theorem bolt11_reader_exact_witness:
  "readBolt11Tags demo_words = Inr (map_of [(23, [5, 6])], 12)"
proof -
  have "list_all (\<lambda>w. w < 32) demo_words" by (simp add: demo_words_def encode_field_def list_all_iff)
  moreover have "BOLT11_TIMESTAMP_WORDS + BOLT11_SIGNATURE_WORDS \<le> length demo_words"
    by (simp add: demo_words_def BOLT11_TIMESTAMP_WORDS_def BOLT11_SIGNATURE_WORDS_def)
  moreover have "\<exists>ts fs sig. demo_words = ts @ encode_fields fs @ sig \<and> length ts = BOLT11_TIMESTAMP_WORDS
       \<and> length sig = BOLT11_SIGNATURE_WORDS \<and> singles_ok {} fs
       \<and> map_of [(23, [5, 6])] = map_of (rev fs) \<and> 12 = int (length ts + length (encode_fields fs))"
    by (intro exI [of _ "replicate 7 0"] exI [of _ "[(23, [5, 6])]"] exI [of _ "replicate 104 0"])
       (simp add: demo_words_def BOLT11_TIMESTAMP_WORDS_def BOLT11_SIGNATURE_WORDS_def)
  ultimately show ?thesis using bolt11_reader_exact [of demo_words "map_of [(23, [5, 6])]" 12] by blast
qed

section \<open>The loop always ends\<close>

text \<open>The loop with a budget of rounds; \<open>None\<close> when the budget is used up.\<close>

fun read_tags_within :: "nat \<Rightarrow> nat list \<Rightarrow> int \<Rightarrow> nat \<Rightarrow> tag_map \<Rightarrow> (tag_error + tag_map) option" where
  "read_tags_within 0 words fin offset tags = None"
| "read_tags_within (Suc n) words fin offset tags =
     (if int offset < fin then
        if int offset + 3 > fin then Some (Inl TruncatedTag)
        else let tag = words ! offset; len = tag_length words offset in
          if int (offset + 3 + len) > fin then Some (Inl TagOverruns)
          else if tags tag \<noteq> None \<and> tag \<in> set SINGLE_TAGS then Some (Inl RepeatedTag)
          else read_tags_within n words fin (offset + 3 + len) (tags(tag \<mapsto> take len (drop (offset + 3) words)))
      else Some (Inr tags))"

lemma read_tags_within_enough:
  "nat (fin - int offset) div 3 < n \<Longrightarrow> read_tags_within n words fin offset tags = Some (read_tags words fin offset tags)"
proof (induction n arbitrary: offset tags)
  case (Suc n)
  show ?case
  proof (cases "int (offset + 3 + tag_length words offset) \<le> fin")
    case True
    then have "nat (fin - int (offset + 3 + tag_length words offset)) + 3 \<le> nat (fin - int offset)" by linarith
    then have "nat (fin - int (offset + 3 + tag_length words offset)) div 3 < n" using Suc.prems by linarith
    from Suc.IH [OF this] show ?thesis by (simp add: read_tags.simps [of words fin offset] Let_def del: fun_upd_apply)
  next
    case False
    then show ?thesis by (simp add: read_tags.simps [of words fin offset] Let_def)
  qed
qed simp

text \<open>
  C21. Termination of the tag reader. Whatever the words of an invoice are, and whatever field
  lengths they claim, the loop returns within one round more than a third of the words
  before the signature: a field takes at least three words, and no field is read twice.
\<close>

theorem bolt11_reader_terminates:
  "\<exists>r. read_tags_within (Suc ((length words - BOLT11_SIGNATURE_WORDS) div 3)) words
         (int (length words) - int BOLT11_SIGNATURE_WORDS) BOLT11_TIMESTAMP_WORDS Map.empty = Some r
       \<and> readBolt11Tags words = map_sum id (\<lambda>tags. (tags, int (length words) - int BOLT11_SIGNATURE_WORDS)) r"
proof -
  let ?fin = "int (length words) - int BOLT11_SIGNATURE_WORDS"
  have "nat (?fin - int BOLT11_TIMESTAMP_WORDS) \<le> length words - BOLT11_SIGNATURE_WORDS" by linarith
  then have "nat (?fin - int BOLT11_TIMESTAMP_WORDS) div 3 < Suc ((length words - BOLT11_SIGNATURE_WORDS) div 3)"
    by (simp add: div_le_mono less_Suc_eq_le)
  from read_tags_within_enough [OF this] show ?thesis by (simp add: readBolt11Tags_def Let_def)
qed

end
