(* ===== verification/Lightning_Quote.thy ===== *)
theory Lightning_Quote
  imports Flashnet Bolt11
begin

text \<open>
  Asking Flashnet for a Lightning quote: \<open>createLightningQuote\<close> of
  \<open>src/flashnet/flashnet.service.ts\<close> and the validation of the answer in
  \<open>src/flashnet/lightning-quote-validation.ts\<close>. The bech32 codec, the hash, the key recovery and the
  signature check are libraries, so they are parameters; every check that this code makes on
  what they return is in the model.
\<close>

section \<open>The answer\<close>

text \<open>
  The properties whose type the validation tests are \<open>None\<close> when they do not have it; the others
  are taken at their declared type. The flag tells whether \<open>flexibleAmount\<close> is truthy.
\<close>

record raw_quote =
  rq_quoteId :: "js_string option"
  rq_lightningReceiveRequestId :: "js_string option"
  rq_amountIn :: "js_string option"
  rq_flexibleAmount :: bool
  rq_amountMode :: "js_string option"
  rq_feeAsset :: "js_string option"
  rq_route :: "js_string option list option"
  rq_feeBps :: "rat option"
  rq_estimatedOut :: "js_string option"
  rq_feeAmount :: "js_string option"
  rq_roundingFeeAmount :: "js_string option"
  rq_totalFeeAmount :: "js_string option"
  rq_lockedMinAmountOut :: "js_string option"
  rq_priceLockMode :: "js_string option"
  rq_expiresAt :: js_string
  rq_depositAddress :: js_string

record invoice_lib = bech32_lib +
  sha256 :: "buffer \<Rightarrow> buffer"
  recoverPublicKey :: "buffer \<Rightarrow> buffer \<Rightarrow> buffer option" \<comment> \<open>recoverable signature, hash\<close>
  ecdsa_verify :: "buffer \<Rightarrow> buffer \<Rightarrow> buffer \<Rightarrow> bool option" \<comment> \<open>SPKI key, message, signature\<close>
  Date_parse :: "js_string \<Rightarrow> time_ms option"
  toISOString :: "time_ms \<Rightarrow> js_string"

datatype quote_failure = DescriptionHashMismatch | InvalidQuote

section \<open>Fields\<close>

definition amount_ok :: "js_string option \<Rightarrow> bool" where
  "amount_ok a = (case a of None \<Rightarrow> False | Some s \<Rightarrow> digits_between 1 38 s)"

definition fields_ok :: "raw_quote \<Rightarrow> js_string \<Rightarrow> bool" where
  "fields_ok q sats \<longleftrightarrow>
     (case rq_quoteId q of None \<Rightarrow> False | Some i \<Rightarrow> startsWith i ''q_'')
     \<and> truthy (rq_lightningReceiveRequestId q)
     \<and> rq_amountIn q = Some sats
     \<and> \<not> rq_flexibleAmount q
     \<and> (rq_amountMode q = None \<or> rq_amountMode q = Some ''exact_in'')
     \<and> rq_feeAsset q = Some ''USDB''
     \<and> (case rq_route q of None \<Rightarrow> False | Some r \<Rightarrow> list_all (\<lambda>p. p \<noteq> None) r)
     \<and> (case rq_feeBps q of None \<Rightarrow> False | Some b \<Rightarrow> b = of_int \<lfloor>b\<rfloor> \<and> 0 \<le> b)
     \<and> list_all amount_ok [rq_estimatedOut q, rq_feeAmount q, rq_roundingFeeAmount q, rq_totalFeeAmount q]
     \<and> (rq_lockedMinAmountOut q = None \<or> amount_ok (rq_lockedMinAmountOut q))"

section \<open>Amount\<close>

text \<open>\<open>/^lnbc(\d+)([munp]?)$/\<close>.\<close>

definition prefix_match :: "js_string \<Rightarrow> (js_string \<times> js_string) option" where
  "prefix_match hrp =
     (let r = drop 4 hrp; ds = takeWhile is_digit r; u = dropWhile is_digit r in
      if startsWith hrp ''lnbc'' \<and> ds \<noteq> [] \<and> u \<in> {[], ''m'', ''u'', ''n'', ''p''} then Some (ds, u) else None)"

definition factor :: "js_string \<Rightarrow> int" where
  "factor u = (if u = ''m'' then 100000000 else if u = ''u'' then 100000 else if u = ''n'' then 100
     else if u = ''p'' then 1 else 100000000000)"

definition invoice_msat :: "js_string \<Rightarrow> js_string \<Rightarrow> int option" where
  "invoice_msat ds u =
     (let raw = int (dec_val ds) * factor u in
      if u = ''p'' \<and> raw mod 10 \<noteq> 0 then None
      else Some (if u = ''p'' then raw div 10 else raw))"

section \<open>Time\<close>

text \<open>
  The number that 5-bit words write, accumulated in doubles. The scale never matters above the
  safe integers: a sum that is infinite in doubles is a number above them here, and both
  are refused.
\<close>

definition words_number :: "nat list \<Rightarrow> nat" where
  "words_number ws = foldl (\<lambda>total w. to_double (total * 32 + w)) 0 ws"

section \<open>Signature\<close>

definition curve_order :: int where
  "curve_order = 0xfffffffffffffffffffffffffffffffebaaedce6af48a03bbfd25e8cd0364141"

definition big_endian :: "buffer \<Rightarrow> int" where
  "big_endian b = foldl (\<lambda>n w. 256 * n + uint w) 0 b"

text \<open>Zero words are appended until the words fill whole bytes.\<close>

lemma pad_decreases: "n * 5 mod 8 \<noteq> (0 :: nat) \<Longrightarrow> (8 - Suc n mod 8) mod 8 < (8 - n mod 8) mod 8"
proof -
  assume n: "n * 5 mod 8 \<noteq> 0"
  have "n mod 8 \<noteq> 0"
  proof
    assume "n mod 8 = 0"
    then have "n * 5 mod 8 = 0" using mod_mult_left_eq [of n 8 5] by simp
    with n show False by simp
  qed
  moreover have "n mod 8 < 8" by simp
  ultimately have "(8 - n mod 8) mod 8 = 8 - n mod 8" by simp
  moreover have "(8 - Suc n mod 8) mod 8 < 8 - n mod 8"
    using \<open>n mod 8 < 8\<close> by (cases "Suc (n mod 8) = 8") (simp_all add: mod_Suc)
  ultimately show ?thesis by simp
qed

function pad_words :: "nat list \<Rightarrow> nat list" where
  "pad_words ws = (if length ws * 5 mod 8 \<noteq> 0 then pad_words (ws @ [0]) else ws)"
  by pat_completeness auto
termination
  by (relation "measure (\<lambda>ws. (8 - length ws mod 8) mod 8)") (use pad_decreases in auto)

declare pad_words.simps [simp del]

definition signing_bytes :: "invoice_lib \<Rightarrow> js_string \<Rightarrow> nat list \<Rightarrow> nat \<Rightarrow> buffer option" where
  "signing_bytes L hrp words fin =
     map_option (\<lambda>b. utf8_bytes hrp @ take ((fin * 5 + 7) div 8) b)
       (bech32_fromWords L (pad_words (take fin words)))"

text \<open>The payee's key: named by a field, then the signature must be low-S, or recovered.\<close>

definition payee_key :: "invoice_lib \<Rightarrow> tag_map \<Rightarrow> buffer \<Rightarrow> buffer \<Rightarrow> buffer option" where
  "payee_key L tags signature msg =
     (case tags 19 of
        Some n \<Rightarrow>
          if big_endian (take 32 (drop 32 signature)) > curve_order div 2 then None
          else (case bech32_fromWords L n of
                  None \<Rightarrow> None
                | Some key \<Rightarrow> if length key \<noteq> 33 then None else Some key)
      | None \<Rightarrow> recoverPublicKey L ((signature ! 64) # take 64 signature) (sha256 L msg))"

definition SPKI_HEADER :: buffer where
  "SPKI_HEADER = hex_to_bytes ''3036301006072a8648ce3d020106052b8104000a032200''"

section \<open>The validation\<close>

definition need :: "'a option \<Rightarrow> quote_failure + 'a" where
  "need v = (case v of None \<Rightarrow> Inl InvalidQuote | Some x \<Rightarrow> Inr x)"

definition ensure :: "bool \<Rightarrow> quote_failure + unit" where
  "ensure b = (if b then Inr () else Inl InvalidQuote)"

text \<open>Fields, quote expiry, and the amount that the invoice asks for.\<close>

definition quote_invoice_words ::
  "invoice_lib \<Rightarrow> time_ms \<Rightarrow> raw_quote \<Rightarrow> js_string \<Rightarrow> quote_failure + time_ms \<times> js_string \<times> nat list" where
  "quote_invoice_words L now q sats =
     bind_result (ensure (fields_ok q sats)) (\<lambda>_.
     bind_result (need (Date_parse L (rq_expiresAt q))) (\<lambda>expiry.
     bind_result (ensure (now < expiry)) (\<lambda>_.
     bind_result (need (bech32_decode L (rq_depositAddress q) 4096)) (\<lambda>(hrp, words).
     bind_result (need (prefix_match hrp)) (\<lambda>(ds, u).
     bind_result (ensure (111 \<le> length words)) (\<lambda>_.
     bind_result (need (invoice_msat ds u)) (\<lambda>msat.
     bind_result (need (js_BigInt sats)) (\<lambda>s.
     bind_result (ensure (msat = s * 1000)) (\<lambda>_. Inr (expiry, hrp, words))))))))))"

definition tags_ok :: "tag_map \<Rightarrow> bool" where
  "tags_ok tags \<longleftrightarrow>
     map_option length (tags 1) = Some 52 \<and> map_option length (tags 16) = Some 52
     \<and> (tags 13 = None) \<noteq> (tags 23 = None)
     \<and> (case tags 23 of None \<Rightarrow> True | Some h \<Rightarrow> length h = 52)"

definition check_hash :: "invoice_lib \<Rightarrow> tag_map \<Rightarrow> js_string option \<Rightarrow> quote_failure + unit" where
  "check_hash L tags descriptionHash =
     (case descriptionHash of
        None \<Rightarrow> Inr ()
      | Some h \<Rightarrow>
          (case tags 23 of
             None \<Rightarrow> Inl DescriptionHashMismatch
           | Some w \<Rightarrow>
               bind_result (need (bech32_fromWords L w)) (\<lambda>b.
                 if bytes_to_hex b \<noteq> toLowerCase h then Inl DescriptionHashMismatch else Inr ())))"

definition check_signature ::
  "invoice_lib \<Rightarrow> js_string \<Rightarrow> nat list \<Rightarrow> tag_map \<Rightarrow> nat \<Rightarrow> quote_failure + unit" where
  "check_signature L hrp words tags fin =
     bind_result (need (bech32_fromWords L (drop fin words))) (\<lambda>signature.
     bind_result (ensure (length signature = 65 \<and> unat (signature ! 64) \<le> 3)) (\<lambda>_.
     bind_result (need (signing_bytes L hrp words fin)) (\<lambda>msg.
     bind_result (need (payee_key L tags signature msg)) (\<lambda>key.
     bind_result (need (ecdsa_verify L (SPKI_HEADER @ key) msg (take 64 signature))) (\<lambda>ok.
       ensure ok)))))"

definition lifetime :: "tag_map \<Rightarrow> nat" where
  "lifetime tags = (case tags 6 of None \<Rightarrow> 3600 | Some w \<Rightarrow> words_number w)"

definition invoice_expiry :: "nat list \<Rightarrow> tag_map \<Rightarrow> nat" where
  "invoice_expiry words tags =
     to_double (to_double (words_number (take BOLT11_TIMESTAMP_WORDS words) + lifetime tags) * 1000)"

text \<open>\<open>Date.now()\<close> is read twice, as \<open>now\<close> and \<open>now'\<close>.\<close>

definition validateLightningQuote ::
  "invoice_lib \<Rightarrow> time_ms \<Rightarrow> time_ms \<Rightarrow> raw_quote option \<Rightarrow> js_string \<Rightarrow> js_string option
   \<Rightarrow> quote_failure + raw_quote" where
  "validateLightningQuote L now now' quote sats descriptionHash =
     bind_result (need quote) (\<lambda>q.
     bind_result (quote_invoice_words L now q sats) (\<lambda>(expiry, hrp, words).
     bind_result (case readBolt11Tags words of Inl _ \<Rightarrow> Inl InvalidQuote | Inr r \<Rightarrow> Inr r) (\<lambda>(tags, fin).
     bind_result (ensure (tags_ok tags)) (\<lambda>_.
     bind_result (check_hash L tags descriptionHash) (\<lambda>_.
     bind_result (check_signature L hrp words tags (nat fin)) (\<lambda>_.
     bind_result (ensure (invoice_expiry words tags \<le> MAX_SAFE_INTEGER
                          \<and> now' < int (invoice_expiry words tags))) (\<lambda>_.
       Inr (q\<lparr>rq_expiresAt := toISOString L (min expiry (int (invoice_expiry words tags)))\<rparr>))))))))"

section \<open>The client\<close>

text \<open>The error body of an answer: its two properties where they are present, or unreadable.\<close>

type_synonym error_body = "(js_string option \<times> js_string option) option"

definition parseErrorBody :: "int \<Rightarrow> error_body \<Rightarrow> js_string \<times> js_string" where
  "parseErrorBody status body =
     (case body of
        Some (code, msg) \<Rightarrow> (nullish code ''service_unavailable'', nullish msg (''HTTP '' @ int_str status))
      | None \<Rightarrow> (''service_unavailable'', ''HTTP '' @ int_str status))"

datatype quote_answer =
    QuoteNetworkError
  | QuoteHttpError int error_body
  | QuoteUnreadable js_string
  | QuoteBody bool "raw_quote option" \<comment> \<open>replayed header, body (\<open>null\<close> is \<open>None\<close>)\<close>

definition quote_response :: "bool \<Rightarrow> raw_quote \<Rightarrow> LightningQuoteResponse" where
  "quote_response replayed q =
     \<lparr>qr_quoteId = nullish (rq_quoteId q) [], qr_depositAddress = rq_depositAddress q,
      qr_amountIn = nullish (rq_amountIn q) [], qr_estimatedOut = nullish (rq_estimatedOut q) [],
      qr_feeAmount = nullish (rq_feeAmount q) [], qr_roundingFeeAmount = nullish (rq_roundingFeeAmount q) [],
      qr_totalFeeAmount = nullish (rq_totalFeeAmount q) [],
      qr_feeBps = (case rq_feeBps q of None \<Rightarrow> 0 | Some b \<Rightarrow> \<lfloor>b\<rfloor>),
      qr_feeAsset = nullish (rq_feeAsset q) [],
      qr_route = (case rq_route q of None \<Rightarrow> [] | Some r \<Rightarrow> map (\<lambda>p. nullish p []) r),
      qr_expiresAt = rq_expiresAt q, qr_priceLockMode = rq_priceLockMode q,
      qr_lockedMinAmountOut = rq_lockedMinAmountOut q, qr_amountMode = rq_amountMode q,
      qr_flexibleAmount = rq_flexibleAmount q,
      qr_lightningReceiveRequestId = nullish (rq_lightningReceiveRequestId q) [],
      qr_replayed = replayed\<rparr>"

definition quote_error :: "quote_failure \<Rightarrow> client_error" where
  "quote_error e = (case e of
       DescriptionHashMismatch \<Rightarrow> BadGateway (Some ''description_hash_mismatch'')
         ''Lightning quote invoice lacks the expected description hash''
     | InvalidQuote \<Rightarrow> BadGateway None ''Invalid Lightning quote'')"

definition createLightningQuote ::
  "invoice_lib \<Rightarrow> flashnet_config \<Rightarrow> time_ms \<Rightarrow> time_ms \<Rightarrow> (LightningQuoteRequest \<Rightarrow> js_string \<Rightarrow> quote_answer)
   \<Rightarrow> LightningQuoteRequest \<Rightarrow> js_string \<Rightarrow> client_error + LightningQuoteResponse" where
  "createLightningQuote L cfg now now' post params key =
     (if fc_apiKey cfg = [] then Inl (Unavailable ''Flashnet API key not configured'')
      else case post params key of
          QuoteNetworkError \<Rightarrow> Inl (Unavailable ''Flashnet service unreachable'')
        | QuoteHttpError status body \<Rightarrow> (case parseErrorBody status body of (c, m) \<Rightarrow> Inl (BadGateway (Some c) m))
        | QuoteUnreadable msg \<Rightarrow> Inl (UnreadableBody msg)
        | QuoteBody replayed body \<Rightarrow>
            (case validateLightningQuote L now now' body (lq_amount params) (lq_descriptionHash params) of
               Inl e \<Rightarrow> Inl (quote_error e)
             | Inr q \<Rightarrow> Inr (quote_response replayed q)))"

text \<open>The lookup of an order by quote for the poller; the body is returned as it comes.\<close>

datatype 'b status_answer = StatusNetworkError | StatusHttpError int error_body | StatusUnreadable js_string | StatusBody 'b

definition getOrderStatus :: "'b status_answer \<Rightarrow> client_error + 'b" where
  "getOrderStatus answer =
     (case answer of
        StatusNetworkError \<Rightarrow> Inl (Unavailable ''Flashnet service unreachable'')
      | StatusHttpError status body \<Rightarrow> (case parseErrorBody status body of (c, m) \<Rightarrow> Inl (BadGateway (Some c) m))
      | StatusUnreadable msg \<Rightarrow> Inl (UnreadableBody msg)
      | StatusBody b \<Rightarrow> Inr b)"

text \<open>The mock: fixed figures, random ids \<open>h1\<close>, \<open>h2\<close>, \<open>h3\<close>, two minutes of life.\<close>

definition mock_createLightningQuote ::
  "(time_ms \<Rightarrow> js_string) \<Rightarrow> time_ms \<Rightarrow> js_string \<Rightarrow> js_string \<Rightarrow> js_string \<Rightarrow> LightningQuoteRequest \<Rightarrow> LightningQuoteResponse" where
  "mock_createLightningQuote isoString now h1 h2 h3 params =
     \<lparr>qr_quoteId = ''q_mock_'' @ h1, qr_depositAddress = ''lnbcmock'' @ h2, qr_amountIn = lq_amount params,
      qr_estimatedOut = ''920000'', qr_feeAmount = ''10000'', qr_roundingFeeAmount = ''2162'',
      qr_totalFeeAmount = ''12162'', qr_feeBps = 41, qr_feeAsset = ''USDB'', qr_route = [''BTC'', ''USDB''],
      qr_expiresAt = isoString (now + 2 * 60 * 1000), qr_priceLockMode = Some ''approval_required'',
      qr_lockedMinAmountOut = Some ''838945'', qr_amountMode = Some ''exact_in'', qr_flexibleAmount = False,
      qr_lightningReceiveRequestId = ''SparkLightningReceiveRequest:mock-'' @ h3, qr_replayed = False\<rparr>"

record OrderStatusResponse =
  os_orderId :: js_string
  os_status :: js_string
  os_amountOut :: "js_string option"
  os_errorCode :: "js_string option"
  os_errorMessage :: "js_string option"

definition mock_getOrderStatus :: "js_string \<Rightarrow> OrderStatusResponse" where
  "mock_getOrderStatus orderId =
     \<lparr>os_orderId = orderId, os_status = ''completed'', os_amountOut = Some ''920000'', os_errorCode = None,
      os_errorMessage = None\<rparr>"

definition mock_getQuoteOrder :: "js_string \<Rightarrow> FlashnetWebhookData option" where
  "mock_getQuoteOrder quoteId = None"

section \<open>What an invoice asks for\<close>

text \<open>
  Reference: the amount of an invoice is its number times the multiplier, in bitcoin; a bitcoin is
  \<open>10^11\<close> millisatoshi. And the number that 5-bit words write, without rounding.
\<close>

definition multiplier :: "js_string \<Rightarrow> rat" where
  "multiplier u = (if u = ''m'' then 1 / 10 ^ 3 else if u = ''u'' then 1 / 10 ^ 6 else if u = ''n'' then 1 / 10 ^ 9
     else if u = ''p'' then 1 / 10 ^ 12 else 1)"

definition words_value :: "nat list \<Rightarrow> nat" where
  "words_value ws = foldl (\<lambda>n w. 32 * n + w) 0 ws"

lemma invoice_msat_exact:
  assumes "invoice_msat ds u = Some m" and "u \<in> {[], ''m'', ''u'', ''n'', ''p''}"
  shows "(of_int m :: rat) = of_nat (dec_val ds) * multiplier u * 10 ^ 11"
proof (cases "u = ''p''")
  case True
  with assms(1) have m: "int (dec_val ds) mod 10 = 0" "m = int (dec_val ds) div 10"
    by (auto simp: invoice_msat_def factor_def Let_def split: if_splits)
  then have "int (dec_val ds) = 10 * m" by presburger
  then have "(of_nat (dec_val ds) :: rat) = 10 * of_int m" by (metis of_int_mult of_int_numeral of_int_of_nat_eq)
  with True show ?thesis by (simp add: multiplier_def)
next
  case False
  with assms have "m = int (dec_val ds) * factor u" by (simp add: invoice_msat_def Let_def split: if_splits)
  then show ?thesis using assms(2) False by (auto simp: factor_def multiplier_def)
qed

lemma words_number_exact:
  "words_number ws \<le> MAX_SAFE_INTEGER \<Longrightarrow> words_number ws = words_value ws"
proof (induction ws rule: rev_induct)
  case (snoc w ws)
  have eq: "words_number (ws @ [w]) = to_double (words_number ws * 32 + w)"
    "words_value (ws @ [w]) = 32 * words_value ws + w"
    by (simp_all add: words_number_def words_value_def)
  from snoc.prems safe_to_double have "words_number (ws @ [w]) = words_number ws * 32 + w" unfolding eq by blast
  moreover from this snoc.prems have "words_number ws \<le> MAX_SAFE_INTEGER" by linarith
  ultimately show ?case using snoc.IH eq(2) by simp
qed (simp add: words_number_def words_value_def)

definition exact_lifetime :: "tag_map \<Rightarrow> nat" where
  "exact_lifetime tags = (case tags 6 of None \<Rightarrow> 3600 | Some w \<Rightarrow> words_value w)"

lemma invoice_expiry_exact:
  assumes "invoice_expiry words tags \<le> MAX_SAFE_INTEGER"
  shows "invoice_expiry words tags = (words_value (take BOLT11_TIMESTAMP_WORDS words) + exact_lifetime tags) * 1000"
proof -
  let ?a = "words_number (take BOLT11_TIMESTAMP_WORDS words)" let ?b = "lifetime tags"
  have 1: "invoice_expiry words tags = to_double (?a + ?b) * 1000"
    using safe_to_double [of "to_double (?a + ?b) * 1000"] assms by (simp add: invoice_expiry_def)
  then have 2: "to_double (?a + ?b) = ?a + ?b" using safe_to_double [of "?a + ?b"] assms by linarith
  with 1 assms have le: "?a \<le> MAX_SAFE_INTEGER" "?b \<le> MAX_SAFE_INTEGER" by linarith+
  then have "?a = words_value (take BOLT11_TIMESTAMP_WORDS words)" "?b = exact_lifetime tags"
    using words_number_exact by (auto simp: lifetime_def exact_lifetime_def split: option.splits)
  with 1 2 show ?thesis by simp
qed

lemma need_Inr [simp]: "need v = Inr x \<longleftrightarrow> v = Some x"
  by (cases v) (simp_all add: need_def)

lemma ensure_Inr [simp]: "ensure b = Inr x \<longleftrightarrow> b"
  by (cases x) (simp add: ensure_def)

lemma prefix_match_Some:
  assumes "prefix_match hrp = Some (ds, u)"
  shows "hrp = ''lnbc'' @ ds @ u" "all_digits ds" "u \<in> {[], ''m'', ''u'', ''n'', ''p''}"
proof -
  let ?r = "drop 4 hrp"
  from assms have m: "take 4 hrp = ''lnbc''" "ds = takeWhile is_digit ?r" "u = dropWhile is_digit ?r" "ds \<noteq> []"
    and u: "u \<in> {[], ''m'', ''u'', ''n'', ''p''}"
    by (auto simp: prefix_match_def startsWith_def numeral_eq_Suc Let_def split: if_splits)
  show "u \<in> {[], ''m'', ''u'', ''n'', ''p''}" by (rule u)
  have "hrp = take 4 hrp @ ?r" by simp
  with m show "hrp = ''lnbc'' @ ds @ u" by (metis takeWhile_dropWhile_id)
  show "all_digits ds" using m(2,4) by (auto simp: all_digits_def list_all_iff dest: set_takeWhileD)
qed

lemma quote_invoice_words_Inr:
  assumes "quote_invoice_words L now q sats = Inr (expiry, hrp, words)"
  shows "fields_ok q sats" "Date_parse L (rq_expiresAt q) = Some expiry" "now < expiry"
    "bech32_decode L (rq_depositAddress q) 4096 = Some (hrp, words)" "111 \<le> length words"
    "\<exists>ds u s. hrp = ''lnbc'' @ ds @ u \<and> all_digits ds \<and> js_BigInt sats = Some s
       \<and> (of_int (s * 1000) :: rat) = of_nat (dec_val ds) * multiplier u * 10 ^ 11"
proof -
  from assms obtain ds u s where p: "prefix_match hrp = Some (ds, u)" "js_BigInt sats = Some s"
    "invoice_msat ds u = Some (s * 1000)"
    by (auto simp: quote_invoice_words_def bind_result_Inr_iff)
  from prefix_match_Some [OF p(1)] invoice_msat_exact [OF p(3)] p(2)
  show "\<exists>ds u s. hrp = ''lnbc'' @ ds @ u \<and> all_digits ds \<and> js_BigInt sats = Some s
       \<and> (of_int (s * 1000) :: rat) = of_nat (dec_val ds) * multiplier u * 10 ^ 11" by blast
qed (use assms in \<open>auto simp: quote_invoice_words_def bind_result_Inr_iff\<close>)

lemma check_hash_Inr:
  assumes "check_hash L tags (Some h) = Inr ()"
  shows "\<exists>w b. tags 23 = Some w \<and> bech32_fromWords L w = Some b \<and> bytes_to_hex b = toLowerCase h"
  using assms by (auto simp: check_hash_def bind_result_Inr_iff split: option.splits if_splits)

lemma refused_Inr [simp]: "(case r of Inl _ \<Rightarrow> Inl InvalidQuote | Inr x \<Rightarrow> Inr x) = Inr y \<longleftrightarrow> r = Inr y"
  by (cases r) auto

lemma validateLightningQuote_Inr:
  assumes "validateLightningQuote L now now' (Some q) sats dh = Inr q'"
  obtains expiry hrp words tags fin where
    "quote_invoice_words L now q sats = Inr (expiry, hrp, words)" "readBolt11Tags words = Inr (tags, fin)"
    "tags_ok tags" "check_hash L tags dh = Inr ()" "check_signature L hrp words tags (nat fin) = Inr ()"
    "invoice_expiry words tags \<le> MAX_SAFE_INTEGER" "now' < int (invoice_expiry words tags)"
    "q' = q\<lparr>rq_expiresAt := toISOString L (min expiry (int (invoice_expiry words tags)))\<rparr>"
  using assms
  by (auto simp: validateLightningQuote_def bind_result_Inr_iff)

text \<open>What a signed invoice is: the signature words verify under the payee's key over the rest.\<close>

definition signed_by_payee :: "invoice_lib \<Rightarrow> js_string \<Rightarrow> nat list \<Rightarrow> tag_map \<Rightarrow> nat list \<Rightarrow> bool" where
  "signed_by_payee L hrp data tags sig \<longleftrightarrow>
     (\<exists>s b key. bech32_fromWords L sig = Some s \<and> length s = 65
        \<and> bech32_fromWords L (pad_words data) = Some b
        \<and> (let msg = utf8_bytes hrp @ take ((length data * 5 + 7) div 8) b in
           payee_key L tags s msg = Some key \<and> ecdsa_verify L (SPKI_HEADER @ key) msg (take 64 s) = Some True))"

lemma check_signature_Inr:
  assumes "check_signature L hrp words tags fin = Inr ()" and "fin \<le> length words"
  shows "signed_by_payee L hrp (take fin words) tags (drop fin words)"
  using assms
  by (auto simp: check_signature_def signed_by_payee_def signing_bytes_def bind_result_Inr_iff Let_def min_absorb2)

text \<open>A returned quote went through the validation, and its invoice reads as the requested hash.\<close>

lemma createLightningQuote_validated:
  assumes "createLightningQuote L cfg now now' post params key = Inr r"
  obtains q q' replayed where
    "validateLightningQuote L now now' (Some q) (lq_amount params) (lq_descriptionHash params) = Inr q'"
    "r = quote_response replayed q'"
proof -
  from assms obtain body q' replayed where b:
    "validateLightningQuote L now now' body (lq_amount params) (lq_descriptionHash params) = Inr q'"
    "r = quote_response replayed q'"
    by (auto simp: createLightningQuote_def split: if_splits quote_answer.splits sum.splits prod.splits)
  then show thesis
    by (cases body) (auto simp: validateLightningQuote_def need_def intro: that)
qed

lemma createLightningQuote_hash:
  assumes "createLightningQuote L cfg now now' post params key = Inr r" and "lq_descriptionHash params = Some h"
  shows "bolt11DescriptionHash L (qr_depositAddress r) = Some (toLowerCase h)"
proof -
  from assms(1) obtain q q' replayed where v:
    "validateLightningQuote L now now' (Some q) (lq_amount params) (lq_descriptionHash params) = Inr q'"
    "r = quote_response replayed q'" by (rule createLightningQuote_validated)
  from v(1) obtain e hrp words tags fin where a:
    "quote_invoice_words L now q (lq_amount params) = Inr (e, hrp, words)"
    "readBolt11Tags words = Inr (tags, fin)" "tags_ok tags" "check_hash L tags (lq_descriptionHash params) = Inr ()"
    "q' = q\<lparr>rq_expiresAt := toISOString L (min e (int (invoice_expiry words tags)))\<rparr>"
    by (rule validateLightningQuote_Inr)
  have "qr_depositAddress r = rq_depositAddress q" using v(2) a(5) by (simp add: quote_response_def)
  then show ?thesis
    using check_hash_Inr [of L tags h] a(2-4) quote_invoice_words_Inr(4) [OF a(1)] assms(2)
    by (auto simp: bolt11DescriptionHash_def DESCRIPTION_HASH_TAG_def DESCRIPTION_HASH_WORDS_def tags_ok_def)
qed

text \<open>
  C12. A payer is only ever handed a sound invoice. Given a codec whose words have five bits,
  a quote that the client returns carries an invoice that decodes into a timestamp, a
  well-formed sequence of fields and a signature; asks for exactly the requested satoshis
  under the multipliers of the standard; is signed by its payee over the prefix and the data;
  reads, with the reader that the rest of the program uses, as the requested description
  hash; has not expired; and the expiry that is stored is the earlier of the quote's and the
  invoice's own, computed without rounding.
\<close>

theorem accepted_quote_sound:
  assumes five_bit: "\<forall>s n hrp ws. bech32_decode L s n = Some (hrp, ws) \<longrightarrow> list_all (\<lambda>w. w < 32) ws"
    and "createLightningQuote L cfg now now' post params key = Inr r"
  shows "\<exists>hrp ds u ts fs sig s e.
    bech32_decode L (qr_depositAddress r) 4096 = Some (hrp, ts @ encode_fields fs @ sig)
    \<and> length ts = BOLT11_TIMESTAMP_WORDS \<and> length sig = BOLT11_SIGNATURE_WORDS \<and> singles_ok {} fs
    \<and> hrp = ''lnbc'' @ ds @ u \<and> all_digits ds \<and> js_BigInt (lq_amount params) = Some s
    \<and> (of_int (s * 1000) :: rat) = of_nat (dec_val ds) * multiplier u * 10 ^ 11
    \<and> signed_by_payee L hrp (ts @ encode_fields fs) (map_of (rev fs)) sig
    \<and> (\<forall>h. lq_descriptionHash params = Some h \<longrightarrow> bolt11DescriptionHash L (qr_depositAddress r) = Some (toLowerCase h))
    \<and> now < e \<and> now' < int ((words_value ts + exact_lifetime (map_of (rev fs))) * 1000)
    \<and> qr_expiresAt r = toISOString L (min e (int ((words_value ts + exact_lifetime (map_of (rev fs))) * 1000)))"
proof -
  from assms(2) obtain q q' replayed where v:
    "validateLightningQuote L now now' (Some q) (lq_amount params) (lq_descriptionHash params) = Inr q'"
    "r = quote_response replayed q'" by (rule createLightningQuote_validated)
  from v(1) obtain e hrp words tags fin where a:
    "quote_invoice_words L now q (lq_amount params) = Inr (e, hrp, words)"
    "readBolt11Tags words = Inr (tags, fin)" "tags_ok tags"
    "check_hash L tags (lq_descriptionHash params) = Inr ()"
    "check_signature L hrp words tags (nat fin) = Inr ()"
    "invoice_expiry words tags \<le> MAX_SAFE_INTEGER" "now' < int (invoice_expiry words tags)"
    "q' = q\<lparr>rq_expiresAt := toISOString L (min e (int (invoice_expiry words tags)))\<rparr>"
    by (rule validateLightningQuote_Inr)
  note w = quote_invoice_words_Inr [OF a(1)]
  have r: "qr_depositAddress r = rq_depositAddress q"
    "qr_expiresAt r = toISOString L (min e (int (invoice_expiry words tags)))"
    using v(2) a(8) by (simp_all add: quote_response_def)
  have bits: "list_all (\<lambda>w. w < 32) words" using five_bit w(4) by blast
  have len: "BOLT11_TIMESTAMP_WORDS + BOLT11_SIGNATURE_WORDS \<le> length words"
    using w(5) by (simp add: BOLT11_TIMESTAMP_WORDS_def BOLT11_SIGNATURE_WORDS_def)
  from readBolt11Tags_fields [OF a(2) bits len] obtain ts fs sig where f:
    "words = ts @ encode_fields fs @ sig" "length ts = BOLT11_TIMESTAMP_WORDS"
    "length sig = BOLT11_SIGNATURE_WORDS" "singles_ok {} fs" "tags = map_of (rev fs)"
    "fin = int (length ts + length (encode_fields fs))" .
  have sig: "signed_by_payee L hrp (ts @ encode_fields fs) tags sig"
    using check_signature_Inr [OF a(5)] f(1,6) by simp
  have expiry: "invoice_expiry words tags = (words_value ts + exact_lifetime tags) * 1000"
    using invoice_expiry_exact [OF a(6)] f(1,2) by simp
  have hash: "bolt11DescriptionHash L (qr_depositAddress r) = Some (toLowerCase h)"
    if "lq_descriptionHash params = Some h" for h
    by (rule createLightningQuote_hash [OF assms(2) that])
  from w(6) obtain ds u s where "hrp = ''lnbc'' @ ds @ u" "all_digits ds" "js_BigInt (lq_amount params) = Some s"
    "(of_int (s * 1000) :: rat) = of_nat (dec_val ds) * multiplier u * 10 ^ 11" by blast
  then show ?thesis
    using w(3,4) f sig hash r a(7) unfolding expiry
    by (intro exI [of _ hrp] exI [of _ ds] exI [of _ u] exI [of _ ts] exI [of _ fs] exI [of _ sig]
        exI [of _ s] exI [of _ e]) auto
qed

section \<open>A concrete quote\<close>

text \<open>A codec for one invoice of one satoshi: all data zero, a recoverable signature, one hour of life.\<close>

definition demo_fields :: "(nat \<times> nat list) list" where
  "demo_fields = [(1, replicate 52 0), (16, replicate 52 0), (23, replicate 52 0)]"

definition demo_invoice_lib :: invoice_lib where
  "demo_invoice_lib = \<lparr>bech32_decode = (\<lambda>s n. Some (''lnbc10n'', replicate 7 0 @ encode_fields demo_fields @ replicate 104 0)),
     bech32_fromWords = (\<lambda>ws. Some (replicate (length ws * 5 div 8) 0)), sha256 = (\<lambda>b. b),
     recoverPublicKey = (\<lambda>s h. Some (replicate 33 2)), ecdsa_verify = (\<lambda>k m s. Some True),
     Date_parse = (\<lambda>s. Some 5000), toISOString = (\<lambda>t. int_str t)\<rparr>"

definition demo_raw_quote :: raw_quote where
  "demo_raw_quote = \<lparr>rq_quoteId = Some ''q_1'', rq_lightningReceiveRequestId = Some ''l1'', rq_amountIn = Some ''1'',
     rq_flexibleAmount = False, rq_amountMode = None, rq_feeAsset = Some ''USDB'', rq_route = Some [Some ''BTC''],
     rq_feeBps = Some 41, rq_estimatedOut = Some ''9'', rq_feeAmount = Some ''1'', rq_roundingFeeAmount = Some ''0'',
     rq_totalFeeAmount = Some ''1'', rq_lockedMinAmountOut = None, rq_priceLockMode = None,
     rq_expiresAt = ''t'', rq_depositAddress = ''lnbc10n1''\<rparr>"

definition demo_quote_request :: LightningQuoteRequest where
  "demo_quote_request = \<lparr>lq_recipientAddress = ''sp1'', lq_amount = ''1'', lq_slippageBps = 50,
     lq_descriptionHash = Some (bytes_to_hex (replicate 32 0))\<rparr>"

definition demo_quote_call :: "client_error + LightningQuoteResponse" where
  "demo_quote_call = createLightningQuote demo_invoice_lib \<lparr>fc_apiBase = [], fc_apiKey = ''k'', fc_webhookSecret = []\<rparr> 0 0
     (\<lambda>p k. QuoteBody False (Some demo_raw_quote)) demo_quote_request ''i1''"

lemma demo_head: "quote_invoice_words demo_invoice_lib 0 demo_raw_quote ''1''
    = Inr (5000, ''lnbc10n'', replicate 7 0 @ encode_fields demo_fields @ replicate 104 0)"
  by code_simp

lemma demo_tags: "readBolt11Tags (replicate 7 0 @ encode_fields demo_fields @ replicate 104 0)
    = Inr (map_of (rev demo_fields), 172)"
  using readBolt11Tags_encoded [of "replicate 7 0" "replicate 104 0" demo_fields]
  by (simp add: BOLT11_TIMESTAMP_WORDS_def BOLT11_SIGNATURE_WORDS_def demo_fields_def SINGLE_TAGS_def)

lemma demo_signature: "check_signature demo_invoice_lib ''lnbc10n'' (replicate 7 0 @ encode_fields demo_fields @ replicate 104 0)
    (map_of (rev demo_fields)) 172 = Inr ()"
  by (simp add: check_signature_def demo_invoice_lib_def need_def ensure_def signing_bytes_def payee_key_def
      demo_fields_def nth_replicate)

lemma demo_quote_accepted: "is_ok demo_quote_call"
proof -
  have "words_number (replicate n 0) = 0" for n by (induction n) (simp_all add: words_number_def)
  then have e: "invoice_expiry (replicate 7 0 @ encode_fields demo_fields @ replicate 104 0) (map_of (rev demo_fields)) = 3600000"
    by (simp add: invoice_expiry_def BOLT11_TIMESTAMP_WORDS_def lifetime_def demo_fields_def)
  have h: "check_hash demo_invoice_lib (map_of (rev demo_fields)) (Some (bytes_to_hex (replicate 32 0))) = Inr ()"
    by (simp add: check_hash_def demo_fields_def demo_invoice_lib_def need_def)
  have t: "tags_ok (map_of (rev demo_fields))" by code_simp
  show ?thesis
    by (simp add: demo_quote_call_def createLightningQuote_def demo_quote_request_def validateLightningQuote_def
        need_def ensure_def demo_head demo_tags t h demo_signature e MAX_SAFE_INTEGER_def)
qed

theorem accepted_quote_sound_witness:
  "\<exists>r ts fs sig. demo_quote_call = Inr r
     \<and> bech32_decode demo_invoice_lib (qr_depositAddress r) 4096 = Some (''lnbc10n'', ts @ encode_fields fs @ sig)
     \<and> bolt11DescriptionHash demo_invoice_lib (qr_depositAddress r) = Some (toLowerCase (bytes_to_hex (replicate 32 0)))"
proof -
  obtain r where r: "demo_quote_call = Inr r" using is_okE [OF demo_quote_accepted] by blast
  have bits: "\<forall>s n hrp ws. bech32_decode demo_invoice_lib s n = Some (hrp, ws) \<longrightarrow> list_all (\<lambda>w. w < 32) ws"
    by (auto simp: demo_invoice_lib_def demo_fields_def encode_field_def list_all_iff)
  have "\<And>hrp ws. bech32_decode demo_invoice_lib (qr_depositAddress r) 4096 = Some (hrp, ws) \<Longrightarrow> hrp = ''lnbc10n''"
    by (simp add: demo_invoice_lib_def)
  with accepted_quote_sound [OF bits r [unfolded demo_quote_call_def]] r show ?thesis
    by (fastforce simp: demo_quote_request_def)
qed

end
