(* ===== verification/Spark_Address.thy ===== *)
theory Spark_Address
  imports Secp
begin

text \<open>
  Spark addresses, \<open>src/common/spark-address.utils.ts\<close>: the bech32m text of a compressed public
  key. The bech32m codec and the curve library are parameters.
\<close>

record bech32m_lib =
  b32m_toWords :: "buffer \<Rightarrow> nat list"
  b32m_encode :: "js_string \<Rightarrow> nat list \<Rightarrow> js_string option"

definition NetworkPrefix :: "(js_string \<times> js_string) list" where
  "NetworkPrefix = [(''MAINNET'', ''spark''), (''TESTNET'', ''sparkt''), (''REGTEST'', ''sparkrt''),
     (''SIGNET'', ''sparks''), (''LOCAL'', ''sparkl'')]"

datatype spark_error =
    OddHexLength
  | InvalidHexByte js_string
  | InvalidPoint
  | PubkeyLength nat
  | PubkeyPrefix nat
  | EncodeFailed \<comment> \<open>no prefix for the network, or the codec throws\<close>

text \<open>
  \<open>parseInt(s, 16)\<close>: leading white space, a sign and a \<open>0x\<close> are skipped, then the longest run of
  hex digits is read and the rest is ignored; without a digit it is \<open>NaN\<close>.
\<close>

definition parseInt16 :: "js_string \<Rightarrow> int option" where
  "parseInt16 s =
     (let t = dropWhile js_space s;
          neg = startsWith t ''-'';
          u = (if startsWith t ''-'' \<or> startsWith t ''+'' then tl t else t);
          v = (if startsWith (toLowerCase u) ''0x'' then drop 2 u else u);
          ds = takeWhile is_hex v;
          n = int (foldl (\<lambda>n c. 16 * n + hex_val c) 0 ds)
      in if ds = [] then None else Some (if neg then - n else n))"

text \<open>Storing a number in a byte array keeps it modulo 256.\<close>

fun parse_bytes :: "js_string \<Rightarrow> spark_error + buffer" where
  "parse_bytes (a # b # s) =
     (case parseInt16 [a, b] of
        None \<Rightarrow> Inl (InvalidHexByte [a, b])
      | Some n \<Rightarrow> bind_result (parse_bytes s) (\<lambda>bs. Inr (word_of_int n # bs)))"
| "parse_bytes _ = Inr []"

definition hexToBytes :: "js_string \<Rightarrow> spark_error + buffer" where
  "hexToBytes hex =
     (let lower = toLowerCase hex;
          clean = (if startsWith lower ''0x'' then drop 2 lower else lower)
      in if length clean mod 2 \<noteq> 0 then Inl OddHexLength else parse_bytes clean)"

definition compress_key :: "secp_lib \<Rightarrow> js_string \<Rightarrow> buffer \<Rightarrow> spark_error + buffer" where
  "compress_key S pubkeyHex bytes =
     (if length bytes = 65
      then (case point_forms S pubkeyHex of None \<Rightarrow> Inl InvalidPoint | Some (c, u) \<Rightarrow> Inr (hex_to_bytes c))
      else Inr bytes)"

definition encodeSparkAddress ::
  "bech32m_lib \<Rightarrow> secp_lib \<Rightarrow> js_string \<Rightarrow> js_string \<Rightarrow> spark_error + js_string" where
  "encodeSparkAddress L S pubkeyHex network =
     bind_result (hexToBytes pubkeyHex) (\<lambda>bytes.
     bind_result (compress_key S pubkeyHex bytes) (\<lambda>key.
       if length key \<noteq> 33 then Inl (PubkeyLength (length key))
       else if hd key \<noteq> 2 \<and> hd key \<noteq> 3 then Inl (PubkeyPrefix (unat (hd key)))
       else case map_of NetworkPrefix network of
           None \<Rightarrow> Inl EncodeFailed
         | Some hrp \<Rightarrow>
             (case b32m_encode L hrp (b32m_toWords L ([10, 33] @ key)) of
                None \<Rightarrow> Inl EncodeFailed
              | Some a \<Rightarrow> Inr a)))"

section \<open>Hex digits\<close>

lemma hex_char_lower: "n < 16 \<Longrightarrow> js_lower_char (hex_char n) = hex_char n"
  by (auto simp: hex_char_def js_lower_char_def code_in_def)

lemma hex_class: "is_hex c \<Longrightarrow> c \<noteq> CHR ''x'' \<and> c \<noteq> CHR ''-'' \<and> c \<noteq> CHR ''+'' \<and> \<not> js_space c"
  by (auto simp: is_hex_def is_digit_def code_in_def js_space_def)

lemma parseInt16_pair:
  assumes "m < 16" "n < 16"
  shows "parseInt16 [hex_char m, hex_char n] = Some (int (16 * m + n))"
  using assms hex_class [of "hex_char m"] hex_class [of "hex_char n"]
  by (auto simp: parseInt16_def startsWith_def Let_def toLowerCase_def hex_char_lower)

lemma parse_bytes_hex [simp]: "parse_bytes (bytes_to_hex b) = Inr b"
proof (induction b)
  case (Cons w b)
  have "unat w div 16 < 16" using unat_byte_less [of w] by linarith
  moreover have "16 * (unat w div 16) + unat w mod 16 = unat w" by simp
  ultimately show ?case
    using Cons by (simp add: bytes_to_hex_def byte_hex_def parseInt16_pair flip: of_nat_mult of_nat_add)
qed (simp add: bytes_to_hex_def)

text \<open>Reading back the printed bytes, in either case and with or without \<open>0x\<close>.\<close>

lemma bytes_to_hex_no_0x: "\<not> startsWith (bytes_to_hex b) ''0x''"
proof (cases b)
  case (Cons w bs)
  have "is_hex (hex_char (unat w mod 16))" by simp
  then show ?thesis using hex_class by (simp add: Cons bytes_to_hex_def byte_hex_def startsWith_def)
qed (simp add: bytes_to_hex_def startsWith_def)

lemma hexToBytes_inv [simp]: "hexToBytes (bytes_to_hex b) = Inr b"
  using bytes_to_hex_no_0x [of b] by (simp add: hexToBytes_def Let_def)

text \<open>
  One address per key. A compressed key and the uncompressed form of the same point get the
  same address, and it is the bech32m text of the two header bytes and the compressed key under
  the prefix of the network; so the address does not depend on the spelling in which a key was
  registered.
\<close>

theorem spark_address_one_per_key:
  assumes key: "length k = 33" "hd k = 2 \<or> hd k = 3"
    and point: "length u = 65" "point_forms S (bytes_to_hex u) = Some (bytes_to_hex k, x)"
    and net: "map_of NetworkPrefix network = Some hrp"
    and codec: "b32m_encode L hrp (b32m_toWords L (10 # 33 # k)) = Some a"
  shows "encodeSparkAddress L S (bytes_to_hex k) network = Inr a
    \<and> encodeSparkAddress L S (bytes_to_hex u) network = Inr a"
  using assms by (auto simp: encodeSparkAddress_def compress_key_def)

definition demo_b32m :: bech32m_lib where
  "demo_b32m = \<lparr>b32m_toWords = map unat, b32m_encode = (\<lambda>h w. Some (h @ ''1''))\<rparr>"

theorem spark_address_one_per_key_witness:
  "encodeSparkAddress demo_b32m (demo_secp\<lparr>point_forms := \<lambda>k. Some (bytes_to_hex (replicate 33 2), k)\<rparr>)
     (bytes_to_hex (replicate 65 4)) ''MAINNET'' = Inr ''spark1''"
proof -
  have "b32m_encode demo_b32m ''spark'' (b32m_toWords demo_b32m (10 # 33 # replicate 33 2)) = Some ''spark1''"
    by (simp add: demo_b32m_def)
  moreover have "map_of NetworkPrefix ''MAINNET'' = Some ''spark''" by (simp add: NetworkPrefix_def)
  ultimately show ?thesis
    using spark_address_one_per_key [of "replicate 33 2" "replicate 65 4"] by simp
qed

text \<open>
  A byte whose second character is not a hex digit is read as its first digit, where the code
  means to reject it.
\<close>

lemma hexToBytes_half_invalid: "hexToBytes ''1g'' = Inr [1]" "is_hex (CHR ''g'') = False"
  by code_simp+

end
