(* ===== verification/Lnurl.thy ===== *)
theory Lnurl
  imports Lightning_Quote Swap_Quote Spark_Address Username_Change
begin

text \<open>
  LNURL-pay: the metadata endpoint and the callback of \<open>src/lnurl/lnurl.controller.ts\<close>, with
  \<open>src/lnurl/lnurl.service.ts\<close>, \<open>src/lnurl/lnurl-pay-metadata.ts\<close>, \<open>src/lightspark/lightspark.service.ts\<close>
  and the constants of \<open>src/common/constants.ts\<close>. The wallet of the Spark SDK is a parameter. Log
  lines are not modelled.
\<close>

section \<open>Metadata\<close>

definition MIN_SENDABLE_MSAT :: nat where "MIN_SENDABLE_MSAT = 1000"
definition MAX_SENDABLE_MSAT :: nat where "MAX_SENDABLE_MSAT = 10000000000"

definition buildLnurlPayMetadata :: "js_string \<Rightarrow> js_string \<Rightarrow> js_string" where
  "buildLnurlPayMetadata username domain =
     (let identifier = username @ ''@'' @ domain
      in json_array [json_array [json_string ''text/plain'', json_string identifier],
                     json_array [json_string ''text/identifier'', json_string identifier]])"

definition lnurlPayDescriptionHash :: "(buffer \<Rightarrow> buffer) \<Rightarrow> js_string \<Rightarrow> js_string" where
  "lnurlPayDescriptionHash hash metadata = bytes_to_hex (hash (utf8_bytes metadata))"

section \<open>Environment\<close>

type_synonym spark_wallet = "js_string \<Rightarrow> nat \<Rightarrow> js_string \<Rightarrow> js_string + js_string"
  \<comment> \<open>\<open>createLightningInvoice\<close> of receiver, satoshis and hash: an error message or the invoice\<close>

record lnurl_env =
  le_base :: base_url
  le_usdbEnabled :: "js_string option"
  le_sparkNetwork :: "js_string option"
  le_swap :: swap_env
  le_quote :: flashnet_quote
  le_createId :: js_string
  le_invoice_id :: js_string
  le_secp :: secp_lib
  le_b32m :: bech32m_lib
  le_bech32 :: bech32_lib
  le_sha256 :: "buffer \<Rightarrow> buffer"
  le_wallet :: "spark_wallet option"
  le_db_message :: "db_error \<Rightarrow> js_string"

abbreviation le_ck :: "lnurl_env \<Rightarrow> collation" where
  "le_ck E \<equiv> env_ck (le_swap E)"

datatype lnurl_exception =
    MissingAmount
  | AmountOutOfRange
  | MalformedName \<comment> \<open>\<open>normalizeUsername\<close> throws\<close>
  | NameNotFound
  | NoPublicKey
  | PublicBaseUrl username_error
  | InconsistentUser \<comment> \<open>the foreign key of the name points nowhere\<close>

section \<open>Names\<close>

definition findActiveLightningName ::
  "collation \<Rightarrow> js_string \<Rightarrow> db \<Rightarrow> lnurl_exception + LightningName option" where
  "findActiveLightningName ck rawUsername d =
     (case normalizeUsername rawUsername of
        None \<Rightarrow> Inl MalformedName
      | Some username \<Rightarrow>
          Inr (find (\<lambda>r. text_eq ck (ln_username r) username \<and> ln_active r) (lightning_names d)))"

definition findActiveLightningNameWithUser ::
  "collation \<Rightarrow> js_string \<Rightarrow> db \<Rightarrow> lnurl_exception + (LightningName \<times> User) option" where
  "findActiveLightningNameWithUser ck rawUsername d =
     bind_result (findActiveLightningName ck rawUsername d) (\<lambda>found.
       case found of
         None \<Rightarrow> Inr None
       | Some r \<Rightarrow>
           (case user_by_id ck (ln_userId r) d of
              None \<Rightarrow> Inl InconsistentUser
            | Some u \<Rightarrow> Inr (Some (r, u))))"

definition domain_of :: "base_url \<Rightarrow> username_error + js_string \<times> js_string" where
  "domain_of B =
     (if \<not> truthy (bu_publicBaseUrl B) then Inl BaseUrlMissing
      else let url = nullish (bu_publicBaseUrl B) []
           in bind_result (getDomainFromBaseUrl B url) (\<lambda>domain. Inr (url, domain)))"

record LnurlPayMetadata =
  pm_callback :: js_string
  pm_minSendable :: nat
  pm_maxSendable :: nat
  pm_metadata :: js_string

definition getLnurlPayMetadata :: "lnurl_env \<Rightarrow> js_string \<Rightarrow> db \<Rightarrow> lnurl_exception + LnurlPayMetadata" where
  "getLnurlPayMetadata E rawUsername d =
     (if \<not> truthy (bu_publicBaseUrl (le_base E)) then Inl (PublicBaseUrl BaseUrlMissing)
      else bind_result (findActiveLightningName (le_ck E) rawUsername d) (\<lambda>found.
        case found of
          None \<Rightarrow> Inl NameNotFound
        | Some r \<Rightarrow>
            bind_result (map_sum PublicBaseUrl id (domain_of (le_base E))) (\<lambda>(url, domain).
              Inr \<lparr>pm_callback = url @ ''/lnurl/callback/'' @ ln_username r,
                   pm_minSendable = MIN_SENDABLE_MSAT, pm_maxSendable = MAX_SENDABLE_MSAT,
                   pm_metadata = buildLnurlPayMetadata (ln_username r) domain\<rparr>)))"

definition descriptionHashFor :: "lnurl_env \<Rightarrow> js_string \<Rightarrow> username_error + js_string" where
  "descriptionHashFor E username =
     bind_result (domain_of (le_base E)) (\<lambda>(url, domain).
       Inr (lnurlPayDescriptionHash (le_sha256 E) (buildLnurlPayMetadata username domain)))"

section \<open>The amount\<close>

text \<open>A parameter given twice is an array, which the pattern refuses.\<close>

definition parse_amount :: "js_string option \<Rightarrow> lnurl_exception + nat" where
  "parse_amount amountStr =
     (if \<not> truthy amountStr then Inl MissingAmount
      else let s = nullish amountStr []; n = js_Number s
           in if all_digits s \<and> n \<le> MAX_SAFE_INTEGER \<and> n mod 1000 = 0
                 \<and> MIN_SENDABLE_MSAT \<le> n \<and> n \<le> MAX_SENDABLE_MSAT
              then Inr n else Inl AmountOutOfRange)"

section \<open>The USDB route\<close>

datatype usdb_error = UsdbAddress spark_error | UsdbQuote swap_error

definition usdb_params :: "lnurl_env \<Rightarrow> LightningName \<Rightarrow> nat \<Rightarrow> js_string \<Rightarrow> js_string \<Rightarrow> InitiateLightningQuoteParams" where
  "usdb_params E r msat recipient descriptionHash =
     \<lparr>iq_idempotencyKey = le_createId E, iq_amountSats = msat div 1000, iq_amountMsat = msat,
      iq_recipientSparkAddress = recipient, iq_lightningNameId = ln_id r, iq_descriptionHash = descriptionHash\<rparr>"

definition handleUsdbCallback ::
  "lnurl_env \<Rightarrow> LightningName \<Rightarrow> nat \<Rightarrow> js_string \<Rightarrow> db \<Rightarrow> usdb_error + js_string \<times> db" where
  "handleUsdbCallback E r msat descriptionHash d =
     bind_result (map_sum UsdbAddress id
       (encodeSparkAddress (le_b32m E) (le_secp E) (linkingPubKeyHex r) (nullish (le_sparkNetwork E) ''MAINNET''))) (\<lambda>recipient.
     bind_result (map_sum UsdbQuote id
       (initiateLightningQuote (le_swap E) (le_quote E)
          (usdb_params E r msat recipient descriptionHash) d)) (\<lambda>(res, d').
       Inr (ir_bolt11 res, d')))"

section \<open>The satoshi route\<close>

record InvoiceResult =
  iv_bolt11 :: js_string
  iv_expiresAt :: time_ms
  iv_mismatch_logged :: bool

text \<open>An invoice without the hash is logged and returned all the same.\<close>

definition lightspark_createInvoice ::
  "lnurl_env \<Rightarrow> js_string \<Rightarrow> nat \<Rightarrow> js_string \<Rightarrow> js_string + InvoiceResult" where
  "lightspark_createInvoice E sparkPubKeyHex msat descriptionHash =
     (case le_wallet E of
        None \<Rightarrow> Inl ''Spark wallet not initialized''
      | Some wallet \<Rightarrow>
          let amountSats = msat div 1000 in
          if amountSats = 0 then Inl ''Amount must be at least 1000 msat (1 sat)''
          else bind_result (wallet sparkPubKeyHex amountSats descriptionHash) (\<lambda>invoice.
            Inr \<lparr>iv_bolt11 = invoice, iv_expiresAt = env_now (le_swap E) + 24 * 60 * 60 * 1000,
                 iv_mismatch_logged = (bolt11DescriptionHash (le_bech32 E) invoice \<noteq> Some descriptionHash)\<rparr>))"

text \<open>\<open>invoice.create\<close>: the columns that are not given take the defaults of the schema.\<close>

definition sats_invoice :: "lnurl_env \<Rightarrow> js_string \<Rightarrow> nat \<Rightarrow> InvoiceResult \<Rightarrow> Invoice" where
  "sats_invoice E nameId amount res =
     \<lparr>inv_id = le_invoice_id E, usernameId = nameId, amountMsat = int amount, bolt11 = iv_bolt11 res,
      inv_expiresAt = iv_expiresAt res, inv_status = ''pending'', receivingCurrency = USDB,
      destinationSparkAddress = None\<rparr>"

definition lnurl_createInvoice ::
  "lnurl_env \<Rightarrow> js_string \<Rightarrow> nat \<Rightarrow> InvoiceResult \<Rightarrow> db \<Rightarrow> db_error + db" where
  "lnurl_createInvoice E nameId amount res d =
     (if find (\<lambda>n. text_eq (le_ck E) (ln_id n) nameId) (lightning_names d) = None then Inl P2003
      else bind_result (tbl_create (le_ck E) invoice_ixs (sats_invoice E nameId amount res) (invoices d))
             (\<lambda>t. Inr (d\<lparr>invoices := t\<rparr>)))"

definition issueSatsBolt11 ::
  "lnurl_env \<Rightarrow> LightningName \<Rightarrow> nat \<Rightarrow> js_string \<Rightarrow> db \<Rightarrow> js_string + js_string \<times> db" where
  "issueSatsBolt11 E r msat descriptionHash d =
     bind_result (lightspark_createInvoice E (linkingPubKeyHex r) msat descriptionHash) (\<lambda>res.
     bind_result (map_sum (le_db_message E) id (lnurl_createInvoice E (ln_id r) msat res d)) (\<lambda>d'.
       Inr (iv_bolt11 res, d')))"

section \<open>The callback\<close>

datatype callback_answer = PayInvoice js_string | CallbackError js_string

definition useUsdbRoute :: "lnurl_env \<Rightarrow> User \<Rightarrow> bool" where
  "useUsdbRoute E u \<longleftrightarrow> le_usdbEnabled E = Some ''true'' \<and> defaultReceivingCurrency u = USDB"

text \<open>An answer that is not an exception is sent with status 200.\<close>

definition handleLnurlCallback ::
  "lnurl_env \<Rightarrow> js_string \<Rightarrow> js_string option \<Rightarrow> db \<Rightarrow> lnurl_exception + callback_answer \<times> db" where
  "handleLnurlCallback E rawUsername amountStr d =
     bind_result (parse_amount amountStr) (\<lambda>msat.
     bind_result (findActiveLightningNameWithUser (le_ck E) rawUsername d) (\<lambda>found.
       case found of
         None \<Rightarrow> Inl NameNotFound
       | Some (r, u) \<Rightarrow>
           if linkingPubKeyHex r = [] then Inl NoPublicKey
           else case descriptionHashFor E (ln_username r) of
               Inl e \<Rightarrow> Inr (CallbackError ''Service unavailable'', d)
             | Inr hash \<Rightarrow>
                 let sats = (case issueSatsBolt11 E r msat hash d of
                               Inl reason \<Rightarrow> Inr (CallbackError reason, d)
                             | Inr (pr, d') \<Rightarrow> Inr (PayInvoice pr, d'))
                 in if useUsdbRoute E u
                    then (case handleUsdbCallback E r msat hash d of
                            Inl e \<Rightarrow> sats
                          | Inr (pr, d') \<Rightarrow> Inr (PayInvoice pr, d'))
                    else sats))"

section \<open>Amounts\<close>

text \<open>
  C23. Amounts are exact. The callback accepts an amount exactly when it is written in decimal
  digits and is a whole number of satoshis between one and ten million; the number that
  it goes on with is the one that was written, although it was read as a double.
\<close>

theorem lnurl_amount_exact:
  "parse_amount (Some s) = Inr n \<longleftrightarrow>
     all_digits s \<and> n = dec_val s \<and> n mod 1000 = 0 \<and> 1000 \<le> n \<and> n \<le> 10000000 * 1000"
proof -
  have le: "10000000000 \<le> MAX_SAFE_INTEGER" by (simp add: MAX_SAFE_INTEGER_def)
  have "js_Number s \<le> MAX_SAFE_INTEGER \<longleftrightarrow> dec_val s \<le> MAX_SAFE_INTEGER"
    unfolding js_Number_def using safe_to_double [of "dec_val s"] to_double_small [of "dec_val s"]
    by (cases "dec_val s < 2 ^ 53") (auto simp: MAX_SAFE_INTEGER_def)
  moreover have "js_Number s = dec_val s" if "js_Number s \<le> MAX_SAFE_INTEGER"
    using that safe_to_double unfolding js_Number_def by blast
  ultimately show ?thesis
    using le unfolding parse_amount_def Let_def nullish_def MIN_SENDABLE_MSAT_def MAX_SENDABLE_MSAT_def
    by (cases "s = []") (auto simp: all_digits_def)
qed

section \<open>Routes\<close>

lemma issueSatsBolt11_Inr:
  assumes "issueSatsBolt11 E r n hash d = Inr (pr, d')"
  obtains res where "lightspark_createInvoice E (linkingPubKeyHex r) n hash = Inr res" "pr = iv_bolt11 res"
    "d' = d\<lparr>invoices := invoices d @ [sats_invoice E (ln_id r) n res]\<rparr>"
  using assms
  by (auto simp: issueSatsBolt11_def lnurl_createInvoice_def bind_result_Inr_iff map_sum_Inr tbl_create_Inr
      split: if_splits)

lemma handleUsdbCallback_Inr:
  assumes "handleUsdbCallback E r n hash d = Inr (pr, d')"
    and "order_by_invoice (le_ck E) (le_createId E) d = None"
  obtains q a expiry ord where "le_quote E (quote_request q) (le_createId E) = Inr a" "iq_descriptionHash q = hash"
    "iq_amountMsat q = n" "iq_lightningNameId q = ln_id r"
    "pr = qr_depositAddress a" "quote_order (le_swap E) q a = Inr ord" "fo_invoiceId ord = le_createId E"
    "d' = d\<lparr>invoices := invoices d @ [quote_invoice q a expiry], flashnet_orders := flashnet_orders d @ [ord]\<rparr>"
    "inv_id (quote_invoice q a expiry) = le_createId E"
proof -
  from assms(1) obtain recipient res where
    i: "initiateLightningQuote (le_swap E) (le_quote E) (usdb_params E r n recipient hash) d = Inr (res, d')" "pr = ir_bolt11 res"
    by (auto simp: handleUsdbCallback_def bind_result_Inr_iff map_sum_Inr)
  define q where "q = usdb_params E r n recipient hash"
  have q: "iq_idempotencyKey q = le_createId E" "iq_descriptionHash q = hash"
      "iq_amountMsat q = n" "iq_lightningNameId q = ln_id r"
    by (simp_all add: q_def usdb_params_def)
  note i = i [folded q_def]
  from i assms(2) q(1) obtain a where a: "le_quote E (quote_request q) (le_createId E) = Inr a"
      "persist_quote (le_swap E) q a d = Inr d'" "pr = qr_depositAddress a"
    by (auto simp: initiateLightningQuote_def bind_result_Inr_iff)
  from a(2) obtain expiry ord where p: "quote_order (le_swap E) q a = Inr ord"
    "d' = d\<lparr>invoices := invoices d @ [quote_invoice q a expiry], flashnet_orders := flashnet_orders d @ [ord]\<rparr>"
    by (rule persist_quote_Inr)
  show thesis
    using a q p quote_order_shape(1) [OF p(1)] by (intro that) (auto simp: quote_invoice_def)
qed

text \<open>A request that is answered passed the checks.\<close>

lemma handleLnurlCallback_found:
  assumes "handleLnurlCallback E raw amountStr d = Inr (ans, d')"
  obtains n r u where "parse_amount amountStr = Inr n"
    "findActiveLightningNameWithUser (le_ck E) raw d = Inr (Some (r, u))" "linkingPubKeyHex r \<noteq> []"
    "r \<in> set (lightning_names d)"
proof -
  from assms obtain n found where p: "parse_amount amountStr = Inr n"
      "findActiveLightningNameWithUser (le_ck E) raw d = Inr found"
    by (auto simp: handleLnurlCallback_def bind_result_Inr_iff)
  with assms obtain r u where "found = Some (r, u)" by (cases found) (auto simp: handleLnurlCallback_def)
  with p assms have "findActiveLightningNameWithUser (le_ck E) raw d = Inr (Some (r, u))" "linkingPubKeyHex r \<noteq> []"
    by (auto simp: handleLnurlCallback_def split: if_splits)
  moreover from this(1) have "r \<in> set (lightning_names d)"
    by (auto simp: findActiveLightningNameWithUser_def findActiveLightningName_def bind_result_Inr_iff find_Some_iff
        split: option.splits)
  ultimately show thesis using p(1) that by blast
qed

text \<open>The answer of a request that passes the checks, by route.\<close>

lemma handleLnurlCallback_routes:
  assumes "parse_amount amountStr = Inr n" "findActiveLightningNameWithUser (le_ck E) raw d = Inr (Some (r, u))"
    and "linkingPubKeyHex r \<noteq> []" and "handleLnurlCallback E raw amountStr d = Inr (ans, d')"
  obtains (unavailable) e where "descriptionHashFor E (ln_username r) = Inl e" "ans = CallbackError ''Service unavailable''" "d' = d"
        | (usdb) hash pr where "descriptionHashFor E (ln_username r) = Inr hash" "useUsdbRoute E u"
            "handleUsdbCallback E r n hash d = Inr (pr, d')" "ans = PayInvoice pr"
        | (sats) hash pr where "descriptionHashFor E (ln_username r) = Inr hash"
            "issueSatsBolt11 E r n hash d = Inr (pr, d')" "ans = PayInvoice pr"
        | (failed) hash reason where "descriptionHashFor E (ln_username r) = Inr hash"
            "issueSatsBolt11 E r n hash d = Inl reason" "ans = CallbackError reason" "d' = d"
proof (cases "descriptionHashFor E (ln_username r)")
  case (Inl e)
  with assms show thesis by (intro unavailable) (simp_all add: handleLnurlCallback_def)
next
  case hash: (Inr hash)
  let ?usdb = "handleUsdbCallback E r n hash d" let ?sats = "issueSatsBolt11 E r n hash d"
  show thesis
  proof (cases "useUsdbRoute E u \<and> is_ok ?usdb")
    case True
    then obtain x where "?usdb = Inr x" using is_okE by blast
    with assms hash True show thesis by (cases x) (auto simp: handleLnurlCallback_def intro: usdb)
  next
    case False
    then have "handleLnurlCallback E raw amountStr d = (case ?sats of
        Inl reason \<Rightarrow> Inr (CallbackError reason, d) | Inr (pr, d') \<Rightarrow> Inr (PayInvoice pr, d'))"
      using assms(1-3) hash by (cases ?usdb) (auto simp: handleLnurlCallback_def Let_def)
    with assms(4) hash show thesis by (cases ?sats) (auto intro: sats failed)
  qed
qed

lemma handleLnurlCallback_answers:
  assumes "parse_amount amountStr = Inr n" "findActiveLightningNameWithUser (le_ck E) raw d = Inr (Some (r, u))"
    and "linkingPubKeyHex r \<noteq> []"
  obtains ans d' where "handleLnurlCallback E raw amountStr d = Inr (ans, d')"
proof -
  have "is_ok (handleLnurlCallback E raw amountStr d)"
    using assms by (simp add: handleLnurlCallback_def Let_def split: sum.split prod.split)
  then show thesis using that is_okE by force
qed

text \<open>
  C16. What a payment request does. A request with an acceptable amount for an active name never
  ends in an exception: the wallet gets an invoice or a reason. With an invoice, exactly one
  invoice row was added, for this name and amount and with the text that is returned, and,
  only on the USDB route, one pending order for it; with a reason nothing was written. The
  USDB route is best effort: whenever an invoice in satoshi could be issued, the
  answer is an invoice, however the USDB route ended.
\<close>

theorem lnurl_callback_outcome:
  assumes "parse_amount amountStr = Inr n" "findActiveLightningNameWithUser (le_ck E) raw d = Inr (Some (r, u))"
    and "linkingPubKeyHex r \<noteq> []" and fresh: "order_by_invoice (le_ck E) (le_createId E) d = None"
  shows "\<exists>ans d'. handleLnurlCallback E raw amountStr d = Inr (ans, d')
    \<and> (case ans of
         CallbackError _ \<Rightarrow> d' = d
       | PayInvoice pr \<Rightarrow> \<exists>inv. invoices d' = invoices d @ [inv] \<and> bolt11 inv = pr \<and> amountMsat inv = int n
           \<and> usernameId inv = ln_id r
           \<and> (flashnet_orders d' = flashnet_orders d
              \<or> useUsdbRoute E u \<and> (\<exists>ord. flashnet_orders d' = flashnet_orders d @ [ord]
                   \<and> fo_invoiceId ord = inv_id inv \<and> order_status ord = Some PENDING_PAYMENT)))
    \<and> (\<forall>hash. descriptionHashFor E (ln_username r) = Inr hash \<and> is_ok (issueSatsBolt11 E r n hash d)
          \<longrightarrow> (\<exists>pr. ans = PayInvoice pr))"
proof -
  obtain ans d' where a: "handleLnurlCallback E raw amountStr d = Inr (ans, d')"
    by (rule handleLnurlCallback_answers [OF assms(1-3)])
  from assms(1-3) a show ?thesis
  proof (cases rule: handleLnurlCallback_routes)
    case (usdb hash pr)
    from handleUsdbCallback_Inr [OF usdb(3) fresh] obtain q x expiry ord where
      o: "iq_amountMsat q = n" "iq_lightningNameId q = ln_id r" "pr = qr_depositAddress x"
        "quote_order (le_swap E) q x = Inr ord" "fo_invoiceId ord = le_createId E"
        "d' = d\<lparr>invoices := invoices d @ [quote_invoice q x expiry], flashnet_orders := flashnet_orders d @ [ord]\<rparr>"
        "inv_id (quote_invoice q x expiry) = le_createId E" by metis
    have "bolt11 (quote_invoice q x expiry) = pr" "amountMsat (quote_invoice q x expiry) = int n"
      "usernameId (quote_invoice q x expiry) = ln_id r"
      using o(1-3) by (simp_all add: quote_invoice_def)
    with a usdb o(5-7) quote_order_shape(4) [OF o(4)] show ?thesis by auto
  next
    case (sats hash pr)
    from sats(2) obtain res where "pr = iv_bolt11 res" "d' = d\<lparr>invoices := invoices d @ [sats_invoice E (ln_id r) n res]\<rparr>"
      by (rule issueSatsBolt11_Inr)
    with a sats show ?thesis by (auto simp: sats_invoice_def)
  qed (use a in auto)
qed

text \<open>
  C14. What an invoice commits to. Let \<open>H\<close> be the SHA-256 of exactly the metadata text that the
  other endpoint serves for the name. An invoice of the USDB route, with the real Flashnet client,
  carries \<open>H\<close> as its description hash, as strict wallets require: another one is never returned. On the
  satoshi route the wallet of the Spark SDK was asked for \<open>H\<close>, for the key of the name and the amount in
  satoshis; whatever invoice it gave is returned, and an error is logged exactly when that invoice
  does not carry \<open>H\<close>. So a payer is never given an invoice with another hash, or none, without
  an entry in the log.
\<close>

theorem issued_invoice_hash:
  assumes client: "le_quote E = (\<lambda>p k. map_sum (\<lambda>e. QuoteError (client_reason e)) id
                                   (createLightningQuote L cfg now now' post p k))"
    and codec: "bech32_decode (le_bech32 E) = bech32_decode L" "bech32_fromWords (le_bech32 E) = bech32_fromWords L"
    and fresh: "order_by_invoice (le_ck E) (le_createId E) d = None"
    and meta: "getLnurlPayMetadata E raw d = Inr m"
    and pay: "handleLnurlCallback E raw amountStr d = Inr (PayInvoice pr, d')"
  shows "let H = bytes_to_hex (le_sha256 E (utf8_bytes (pm_metadata m))) in
    if flashnet_orders d' \<noteq> flashnet_orders d then bolt11DescriptionHash L pr = Some H
    else \<exists>n r wallet res. parse_amount amountStr = Inr n \<and> findActiveLightningName (le_ck E) raw d = Inr (Some r)
      \<and> le_wallet E = Some wallet \<and> wallet (linkingPubKeyHex r) (n div 1000) H = Inr pr
      \<and> lightspark_createInvoice E (linkingPubKeyHex r) n H = Inr res \<and> iv_bolt11 res = pr
      \<and> (iv_mismatch_logged res \<longleftrightarrow> bolt11DescriptionHash L pr \<noteq> Some H)"
proof -
  from pay obtain n r u where p: "parse_amount amountStr = Inr n"
      "findActiveLightningNameWithUser (le_ck E) raw d = Inr (Some (r, u))" "linkingPubKeyHex r \<noteq> []"
    by (rule handleLnurlCallback_found)
  from p(2) have r: "findActiveLightningName (le_ck E) raw d = Inr (Some r)"
    by (auto simp: findActiveLightningNameWithUser_def bind_result_Inr_iff split: option.splits)
  from meta r obtain url domain where m: "domain_of (le_base E) = Inr (url, domain)"
      "pm_metadata m = buildLnurlPayMetadata (ln_username r) domain"
    by (auto simp: getLnurlPayMetadata_def bind_result_Inr_iff map_sum_Inr split: if_splits)
  let ?hash = "bytes_to_hex (le_sha256 E (utf8_bytes (pm_metadata m)))"
  have hash: "descriptionHashFor E (ln_username r) = Inr ?hash"
    using m by (simp add: descriptionHashFor_def lnurlPayDescriptionHash_def)
  from p pay show ?thesis
  proof (cases rule: handleLnurlCallback_routes)
    case (usdb h pr')
    from handleUsdbCallback_Inr [OF usdb(3) fresh] obtain q a expiry ord where
      a: "le_quote E (quote_request q) (le_createId E) = Inr a" "iq_descriptionHash q = h" "pr' = qr_depositAddress a"
        "d' = d\<lparr>invoices := invoices d @ [quote_invoice q a expiry], flashnet_orders := flashnet_orders d @ [ord]\<rparr>"
      by metis
    have "createLightningQuote L cfg now now' post (quote_request q) (le_createId E) = Inr a"
      using a(1) unfolding client by (auto simp: map_sum_Inr)
    then have "bolt11DescriptionHash L pr' = Some (toLowerCase h)"
      using createLightningQuote_hash a(2,3) by (simp add: quote_request_def)
    moreover have "h = ?hash" "pr = pr'" using usdb(1,4) hash by simp_all
    ultimately have "bolt11DescriptionHash L pr = Some ?hash" by (simp only: bytes_to_hex_lower)
    with a(4) show ?thesis by (simp add: Let_def)
  next
    case (sats h pr')
    then have h: "h = ?hash" "pr = pr'" using hash by simp_all
    from sats(2) obtain res where s: "lightspark_createInvoice E (linkingPubKeyHex r) n h = Inr res" "pr' = iv_bolt11 res"
      "d' = d\<lparr>invoices := invoices d @ [sats_invoice E (ln_id r) n res]\<rparr>"
      by (rule issueSatsBolt11_Inr)
    then obtain w where w: "le_wallet E = Some w" "w (linkingPubKeyHex r) (n div 1000) h = Inr (iv_bolt11 res)"
      "iv_mismatch_logged res = (bolt11DescriptionHash (le_bech32 E) (iv_bolt11 res) \<noteq> Some h)"
      by (auto simp: lightspark_createInvoice_def bind_result_Inr_iff Let_def split: option.splits if_splits)
    moreover have "bolt11DescriptionHash (le_bech32 E) = bolt11DescriptionHash L"
      unfolding bolt11DescriptionHash_def codec ..
    ultimately show ?thesis using s h p(1) r by (simp add: Let_def)
  qed simp_all
qed

text \<open>The invoices of the satoshi route are stored with the currency that the schema fills in.\<close>

lemma sats_invoice_stored_as_usdb: "receivingCurrency (sats_invoice E nameId n res) = USDB"
  by (simp add: sats_invoice_def)

section \<open>A concrete payment\<close>

definition demo_hash :: js_string where "demo_hash = bytes_to_hex (replicate 32 0)"

definition demo_wallet :: spark_wallet where
  "demo_wallet k s h = (if h = demo_hash then Inr ''lnbc10n1'' else Inl ''refused'')"

definition demo_client :: flashnet_quote where
  "demo_client = (\<lambda>p k. map_sum (\<lambda>e. QuoteError (client_reason e)) id
     (createLightningQuote demo_invoice_lib \<lparr>fc_apiBase = [], fc_apiKey = ''k'', fc_webhookSecret = []\<rparr> 0 0
        (\<lambda>p k. QuoteNetworkError) p k))"

definition demo_payee :: LightningName where
  "demo_payee = demo_name\<lparr>linkingPubKeyHex := bytes_to_hex (replicate 33 2)\<rparr>"

definition demo_lnurl :: lnurl_env where
  "demo_lnurl = \<lparr>le_base = \<lparr>bu_publicBaseUrl = Some ''https://h'', bu_hostname = (\<lambda>u. Some ''h'')\<rparr>,
     le_usdbEnabled = Some ''true'', le_sparkNetwork = None, le_swap = demo_env, le_quote = demo_client,
     le_createId = ''i9'', le_invoice_id = ''i8'', le_secp = demo_secp, le_b32m = demo_b32m,
     le_bech32 = \<lparr>bech32_decode = bech32_decode demo_invoice_lib, bech32_fromWords = bech32_fromWords demo_invoice_lib\<rparr>,
     le_sha256 = (\<lambda>b. replicate 32 0), le_wallet = Some demo_wallet, le_db_message = (\<lambda>e. ''db'')\<rparr>"

definition demo_pay_db :: db where
  "demo_pay_db = demo_db\<lparr>lightning_names := [demo_payee],
     users := [\<lparr>user_id = ''u1'', user_updatedAt = 0, defaultReceivingCurrency = USDB, bonusUsernameChanges = 0\<rparr>]\<rparr>"

lemma demo_client_fails: "demo_client p k = Inl (QuoteError ''Flashnet service unreachable'')"
  by (simp add: demo_client_def createLightningQuote_def client_reason_def)

lemma demo_payee_found:
  "findActiveLightningNameWithUser id ''alice'' demo_pay_db = Inr (Some (demo_payee, hd (users demo_pay_db)))"
  by code_simp

lemma demo_amount: "parse_amount (Some ''1000'') = Inr 1000"
  by (simp add: parse_amount_def nullish_def Let_def js_Number_def MIN_SENDABLE_MSAT_def MAX_SENDABLE_MSAT_def
      MAX_SAFE_INTEGER_def all_digits_def is_digit_def code_in_def dec_val_def digit_val_def)

lemma demo_key: "linkingPubKeyHex demo_payee \<noteq> []"
  by (simp add: demo_payee_def bytes_to_hex_def byte_hex_def)

lemma demo_fresh_key: "order_by_invoice id ''i9'' demo_pay_db = None"
  by code_simp

lemma demo_env_ck [simp]: "env_ck (le_swap demo_lnurl) = id" "le_createId demo_lnurl = ''i9''"
  by (simp_all add: demo_lnurl_def demo_env_def)

lemma demo_hash_served: "descriptionHashFor demo_lnurl (ln_username demo_payee) = Inr demo_hash"
  by (simp add: descriptionHashFor_def domain_of_def demo_lnurl_def nullish_def getDomainFromBaseUrl_def
      lnurlPayDescriptionHash_def demo_hash_def)

lemma demo_sats_issued: "is_ok (issueSatsBolt11 demo_lnurl demo_payee 1000 demo_hash demo_pay_db)"
  by (simp add: issueSatsBolt11_def lightspark_createInvoice_def demo_lnurl_def demo_wallet_def Let_def
      lnurl_createInvoice_def text_eq_def demo_pay_db_def demo_payee_def demo_name_def demo_env_def
      tbl_create_def violated_def invoice_ixs_def demo_db_def sats_invoice_def clash_def row_key_def demo_invoice_def)

text \<open>Flashnet is down, and the payment still gets its invoice.\<close>

theorem lnurl_callback_outcome_witness:
  "\<exists>pr d'. handleLnurlCallback demo_lnurl ''alice'' (Some ''1000'') demo_pay_db = Inr (PayInvoice pr, d')
     \<and> length (invoices d') = Suc (length (invoices demo_pay_db))"
proof -
  obtain ans d' where a: "handleLnurlCallback demo_lnurl ''alice'' (Some ''1000'') demo_pay_db = Inr (ans, d')"
    and o: "case ans of CallbackError _ \<Rightarrow> d' = demo_pay_db
       | PayInvoice pr \<Rightarrow> \<exists>inv. invoices d' = invoices demo_pay_db @ [inv] \<and> bolt11 inv = pr \<and> amountMsat inv = int 1000
           \<and> usernameId inv = ln_id demo_payee
           \<and> (flashnet_orders d' = flashnet_orders demo_pay_db
              \<or> useUsdbRoute demo_lnurl (hd (users demo_pay_db)) \<and> (\<exists>ord. flashnet_orders d' = flashnet_orders demo_pay_db @ [ord]
                   \<and> fo_invoiceId ord = inv_id inv \<and> order_status ord = Some PENDING_PAYMENT))"
    and p: "\<forall>hash. descriptionHashFor demo_lnurl (ln_username demo_payee) = Inr hash
        \<and> is_ok (issueSatsBolt11 demo_lnurl demo_payee 1000 hash demo_pay_db) \<longrightarrow> (\<exists>pr. ans = PayInvoice pr)"
    using lnurl_callback_outcome [of "Some ''1000''" 1000 demo_lnurl "''alice''" demo_pay_db demo_payee "hd (users demo_pay_db)"]
      demo_amount demo_payee_found demo_key demo_fresh_key by auto
  from p demo_hash_served demo_sats_issued obtain pr where "ans = PayInvoice pr" by blast
  with a o show ?thesis by auto
qed

text \<open>Flashnet up, which takes the USDB route; and a wallet that ignores the hash it is asked for.\<close>

definition demo_usdb :: lnurl_env where
  "demo_usdb = demo_lnurl\<lparr>le_quote := (\<lambda>p k. map_sum (\<lambda>e. QuoteError (client_reason e)) id
     (createLightningQuote demo_invoice_lib \<lparr>fc_apiBase = [], fc_apiKey = ''k'', fc_webhookSecret = []\<rparr> 0 0
        (\<lambda>p k. QuoteBody False (Some demo_raw_quote)) p k))\<rparr>"

definition demo_careless :: lnurl_env where
  "demo_careless = demo_lnurl\<lparr>le_sha256 := \<lambda>b. replicate 32 1, le_wallet := Some (\<lambda>k s h. Inr ''lnbc10n1'')\<rparr>"

lemma demo_quoted:
  assumes "lq_amount p = ''1''" "lq_descriptionHash p = Some demo_hash"
  obtains r where "le_quote demo_usdb p k = Inr r" "qr_depositAddress r = ''lnbc10n1''" "qr_estimatedOut r = ''9''"
    "qr_lockedMinAmountOut r = None" "qr_feeAmount r = ''1''" "qr_roundingFeeAmount r = ''0''" "qr_totalFeeAmount r = ''1''"
proof -
  have call: "le_quote demo_usdb p k = map_sum (\<lambda>e. QuoteError (client_reason e)) id demo_quote_call"
    using assms by (simp add: demo_usdb_def demo_quote_call_def createLightningQuote_def demo_quote_request_def demo_hash_def)
  obtain r where r: "demo_quote_call = Inr r" using is_okE [OF demo_quote_accepted] by blast
  from r have "qr_depositAddress r = ''lnbc10n1''" "qr_estimatedOut r = ''9''" "qr_lockedMinAmountOut r = None"
    "qr_feeAmount r = ''1''" "qr_roundingFeeAmount r = ''0''" "qr_totalFeeAmount r = ''1''"
    by (auto simp: demo_quote_call_def createLightningQuote_def demo_quote_request_def validateLightningQuote_def
        need_def ensure_def quote_response_def demo_raw_quote_def nullish_def bind_result_Inr_iff split: sum.splits if_splits)
  moreover have "le_quote demo_usdb p k = Inr r" unfolding call r by simp
  ultimately show thesis by (intro that)
qed

definition demo_unpaid :: db where
  "demo_unpaid = demo_pay_db\<lparr>flashnet_orders := []\<rparr>"

lemma demo_unpaid_found:
  "findActiveLightningNameWithUser id ''alice'' demo_unpaid = Inr (Some (demo_payee, hd (users demo_pay_db)))"
  by code_simp

lemma demo_served:
  assumes "E = demo_usdb \<or> E = demo_careless"
  shows "findActiveLightningNameWithUser (le_ck E) ''alice'' demo_unpaid = Inr (Some (demo_payee, hd (users demo_pay_db)))"
    and "descriptionHashFor E (ln_username demo_payee) = Inr (bytes_to_hex (le_sha256 E x))"
    and "order_by_invoice (le_ck E) (le_createId E) demo_unpaid = None"
    and "bech32_decode (le_bech32 E) = bech32_decode demo_invoice_lib"
    and "bech32_fromWords (le_bech32 E) = bech32_fromWords demo_invoice_lib"
    and "\<exists>m. getLnurlPayMetadata E ''alice'' demo_unpaid = Inr m"
proof -
  have "le_ck E = id" using assms demo_env_ck(1) by (auto simp: demo_usdb_def demo_careless_def)
  then show f: "findActiveLightningNameWithUser (le_ck E) ''alice'' demo_unpaid = Inr (Some (demo_payee, hd (users demo_pay_db)))"
    by (simp add: demo_unpaid_found)
  show "descriptionHashFor E (ln_username demo_payee) = Inr (bytes_to_hex (le_sha256 E x))"
    using assms by (auto simp: descriptionHashFor_def domain_of_def demo_lnurl_def demo_usdb_def demo_careless_def nullish_def
        getDomainFromBaseUrl_def lnurlPayDescriptionHash_def)
  show "order_by_invoice (le_ck E) (le_createId E) demo_unpaid = None"
    by (simp add: demo_unpaid_def order_by_invoice_def)
  show "bech32_decode (le_bech32 E) = bech32_decode demo_invoice_lib"
    "bech32_fromWords (le_bech32 E) = bech32_fromWords demo_invoice_lib"
    using assms by (auto simp: demo_usdb_def demo_careless_def demo_lnurl_def)
  have "findActiveLightningName (le_ck E) ''alice'' demo_unpaid = Inr (Some demo_payee)"
    using f by (auto simp: findActiveLightningNameWithUser_def bind_result_Inr_iff split: option.splits)
  then show "\<exists>m. getLnurlPayMetadata E ''alice'' demo_unpaid = Inr m"
    using assms by (auto simp: getLnurlPayMetadata_def domain_of_def demo_lnurl_def demo_usdb_def demo_careless_def nullish_def
        getDomainFromBaseUrl_def demo_env_def)
qed

lemma demo_usdb_pays:
  "\<exists>pr d'. handleLnurlCallback demo_usdb ''alice'' (Some ''1000'') demo_unpaid = Inr (PayInvoice pr, d')
     \<and> flashnet_orders d' \<noteq> flashnet_orders demo_unpaid"
proof -
  note f = demo_served [of demo_usdb, OF disjI1 [OF refl]]
  let ?q = "usdb_params demo_usdb demo_payee 1000 ''spark1'' demo_hash"
  have addr: "encodeSparkAddress (le_b32m demo_usdb) (le_secp demo_usdb) (linkingPubKeyHex demo_payee)
      (nullish (le_sparkNetwork demo_usdb) ''MAINNET'') = Inr ''spark1''"
    by (simp add: demo_usdb_def demo_lnurl_def nullish_def demo_payee_def encodeSparkAddress_def compress_key_def
        NetworkPrefix_def demo_b32m_def)
  have "dec_str 1 = ''1''" by code_simp
  then have "lq_amount (quote_request ?q) = ''1''" "lq_descriptionHash (quote_request ?q) = Some demo_hash"
    by (simp_all add: quote_request_def usdb_params_def)
  then obtain r where q: "le_quote demo_usdb (quote_request ?q) ''i9'' = Inr r" "qr_depositAddress r = ''lnbc10n1''"
    "qr_estimatedOut r = ''9''" "qr_lockedMinAmountOut r = None" "qr_feeAmount r = ''1''" "qr_roundingFeeAmount r = ''0''"
    "qr_totalFeeAmount r = ''1''" by (rule demo_quoted)
  have dec: "usdbSmallestUnitsToDecimal demo_dec s = Inr (of_nat (dec_val s) / 1000000)" if "all_digits s" for s
    using that by (simp add: usdbSmallestUnitsToDecimal_def demo_dec_def)
  have "all_digits ''9''" "all_digits ''1''" "all_digits ''0''" by code_simp+
  then obtain a b c where dec': "usdbSmallestUnitsToDecimal demo_dec ''9'' = Inr a"
    "usdbSmallestUnitsToDecimal demo_dec ''1'' = Inr b" "usdbSmallestUnitsToDecimal demo_dec ''0'' = Inr c"
    using dec by blast
  have env: "env_dec (le_swap demo_usdb) = demo_dec" "env_ck (le_swap demo_usdb) = id" "le_createId demo_usdb = ''i9''"
    "env_parseDate (le_swap demo_usdb) t = Some 5000" for t
    by (simp_all add: demo_usdb_def demo_lnurl_def demo_env_def)
  obtain ord where ord: "quote_order (le_swap demo_usdb) ?q r = Inr ord"
    using dec' q by (simp add: quote_order_def env)
  have "iq_idempotencyKey ?q = ''i9''" "iq_lightningNameId ?q = ln_id demo_payee" by (simp_all add: usdb_params_def env)
  then have p: "persist_quote (le_swap demo_usdb) ?q r demo_unpaid
      = Inr (demo_unpaid\<lparr>invoices := invoices demo_unpaid @ [quote_invoice ?q r 5000], flashnet_orders := [ord]\<rparr>)"
    using ord by (simp add: persist_quote_def env demo_unpaid_def demo_pay_db_def text_eq_def tbl_create_def violated_def
        invoice_ixs_def flashnet_order_ixs_def demo_db_def clash_def row_key_def demo_invoice_def quote_invoice_def)
  have "initiateLightningQuote (le_swap demo_usdb) (le_quote demo_usdb) ?q demo_unpaid
      = Inr (\<lparr>ir_bolt11 = ''lnbc10n1'', ir_replayed = False\<rparr>,
             demo_unpaid\<lparr>invoices := invoices demo_unpaid @ [quote_invoice ?q r 5000], flashnet_orders := [ord]\<rparr>)"
    using q(1,2) p by (simp add: initiateLightningQuote_def usdb_params_def env order_by_invoice_def demo_unpaid_def)
  then have u: "handleUsdbCallback demo_usdb demo_payee 1000 demo_hash demo_unpaid
      = Inr (''lnbc10n1'', demo_unpaid\<lparr>invoices := invoices demo_unpaid @ [quote_invoice ?q r 5000], flashnet_orders := [ord]\<rparr>)"
    by (simp add: handleUsdbCallback_def addr)
  have "useUsdbRoute demo_usdb (hd (users demo_pay_db))"
    by (simp add: useUsdbRoute_def demo_usdb_def demo_lnurl_def demo_pay_db_def)
  moreover have "descriptionHashFor demo_usdb (ln_username demo_payee) = Inr demo_hash"
    using f(2) by (simp add: demo_usdb_def demo_lnurl_def demo_hash_def)
  ultimately have "handleLnurlCallback demo_usdb ''alice'' (Some ''1000'') demo_unpaid
      = Inr (PayInvoice ''lnbc10n1'', demo_unpaid\<lparr>invoices := invoices demo_unpaid @ [quote_invoice ?q r 5000], flashnet_orders := [ord]\<rparr>)"
    using demo_amount f(1) demo_key u by (simp add: handleLnurlCallback_def)
  then show ?thesis by (auto simp: demo_unpaid_def)
qed

lemma demo_careless_pays:
  "\<exists>d'. handleLnurlCallback demo_careless ''alice'' (Some ''1000'') demo_unpaid = Inr (PayInvoice ''lnbc10n1'', d')
     \<and> flashnet_orders d' = flashnet_orders demo_unpaid"
proof -
  note f = demo_served [of demo_careless, OF disjI2 [OF refl]]
  have quote: "le_quote demo_careless p k = Inl (QuoteError ''Flashnet service unreachable'')" for p k
    using demo_client_fails by (simp add: demo_careless_def demo_lnurl_def)
  have "order_by_invoice (env_ck (le_swap demo_careless)) (le_createId demo_careless) demo_unpaid = None" by (rule f(3))
  then have "initiateLightningQuote (le_swap demo_careless) (le_quote demo_careless)
      (usdb_params demo_careless demo_payee 1000 a h) demo_unpaid = Inl (QuoteError ''Flashnet service unreachable'')" for a h
    by (simp add: initiateLightningQuote_def usdb_params_def quote)
  then have u: "\<exists>e. handleUsdbCallback demo_careless demo_payee 1000 h demo_unpaid = Inl e" for h
    by (cases "encodeSparkAddress (le_b32m demo_careless) (le_secp demo_careless) (linkingPubKeyHex demo_payee)
          (nullish (le_sparkNetwork demo_careless) ''MAINNET'')") (simp_all add: handleUsdbCallback_def)
  have "\<exists>d'. issueSatsBolt11 demo_careless demo_payee 1000 h demo_unpaid = Inr (''lnbc10n1'', d')
      \<and> flashnet_orders d' = flashnet_orders demo_unpaid" for h
    by (simp add: issueSatsBolt11_def lightspark_createInvoice_def demo_careless_def demo_lnurl_def Let_def
        lnurl_createInvoice_def text_eq_def demo_unpaid_def demo_pay_db_def demo_env_def
        tbl_create_def violated_def invoice_ixs_def demo_db_def sats_invoice_def clash_def row_key_def demo_invoice_def)
  then obtain d' where "issueSatsBolt11 demo_careless demo_payee 1000 (bytes_to_hex (le_sha256 demo_careless [])) demo_unpaid
      = Inr (''lnbc10n1'', d')" "flashnet_orders d' = flashnet_orders demo_unpaid" by blast
  moreover obtain e where "handleUsdbCallback demo_careless demo_payee 1000 (bytes_to_hex (le_sha256 demo_careless [])) demo_unpaid = Inl e"
    using u by blast
  ultimately show ?thesis
    using demo_amount f(1) f(2) [of "[]"] demo_key by (simp add: handleLnurlCallback_def Let_def)
qed

lemma demo_carries: "bolt11DescriptionHash demo_invoice_lib text = Some demo_hash"
  using demo_tags
  by (simp add: bolt11DescriptionHash_def demo_invoice_lib_def DESCRIPTION_HASH_TAG_def DESCRIPTION_HASH_WORDS_def
      demo_hash_def demo_fields_def)

lemma demo_hash_differs: "demo_hash \<noteq> bytes_to_hex (replicate 32 1)"
  by code_simp

text \<open>
  On the USDB route the invoice carries the hash; the careless wallet's invoice with another hash is
  returned, and logged.
\<close>

theorem issued_invoice_hash_witness:
  "(\<exists>pr d' m. handleLnurlCallback demo_usdb ''alice'' (Some ''1000'') demo_unpaid = Inr (PayInvoice pr, d')
      \<and> flashnet_orders d' \<noteq> flashnet_orders demo_unpaid \<and> getLnurlPayMetadata demo_usdb ''alice'' demo_unpaid = Inr m
      \<and> bolt11DescriptionHash demo_invoice_lib pr = Some (bytes_to_hex (le_sha256 demo_usdb (utf8_bytes (pm_metadata m)))))
   \<and> (\<exists>pr d' m key n res. handleLnurlCallback demo_careless ''alice'' (Some ''1000'') demo_unpaid = Inr (PayInvoice pr, d')
      \<and> getLnurlPayMetadata demo_careless ''alice'' demo_unpaid = Inr m
      \<and> bolt11DescriptionHash demo_invoice_lib pr \<noteq> Some (bytes_to_hex (le_sha256 demo_careless (utf8_bytes (pm_metadata m))))
      \<and> lightspark_createInvoice demo_careless key n (bytes_to_hex (le_sha256 demo_careless (utf8_bytes (pm_metadata m)))) = Inr res
      \<and> iv_bolt11 res = pr \<and> iv_mismatch_logged res)"
proof
  note f = demo_served [of demo_usdb, OF disjI1 [OF refl]]
  obtain pr d' where p: "handleLnurlCallback demo_usdb ''alice'' (Some ''1000'') demo_unpaid = Inr (PayInvoice pr, d')"
    "flashnet_orders d' \<noteq> flashnet_orders demo_unpaid" using demo_usdb_pays by blast
  obtain m where m: "getLnurlPayMetadata demo_usdb ''alice'' demo_unpaid = Inr m" using f(6) by blast
  have q: "le_quote demo_usdb = (\<lambda>p k. map_sum (\<lambda>e. QuoteError (client_reason e)) id
     (createLightningQuote demo_invoice_lib \<lparr>fc_apiBase = [], fc_apiKey = ''k'', fc_webhookSecret = []\<rparr> 0 0
        (\<lambda>p k. QuoteBody False (Some demo_raw_quote)) p k))" by (simp add: demo_usdb_def)
  show "\<exists>pr d' m. handleLnurlCallback demo_usdb ''alice'' (Some ''1000'') demo_unpaid = Inr (PayInvoice pr, d')
      \<and> flashnet_orders d' \<noteq> flashnet_orders demo_unpaid \<and> getLnurlPayMetadata demo_usdb ''alice'' demo_unpaid = Inr m
      \<and> bolt11DescriptionHash demo_invoice_lib pr = Some (bytes_to_hex (le_sha256 demo_usdb (utf8_bytes (pm_metadata m))))"
    using issued_invoice_hash [OF q f(4,5,3) m p(1)] p m by (auto simp: Let_def)
next
  note f = demo_served [of demo_careless, OF disjI2 [OF refl]]
  obtain d' where p: "handleLnurlCallback demo_careless ''alice'' (Some ''1000'') demo_unpaid = Inr (PayInvoice ''lnbc10n1'', d')"
    "flashnet_orders d' = flashnet_orders demo_unpaid" using demo_careless_pays by blast
  obtain m where m: "getLnurlPayMetadata demo_careless ''alice'' demo_unpaid = Inr m" using f(6) by blast
  have q: "le_quote demo_careless = demo_client" by (simp add: demo_careless_def demo_lnurl_def)
  have other: "Some demo_hash \<noteq> Some (bytes_to_hex (le_sha256 demo_careless b))" for b
    by (simp add: demo_careless_def demo_hash_differs)
  have "\<exists>key n res. lightspark_createInvoice demo_careless key n (bytes_to_hex (le_sha256 demo_careless (utf8_bytes (pm_metadata m)))) = Inr res
      \<and> iv_bolt11 res = ''lnbc10n1'' \<and> iv_mismatch_logged res"
    using issued_invoice_hash [OF q [unfolded demo_client_def] f(4,5,3) m p(1)] p(2) demo_carries other
    by (simp add: Let_def) blast
  with p(1) m show "\<exists>pr d' m key n res. handleLnurlCallback demo_careless ''alice'' (Some ''1000'') demo_unpaid = Inr (PayInvoice pr, d')
      \<and> getLnurlPayMetadata demo_careless ''alice'' demo_unpaid = Inr m
      \<and> bolt11DescriptionHash demo_invoice_lib pr \<noteq> Some (bytes_to_hex (le_sha256 demo_careless (utf8_bytes (pm_metadata m))))
      \<and> lightspark_createInvoice demo_careless key n (bytes_to_hex (le_sha256 demo_careless (utf8_bytes (pm_metadata m)))) = Inr res
      \<and> iv_bolt11 res = pr \<and> iv_mismatch_logged res"
    using demo_carries other by metis
qed

end
