(* ===== verification/Webhook.thy ===== *)
theory Webhook
  imports Flashnet
begin

text \<open>
  The webhook receiver, \<open>src/swap/flashnet-webhook.controller.ts\<close>, and its freshness window,
  \<open>src/swap/webhook-timestamp.ts\<close>. The answer is the HTTP outcome together with the store.
\<close>

section \<open>Freshness\<close>

definition DEFAULT_WEBHOOK_MAX_SKEW_MS :: int where "DEFAULT_WEBHOOK_MAX_SKEW_MS = 5 * 60 * 1000"
definition MAX_WEBHOOK_MAX_SKEW_MS :: int where "MAX_WEBHOOK_MAX_SKEW_MS = 60 * 60 * 1000"
definition MILLISECOND_THRESHOLD :: int where "MILLISECOND_THRESHOLD = 10 ^ 12"

definition timestamp_ms :: "js_string \<Rightarrow> time_ms" where
  "timestamp_ms raw =
     (let value = int (js_Number raw)
      in if value < MILLISECOND_THRESHOLD then value * 1000 else value)"

definition isFreshTimestamp :: "js_string \<Rightarrow> time_ms \<Rightarrow> int \<Rightarrow> bool" where
  "isFreshTimestamp raw nowMs maxSkewMs =
     (if \<not> digits_between 1 16 raw then False
      else \<bar>nowMs - timestamp_ms raw\<bar> \<le> maxSkewMs)"

definition readMaxSkewMs :: "js_string option \<Rightarrow> int" where
  "readMaxSkewMs raw =
     (case raw of
        None \<Rightarrow> DEFAULT_WEBHOOK_MAX_SKEW_MS
      | Some s \<Rightarrow>
          if s = [] then DEFAULT_WEBHOOK_MAX_SKEW_MS
          else if digits_between 1 10 s \<and> 0 < int (js_Number s) \<and> int (js_Number s) \<le> MAX_WEBHOOK_MAX_SKEW_MS
          then int (js_Number s)
          else DEFAULT_WEBHOOK_MAX_SKEW_MS)"

section \<open>The handler\<close>

record webhook_request =
  wr_rawBody :: "buffer option"
  wr_signature :: "js_string option"
  wr_timestamp :: "js_string option"

datatype webhook_response =
    RawBodyUnavailable \<comment> \<open>400\<close>
  | MissingHeaders \<comment> \<open>401\<close>
  | TimestampOutOfRange \<comment> \<open>401\<close>
  | InvalidSignature \<comment> \<open>401\<close>
  | NoContent \<comment> \<open>204\<close>
  | BodyTypeError \<comment> \<open>500, a property of something that is not an object\<close>
  | ServerError swap_error \<comment> \<open>500, the handler threw\<close>

text \<open>
  What \<open>JSON.parse\<close> makes of a body: it throws; or it yields a value without the shape of
  \<open>FlashnetWebhookPayload\<close>, such as \<open>null\<close>, on which the handler throws; or a payload.
\<close>

datatype parsed_body = NotJson | WrongShape | Parsed FlashnetWebhookPayload

text \<open>
  The verifier and the JSON parser are arguments. The header timestamp replaces the one of the body.
\<close>

definition handleWebhook ::
  "(buffer \<Rightarrow> js_string \<Rightarrow> js_string \<Rightarrow> bool) \<Rightarrow> (buffer \<Rightarrow> parsed_body) \<Rightarrow> int
   \<Rightarrow> swap_env \<Rightarrow> webhook_request \<Rightarrow> db \<Rightarrow> webhook_response \<times> db" where
  "handleWebhook verify parse maxSkewMs E req d =
     (case wr_rawBody req of
        None \<Rightarrow> (RawBodyUnavailable, d)
      | Some rawBody \<Rightarrow>
          (let signature = nullish (wr_signature req) []; timestamp = nullish (wr_timestamp req) [] in
           if signature = [] \<or> timestamp = [] then (MissingHeaders, d)
           else if \<not> isFreshTimestamp timestamp (env_now E) maxSkewMs then (TimestampOutOfRange, d)
           else if \<not> verify rawBody signature timestamp then (InvalidSignature, d)
           else case parse rawBody of
               NotJson \<Rightarrow> (NoContent, d)
             | WrongShape \<Rightarrow> (BodyTypeError, d)
             | Parsed payload \<Rightarrow>
                 (case applyWebhookEvent E (payload\<lparr>wp_timestamp := timestamp\<rparr>) d of
                    Inl e \<Rightarrow> (ServerError e, d)
                  | Inr d' \<Rightarrow> (NoContent, d'))))"

lemma handleWebhook_changes:
  assumes "handleWebhook verify parse skew E req d = (resp, d')" and "d' \<noteq> d"
  shows "\<exists>body sig ts payload. wr_rawBody req = Some body \<and> wr_signature req = Some sig
           \<and> wr_timestamp req = Some ts \<and> isFreshTimestamp ts (env_now E) skew \<and> verify body sig ts
           \<and> parse body = Parsed payload \<and> resp = NoContent
           \<and> applyWebhookEvent E (payload\<lparr>wp_timestamp := ts\<rparr>) d = Inr d'"
  using assms
  by (auto simp: handleWebhook_def Let_def nullish_def split: option.splits if_splits sum.splits parsed_body.splits)

section \<open>Properties\<close>

lemma digits_between_dec_val: "digits_between m n s \<Longrightarrow> dec_val s < 10 ^ n"
proof -
  have "list_all is_digit s \<Longrightarrow> dec_val s < 10 ^ length s" for s
  proof (induction s rule: rev_induct)
    case (snoc c s)
    then have "digit_val c \<le> 9" by (auto simp: is_digit_def code_in_def digit_val_def)
    with snoc show ?case by (simp add: dec_val_snoc)
  qed (simp add: dec_val_def)
  moreover have "10 ^ length s \<le> (10 :: nat) ^ n" if "length s \<le> n"
    using that by (simp add: power_increasing)
  ultimately show "digits_between m n s \<Longrightarrow> dec_val s < 10 ^ n"
    unfolding digits_between_def by (meson order_less_le_trans)
qed

lemma js_Number_small: "digits_between m 15 s \<Longrightarrow> js_Number s = dec_val s"
  using digits_between_dec_val [of m 15 s] by (simp add: js_Number_def)

text \<open>
  The configured window is always between one millisecond and one hour: a value in plain
  decimal milliseconds within the bounds is used as it is, everything else, including
  other number formats, falls back to five minutes.
\<close>

theorem webhook_window_bounded:
  "0 < readMaxSkewMs raw \<and> readMaxSkewMs raw \<le> 60 * 60 * 1000
   \<and> (readMaxSkewMs raw = 5 * 60 * 1000
      \<or> (\<exists>s. raw = Some s \<and> list_all is_digit s \<and> readMaxSkewMs raw = int (dec_val s)))"
proof -
  have "js_Number s = dec_val s" if "digits_between 1 10 s" for s
    using js_Number_small [of 1 s] that by (simp add: digits_between_def)
  then show ?thesis
    by (auto simp: readMaxSkewMs_def DEFAULT_WEBHOOK_MAX_SKEW_MS_def MAX_WEBHOOK_MAX_SKEW_MS_def
        digits_between_def split: option.splits if_splits)
qed

text \<open>
  Nothing reaches the store unauthenticated or stale: a request that changes the store carried
  a body and a signature that the verifier accepts for exactly that body and header
  timestamp, and the timestamp, read in seconds or milliseconds, was within the window
  around the server clock.
\<close>

theorem webhook_writes_are_authenticated:
  assumes "handleWebhook verify parse skew E req d = (resp, d')" and "d' \<noteq> d"
  shows "\<exists>body sig ts. wr_rawBody req = Some body \<and> wr_signature req = Some sig \<and> wr_timestamp req = Some ts
           \<and> verify body sig ts \<and> all_digits ts \<and> \<bar>env_now E - timestamp_ms ts\<bar> \<le> skew"
proof -
  from handleWebhook_changes [OF assms] obtain body sig ts where
    h: "wr_rawBody req = Some body" "wr_signature req = Some sig" "wr_timestamp req = Some ts"
    "isFreshTimestamp ts (env_now E) skew" "verify body sig ts" by blast
  from h(4) have "all_digits ts" "\<bar>env_now E - timestamp_ms ts\<bar> \<le> skew"
    by (auto simp: isFreshTimestamp_def digits_between_def all_digits_def split: if_splits)
  with h show ?thesis by blast
qed

text \<open>
  A request that is repeated with nothing written in between does no harm. If a request changed the
  store, sending the identical request to that store, whatever the clock shows, does not change it:
  inside the window it is acknowledged, outside the window it is rejected. What holds with other
  writes in between is in \<open>Deliveries\<close>.
\<close>

theorem webhook_replay_harmless:
  assumes "events_uniq (env_ck E) d" "orders_uniq (env_ck E) d" and "env_ck E2 = env_ck E"
    and "handleWebhook verify parse skew E req d = (resp, d')" and "d' \<noteq> d"
  shows "\<exists>ts. wr_timestamp req = Some ts
           \<and> handleWebhook verify parse skew E2 req d' =
               (if isFreshTimestamp ts (env_now E2) skew then NoContent else TimestampOutOfRange, d')"
proof -
  from handleWebhook_changes [OF assms(4,5)] obtain body sig ts payload where
    h: "wr_rawBody req = Some body" "wr_signature req = Some sig" "wr_timestamp req = Some ts"
       "verify body sig ts" "parse body = Parsed payload"
       "applyWebhookEvent E (payload\<lparr>wp_timestamp := ts\<rparr>) d = Inr d'" by blast
  have "applyWebhookEvent E2 (payload\<lparr>wp_timestamp := ts\<rparr>) d' = Inr d'"
    using assms(1-3) h(6) by (rule webhook_redelivery)
  moreover have "sig \<noteq> []" "ts \<noteq> []"
    using assms(4,5) h(1-3) by (auto simp: handleWebhook_def nullish_def)
  ultimately show ?thesis using h by (simp add: handleWebhook_def nullish_def)
qed

definition demo_request :: webhook_request where
  "demo_request = \<lparr>wr_rawBody = Some [], wr_signature = Some ''ab'', wr_timestamp = Some ''0''\<rparr>"

definition demo_parse :: "buffer \<Rightarrow> parsed_body" where
  "demo_parse b = Parsed (demo_payload ''order.completed'')"

definition demo_verify :: "buffer \<Rightarrow> js_string \<Rightarrow> js_string \<Rightarrow> bool" where
  "demo_verify body sig ts \<longleftrightarrow> sig = ''ab''"

lemma demo_fresh: "isFreshTimestamp ''0'' (env_now demo_env) 300000"
  by (simp add: isFreshTimestamp_def timestamp_ms_def js_Number_def dec_val_def digit_val_def digits_between_def
      is_digit_def code_in_def demo_env_def MILLISECOND_THRESHOLD_def)

lemma demo_applied:
  "case applyWebhookEvent demo_env ((demo_payload ''order.completed'')\<lparr>wp_timestamp := ''0''\<rparr>) demo_db of
     Inl _ \<Rightarrow> False | Inr d' \<Rightarrow> webhook_events d' \<noteq> []"
  by code_simp

lemma demo_handled:
  "\<exists>d'. handleWebhook demo_verify demo_parse 300000 demo_env demo_request demo_db = (NoContent, d') \<and> d' \<noteq> demo_db"
proof -
  obtain d' where "applyWebhookEvent demo_env ((demo_payload ''order.completed'')\<lparr>wp_timestamp := ''0''\<rparr>) demo_db = Inr d'"
    "webhook_events d' \<noteq> []"
    using demo_applied by (auto split: sum.splits)
  moreover have "webhook_events demo_db = []" by (simp add: demo_db_def empty_db_def)
  ultimately show ?thesis
    using demo_fresh
    by (auto simp: handleWebhook_def demo_request_def demo_verify_def demo_parse_def nullish_def)
qed

theorem webhook_writes_are_authenticated_witness: "demo_verify [] ''ab'' ''0''"
  using demo_handled webhook_writes_are_authenticated [of demo_verify demo_parse 300000 demo_env demo_request demo_db]
  by (auto simp: demo_request_def)

theorem webhook_replay_harmless_witness:
  "\<exists>d'. d' \<noteq> demo_db \<and> handleWebhook demo_verify demo_parse 300000 demo_env demo_request d' = (NoContent, d')"
proof -
  obtain d' where d': "handleWebhook demo_verify demo_parse 300000 demo_env demo_request demo_db = (NoContent, d')"
    "d' \<noteq> demo_db" using demo_handled by blast
  have "env_ck demo_env = id" by (simp add: demo_env_def)
  with demo_ok webhook_replay_harmless [OF _ _ refl d'] obtain ts where
    "wr_timestamp demo_request = Some ts"
    "handleWebhook demo_verify demo_parse 300000 demo_env demo_request d' =
       (if isFreshTimestamp ts (env_now demo_env) 300000 then NoContent else TimestampOutOfRange, d')"
    by auto
  moreover note demo_fresh
  ultimately show ?thesis using d'(2) by (auto simp: demo_request_def)
qed

end
