(* ===== verification/Js_Number.thy ===== *)
theory Js_Number
  imports Prelude
begin

text \<open>
  \<open>Number(s)\<close> on an arbitrary string, for the configuration values and the header that are read
  with it: the grammar of numeric literals in strings, and the rounding to a double. A
  finite double is the rational number that it denotes.
\<close>

datatype js_number = NaN | Infinite bool \<comment> \<open>negative?\<close> | Finite rat

section \<open>Rounding\<close>

text \<open>The exponent of the leading bit of a positive rational number.\<close>

definition ilog2 :: "rat \<Rightarrow> int" where
  "ilog2 x = (case quotient_of x of (n, m) \<Rightarrow>
     let k = int (floorlog 2 (nat n)) - int (floorlog 2 (nat m)) in if 2 powi k \<le> x then k else k - 1)"

definition round_half_even :: "rat \<Rightarrow> int" where
  "round_half_even q =
     (let f = floor q; r = q - of_int f in if r < 1 / 2 \<or> (r = 1 / 2 \<and> even f) then f else f + 1)"

text \<open>Round to a 53-bit significand, or to the spacing of the subnormal numbers.\<close>

definition round_double :: "rat \<Rightarrow> rat" where
  "round_double x =
     (if x = 0 then 0
      else let k = max (ilog2 x - 52) (- 1074) in of_int (round_half_even (x / 2 powi k)) * 2 powi k)"

definition number_of_rat :: "bool \<Rightarrow> rat \<Rightarrow> js_number" where
  "number_of_rat neg x =
     (let y = round_double x in
      if 2 ^ 1024 \<le> y then Infinite neg else Finite (if neg then - y else y))"

section \<open>The grammar\<close>

definition has_prefix2 :: "char \<Rightarrow> js_string \<Rightarrow> bool" where
  "has_prefix2 b s = (case s of c # e # _ \<Rightarrow> c = CHR ''0'' \<and> js_lower_char e = b | _ \<Rightarrow> False)"

text \<open>An exponent part: absent, or \<open>e\<close>, an optional sign and digits.\<close>

definition exponent_part :: "js_string \<Rightarrow> int option" where
  "exponent_part s =
     (case s of
        [] \<Rightarrow> Some 0
      | c # t \<Rightarrow>
          if js_lower_char c \<noteq> CHR ''e'' then None
          else (case t of
              [] \<Rightarrow> None
            | g # u \<Rightarrow>
                if g = CHR ''-'' then (if all_digits u then Some (- int (dec_val u)) else None)
                else if g = CHR ''+'' then (if all_digits u then Some (int (dec_val u)) else None)
                else if all_digits t then Some (int (dec_val t)) else None))"

text \<open>Unsigned decimal literals: digits, a fraction, an exponent.\<close>

definition decimal_literal :: "js_string \<Rightarrow> rat option" where
  "decimal_literal s =
     (let i = takeWhile is_digit s; r = dropWhile is_digit s;
          f = (case r of c # t \<Rightarrow> if c = CHR ''.'' then takeWhile is_digit t else [] | [] \<Rightarrow> []);
          r' = (case r of c # t \<Rightarrow> if c = CHR ''.'' then dropWhile is_digit t else r | [] \<Rightarrow> [])
      in if i = [] \<and> f = [] then None
         else map_option (\<lambda>e. of_nat (dec_val (i @ f)) / 10 ^ length f * 10 powi e) (exponent_part r'))"

definition unsigned_literal :: "bool \<Rightarrow> js_string \<Rightarrow> js_number" where
  "unsigned_literal neg s =
     (if s = ''Infinity'' then Infinite neg
      else case decimal_literal s of None \<Rightarrow> NaN | Some x \<Rightarrow> number_of_rat neg x)"

definition base_literal :: "nat \<Rightarrow> js_string \<Rightarrow> js_number" where
  "base_literal b s = (case base_digits b s of None \<Rightarrow> NaN | Some n \<Rightarrow> number_of_rat False (of_int n))"

definition js_ToNumber :: "js_string \<Rightarrow> js_number" where
  "js_ToNumber raw =
     (let s = trim raw in
      if s = [] then Finite 0
      else if has_prefix2 (CHR ''x'') s then base_literal 16 (drop 2 s)
      else if has_prefix2 (CHR ''o'') s then base_literal 8 (drop 2 s)
      else if has_prefix2 (CHR ''b'') s then base_literal 2 (drop 2 s)
      else if hd s = CHR ''-'' then unsigned_literal True (tl s)
      else if hd s = CHR ''+'' then unsigned_literal False (tl s)
      else unsigned_literal False s)"

text \<open>\<open>Number.isSafeInteger\<close>.\<close>

definition isSafeInteger :: "js_number \<Rightarrow> bool" where
  "isSafeInteger v = (case v of Finite x \<Rightarrow> x \<in> \<int> \<and> \<bar>x\<bar> \<le> of_nat MAX_SAFE_INTEGER | _ \<Rightarrow> False)"

section \<open>Integers are read exactly\<close>

lemma ilog2_le:
  assumes "0 < n" and "n < 2 ^ 53"
  shows "ilog2 (of_nat n) \<le> 52"
proof -
  have q: "quotient_of (of_nat n) = (int n, 1)"
    using quotient_of_int [of "int n"] by simp
  have "(2 :: nat) ^ (floorlog 2 n - 1) < 2 ^ 53"
    using floorlog_bounds [of n 2] assms by (auto intro: order_le_less_trans)
  then have "floorlog 2 n - 1 < 53" by (rule power_less_imp_less_exp [rotated]) simp
  then have le: "floorlog 2 n \<le> 53" by simp
  have "floorlog 2 1 = (1 :: nat)" by (simp add: floorlog_def)
  with le q show ?thesis by (auto simp: ilog2_def Let_def)
qed

lemma round_half_even_int [simp]: "round_half_even (of_int i) = i"
  by (simp add: round_half_even_def)

lemma round_double_nat:
  assumes "n < 2 ^ 53"
  shows "round_double (of_nat n) = of_nat n"
proof (cases "n = 0")
  case False
  define k where "k = max (ilog2 (of_nat n) - 52) (- 1074)"
  have k: "k \<le> 0" using ilog2_le [of n] False assms by (simp add: k_def)
  have "(2 :: rat) powi k * 2 ^ nat (- k) = 1"
    using k by (simp add: power_int_def flip: power_mult_distrib)
  then have q: "of_nat n / (2 :: rat) powi k = of_int (int n * 2 ^ nat (- k))"
    by (simp add: field_simps)
  have "of_int (round_half_even (of_nat n / 2 powi k)) * (2 :: rat) powi k = of_nat n / 2 powi k * 2 powi k"
    by (subst q, subst round_half_even_int, subst q [symmetric]) (rule refl)
  also have "\<dots> = of_nat n" by simp
  finally show ?thesis using False by (simp add: round_double_def Let_def k_def)
qed (simp add: round_double_def)

lemma takeWhile_all: "list_all p s \<Longrightarrow> takeWhile p s = s \<and> dropWhile p s = []"
  by (induction s) auto

lemma trim_digits: "list_all is_digit s \<Longrightarrow> trim s = s"
proof -
  assume "list_all is_digit s"
  then have "list_all (\<lambda>c. \<not> js_space c) s"
    by (auto simp: list_all_iff is_digit_def code_in_def js_space_def)
  then show ?thesis by (simp add: trim_def list_all_dropWhile_id)
qed

text \<open>A decimal numeral below \<open>2^53\<close> is read as the number it writes.\<close>

lemma js_ToNumber_digits:
  assumes "all_digits s" and "dec_val s < 2 ^ 53"
  shows "js_ToNumber s = Finite (of_nat (dec_val s))"
proof -
  from assms(1) have d: "list_all is_digit s" "s \<noteq> []" by (simp_all add: all_digits_def)
  then obtain c t where s: "s = c # t" by (cases s) auto
  have digit: "is_digit x \<Longrightarrow> js_lower_char x = x \<and> x \<noteq> CHR ''x'' \<and> x \<noteq> CHR ''o'' \<and> x \<noteq> CHR ''b'' \<and> x \<noteq> CHR ''-'' \<and> x \<noteq> CHR ''+'' \<and> x \<noteq> CHR ''I''" for x
    by (auto simp: is_digit_def code_in_def js_lower_char_def)
  have np: "\<not> has_prefix2 (CHR ''x'') s" "\<not> has_prefix2 (CHR ''o'') s" "\<not> has_prefix2 (CHR ''b'') s"
    using d digit by (auto simp: has_prefix2_def split: list.splits)
  have lit: "decimal_literal s = Some (of_nat (dec_val s))"
    using d conjunct1 [OF takeWhile_all [OF d(1)]] conjunct2 [OF takeWhile_all [OF d(1)]]
    by (simp only: decimal_literal_def Let_def) (simp add: exponent_part_def)
  have "round_double (of_nat (dec_val s)) = of_nat (dec_val s)" by (rule round_double_nat [OF assms(2)])
  moreover have "\<not> (2 ^ 1024 :: rat) \<le> of_nat (dec_val s)"
  proof -
    have "(of_nat (dec_val s) :: rat) < 2 ^ 53" using assms(2) by (metis of_nat_less_iff of_nat_numeral of_nat_power)
    also have "\<dots> \<le> 2 ^ 1024" by (rule power_increasing) simp_all
    finally show ?thesis by simp
  qed
  ultimately show ?thesis
    using d digit [of c] s lit np trim_digits [OF d(1)]
    by (auto simp: js_ToNumber_def unsigned_literal_def number_of_rat_def Let_def)
qed

section \<open>No colon in a number\<close>

text \<open>A string that is read as a number contains no colon.\<close>

lemma colon_class [simp]: "\<not> is_digit (CHR '':'')" "\<not> is_hex (CHR '':'')" "\<not> js_space (CHR '':'')"
  by (simp_all add: is_digit_def is_hex_def js_space_def code_in_def)

lemma colon_lower [simp]: "js_lower_char (CHR '':'') = CHR '':''"
  by (simp add: js_lower_char_def code_in_def)

lemma all_digits_colon: "all_digits s \<Longrightarrow> CHR '':'' \<notin> set s"
  by (auto simp: all_digits_def list_all_iff)

lemma exponent_colon: "exponent_part s = Some e \<Longrightarrow> CHR '':'' \<notin> set s"
  by (auto simp: exponent_part_def dest: all_digits_colon split: list.splits if_splits)

lemma takeWhile_digits_colon: "CHR '':'' \<notin> set (takeWhile is_digit s)"
  by (auto dest: set_takeWhileD)

lemma span_colon: "CHR '':'' \<notin> set (dropWhile is_digit s) \<Longrightarrow> CHR '':'' \<notin> set s"
  using takeWhile_digits_colon [of s] by (metis Un_iff set_append takeWhile_dropWhile_id)

lemma decimal_colon:
  assumes "decimal_literal s = Some x"
  shows "CHR '':'' \<notin> set s"
proof (rule span_colon)
  show "CHR '':'' \<notin> set (dropWhile is_digit s)"
  proof (cases "dropWhile is_digit s")
    case (Cons c t)
    show ?thesis
    proof (cases "c = CHR ''.''")
      case True
      with Cons assms have "exponent_part (dropWhile is_digit t) \<noteq> None"
        by (simp add: decimal_literal_def Let_def split: if_splits) auto
      then obtain e where "exponent_part (dropWhile is_digit t) = Some e" by blast
      then have "CHR '':'' \<notin> set t" by (rule span_colon [OF exponent_colon])
      with True show ?thesis unfolding Cons by simp
    next
      case False
      with Cons assms have "map_option (\<lambda>e. of_nat (dec_val (takeWhile is_digit s @ [])) / 10 ^ length [] * 10 powi e) (exponent_part (c # t)) = Some x"
        by (simp add: decimal_literal_def Let_def split: if_splits)
      then obtain e where "exponent_part (c # t) = Some e" by auto
      then have "CHR '':'' \<notin> set (c # t)" by (rule exponent_colon)
      then show ?thesis by (simp only: Cons not_False_eq_True)
    qed
  next
    case Nil
    show ?thesis unfolding Nil by simp
  qed
qed

lemma unsigned_colon: "unsigned_literal neg s \<noteq> NaN \<Longrightarrow> CHR '':'' \<notin> set s"
  by (auto simp: unsigned_literal_def dest: decimal_colon split: option.splits if_splits)

lemma base_colon: "base_literal b s \<noteq> NaN \<Longrightarrow> CHR '':'' \<notin> set s"
  by (auto simp: base_literal_def base_digits_def list_all_iff split: option.splits if_splits)

lemma trim_colon: "CHR '':'' \<notin> set (trim s) \<Longrightarrow> CHR '':'' \<notin> set s"
proof -
  have drop: "CHR '':'' \<in> set u \<Longrightarrow> CHR '':'' \<in> set (dropWhile js_space u)" for u
    by (induction u) auto
  show "CHR '':'' \<notin> set (trim s) \<Longrightarrow> CHR '':'' \<notin> set s"
    using drop [of s] drop [of "rev (dropWhile js_space s)"] by (auto simp: trim_def)
qed

lemma prefix2_colon: "has_prefix2 b s \<Longrightarrow> b \<noteq> CHR '':'' \<Longrightarrow> CHR '':'' \<notin> set (drop 2 s) \<Longrightarrow> CHR '':'' \<notin> set s"
  by (auto simp: has_prefix2_def js_lower_char_def code_in_def split: list.splits)

lemma hd_colon: "hd u = c \<Longrightarrow> c \<noteq> CHR '':'' \<Longrightarrow> CHR '':'' \<notin> set (tl u) \<Longrightarrow> CHR '':'' \<notin> set u"
  by (cases u) auto

lemma js_ToNumber_colon:
  assumes "js_ToNumber s \<noteq> NaN"
  shows "CHR '':'' \<notin> set s"
proof (rule trim_colon)
  define u where "u = trim s"
  have bs: "CHR '':'' \<notin> set u" if "has_prefix2 b u" "b \<noteq> CHR '':''" "base_literal n (drop 2 u) \<noteq> NaN" for b n
    using prefix2_colon [OF that(1,2) base_colon [OF that(3)]] .
  have "u = [] \<or> (\<exists>b n. has_prefix2 b u \<and> b \<noteq> CHR '':'' \<and> base_literal n (drop 2 u) \<noteq> NaN)
    \<or> (\<exists>c neg. hd u = c \<and> c \<noteq> CHR '':'' \<and> unsigned_literal neg (tl u) \<noteq> NaN) \<or> unsigned_literal False u \<noteq> NaN"
    using assms unfolding js_ToNumber_def Let_def u_def [symmetric]
    by (auto split: if_splits)
  then show "CHR '':'' \<notin> set (trim s)"
    unfolding u_def [symmetric] using bs hd_colon unsigned_colon by (elim disjE exE conjE) auto
qed

end
