(* ===== verification/Guard.thy ===== *)
theory Guard
  imports Username_Change Js_Number
begin

text \<open>
  The guard of the signed endpoints, \<open>src/auth/spark-signature.guard.ts\<close>: a request carries a key,
  a timestamp and a signature over method, URL, timestamp and body hash. Requests other than
  reads are remembered in a process-local cache until their timestamp leaves the window, so
  that they cannot be replayed. The clock is read twice, once for the window and once for the
  cache, with the signature check and a database query between the two readings.
\<close>

section \<open>Requests\<close>

record guard_request =
  gr_method :: js_string
  gr_originalUrl :: js_string
  gr_rawBody :: "buffer option"
  gr_pubkey :: "js_string option"
  gr_timestamp :: "js_string option"
  gr_signature :: "js_string option"

datatype guard_error =
    Unauthorized js_string \<comment> \<open>401\<close>
  | UserMissing \<comment> \<open>a name without its user row; the foreign key excludes it\<close>

definition DEFAULT_MAX_SKEW_MS :: rat where "DEFAULT_MAX_SKEW_MS = 60000"
definition REPLAY_CACHE_MAX_PER_PUBKEY :: nat where "REPLAY_CACHE_MAX_PER_PUBKEY = 200"
definition REPLAY_CACHE_SWEEP_THRESHOLD :: nat where "REPLAY_CACHE_SWEEP_THRESHOLD = 10000"
definition REPLAY_EXEMPT_METHODS :: "js_string list" where "REPLAY_EXEMPT_METHODS = [''GET'', ''HEAD'']"

text \<open>The constructor: the window in milliseconds.\<close>

definition read_max_skew :: "js_string option \<Rightarrow> rat" where
  "read_max_skew raw =
     (case raw of
        None \<Rightarrow> DEFAULT_MAX_SKEW_MS
      | Some s \<Rightarrow>
          if s = [] then DEFAULT_MAX_SKEW_MS
          else (case js_ToNumber s of
              Finite x \<Rightarrow> if x \<le> 0 then DEFAULT_MAX_SKEW_MS else x
            | _ \<Rightarrow> DEFAULT_MAX_SKEW_MS))"

text \<open>The hash function and the curve library are parameters.\<close>

record guard_lib =
  gl_sha256 :: "buffer \<Rightarrow> buffer"
  gl_secp :: secp_lib

definition body_hash :: "guard_lib \<Rightarrow> js_string \<Rightarrow> buffer option \<Rightarrow> js_string" where
  "body_hash L meth rawBody =
     (if meth \<in> {''POST'', ''PATCH'', ''PUT''}
      then (case rawBody of None \<Rightarrow> [] | Some b \<Rightarrow> if b = [] then [] else bytes_to_hex (gl_sha256 L b))
      else [])"

definition canonical_message :: "js_string \<Rightarrow> js_string \<Rightarrow> js_string \<Rightarrow> js_string \<Rightarrow> js_string" where
  "canonical_message meth url timestamp bodyHash = meth @ '':'' @ url @ '':'' @ timestamp @ '':'' @ bodyHash"

record signed_request =
  sr_user :: User
  sr_pubkey :: js_string
  sr_method :: js_string
  sr_message :: js_string
  sr_ts :: rat

text \<open>Steps 1 to 6: headers, window, signature, account.\<close>

definition guard_check ::
  "guard_lib \<Rightarrow> collation \<Rightarrow> rat \<Rightarrow> time_ms \<Rightarrow> guard_request \<Rightarrow> db \<Rightarrow> guard_error + signed_request" where
  "guard_check L ck maxSkewMs now req d =
     (if \<not> truthy (gr_pubkey req) \<or> \<not> truthy (gr_timestamp req) \<or> \<not> truthy (gr_signature req)
      then Inl (Unauthorized ''Missing auth headers'')
      else let pubkey = the (gr_pubkey req); timestamp = the (gr_timestamp req); signature = the (gr_signature req) in
      case js_ToNumber timestamp of
        NaN \<Rightarrow> Inl (Unauthorized ''Timestamp out of range'')
      | Infinite _ \<Rightarrow> Inl (Unauthorized ''Timestamp out of range'')
      | Finite ts \<Rightarrow>
          if maxSkewMs < \<bar>of_int now - ts\<bar> then Inl (Unauthorized ''Timestamp out of range'')
          else let meth = toUpperCase (gr_method req);
                   message = canonical_message meth (gr_originalUrl req) timestamp (body_hash L meth (gr_rawBody req));
                   normalizedPubkey = toLowerCase pubkey in
            if \<not> verifySignature (gl_secp L) (RawMessage (utf8_bytes message)) signature normalizedPubkey
            then Inl (Unauthorized ''Invalid signature'')
            else case find (\<lambda>r. text_eq ck (linkingPubKeyHex r) normalizedPubkey \<and> ln_active r) (lightning_names d) of
                None \<Rightarrow> Inl (Unauthorized ''Unknown pubkey'')
              | Some r \<Rightarrow>
                  (case user_by_id ck (ln_userId r) d of
                     None \<Rightarrow> Inl UserMissing
                   | Some user \<Rightarrow> Inr \<lparr>sr_user = user, sr_pubkey = normalizedPubkey, sr_method = meth,
                                       sr_message = message, sr_ts = ts\<rparr>))"

section \<open>The replay cache\<close>

type_synonym bucket = "(js_string \<times> rat) list"
type_synonym cache = "(js_string \<times> bucket) list"

definition pruneBucket :: "time_ms \<Rightarrow> bucket \<Rightarrow> bucket" where
  "pruneBucket now b = filter (\<lambda>(key, expiresAt). \<not> expiresAt < of_int now) b"

definition sweepSeenSignatures :: "time_ms \<Rightarrow> cache \<Rightarrow> cache" where
  "sweepSeenSignatures now c = filter (\<lambda>(pubkey, b). b \<noteq> []) (map (\<lambda>(pubkey, b). (pubkey, pruneBucket now b)) c)"

text \<open>\<open>Map.set\<close>: in place, or at the end for a new key.\<close>

definition put_bucket :: "js_string \<Rightarrow> bucket \<Rightarrow> cache \<Rightarrow> cache" where
  "put_bucket pubkey b c =
     (if pubkey \<in> fst ` set c then map (\<lambda>(q, x). if q = pubkey then (q, b) else (q, x)) c else c @ [(pubkey, b)])"

definition rejectReplay ::
  "guard_lib \<Rightarrow> rat \<Rightarrow> time_ms \<Rightarrow> js_string \<Rightarrow> js_string \<Rightarrow> rat \<Rightarrow> cache \<Rightarrow> (guard_error + unit) \<times> cache" where
  "rejectReplay L maxSkewMs now pubkey message signedAtMs seen =
     (let seen = (if REPLAY_CACHE_SWEEP_THRESHOLD < length seen then sweepSeenSignatures now seen else seen);
          bucket = (case map_of seen pubkey of Some b \<Rightarrow> pruneBucket now b | None \<Rightarrow> []);
          seen = put_bucket pubkey bucket seen;
          key = bytes_to_hex (gl_sha256 L (utf8_bytes message))
      in if key \<in> fst ` set bucket then (Inl (Unauthorized ''Replayed request rejected''), seen)
         else if REPLAY_CACHE_MAX_PER_PUBKEY \<le> length bucket then (Inl (Unauthorized ''Too many signatures in flight''), seen)
         else (Inr (), put_bucket pubkey (bucket @ [(key, signedAtMs + maxSkewMs)]) seen))"

definition canActivate ::
  "guard_lib \<Rightarrow> collation \<Rightarrow> rat \<Rightarrow> time_ms \<Rightarrow> time_ms \<Rightarrow> guard_request \<Rightarrow> db \<Rightarrow> cache
   \<Rightarrow> (guard_error + User) \<times> cache" where
  "canActivate L ck maxSkewMs now now' req d seen =
     (case guard_check L ck maxSkewMs now req d of
        Inl e \<Rightarrow> (Inl e, seen)
      | Inr s \<Rightarrow>
          if sr_method s \<in> set REPLAY_EXEMPT_METHODS then (Inr (sr_user s), seen)
          else (case rejectReplay L maxSkewMs now' (sr_pubkey s) (sr_message s) (sr_ts s) seen of
                  (Inl e, seen') \<Rightarrow> (Inl e, seen')
                | (Inr _, seen') \<Rightarrow> (Inr (sr_user s), seen')))"

section \<open>What the cache remembers\<close>

text \<open>The entries of a key that are live at a time; every decision rests on them.\<close>

definition cache_wf :: "cache \<Rightarrow> bool" where
  "cache_wf c \<longleftrightarrow> distinct (map fst c) \<and> (\<forall>(p, b)\<in>set c. length b \<le> REPLAY_CACHE_MAX_PER_PUBKEY)"

definition live :: "time_ms \<Rightarrow> cache \<Rightarrow> js_string \<Rightarrow> bucket" where
  "live t c p = (case map_of c p of None \<Rightarrow> [] | Some b \<Rightarrow> pruneBucket t b)"

definition replay_key :: "guard_lib \<Rightarrow> js_string \<Rightarrow> js_string" where
  "replay_key L message = bytes_to_hex (gl_sha256 L (utf8_bytes message))"

lemma prune_prune: "t \<le> t' \<Longrightarrow> pruneBucket t' (pruneBucket t b) = pruneBucket t' b"
proof -
  assume "t \<le> t'"
  then have "(of_int t :: rat) \<le> of_int t'" by simp
  then have "\<not> e < of_int t \<and> \<not> e < of_int t' \<longleftrightarrow> \<not> (e :: rat) < of_int t'" for e by auto
  then show ?thesis by (simp add: pruneBucket_def case_prod_beta')
qed

lemma map_of_put: "map_of (put_bucket p b c) q = (if q = p then Some b else map_of c q)"
proof (cases "p \<in> fst ` set c")
  case True
  have "map_of (map (\<lambda>(q, x). if q = p then (q, b) else (q, x)) c) q = map_of c q" if "q \<noteq> p"
    using that by (induction c) (auto simp: case_prod_beta')
  moreover have "p \<in> fst ` set c \<Longrightarrow> map_of (map (\<lambda>(q, x). if q = p then (q, b) else (q, x)) c) p = Some b"
    by (induction c) (auto simp: case_prod_beta')
  ultimately show ?thesis using True by (simp add: put_bucket_def)
next
  case False
  then have "map_of c p = None" by (simp add: map_of_eq_None_iff)
  with False show ?thesis by (auto simp: put_bucket_def map_add_def split: option.splits)
qed

lemma live_put: "live t (put_bucket p b c) q = (if q = p then pruneBucket t b else live t c q)"
  by (simp add: live_def map_of_put)

lemma prune_Nil [simp]: "pruneBucket t [] = []"
  by (simp add: pruneBucket_def)

lemma put_wf:
  assumes "cache_wf c" and "length b \<le> REPLAY_CACHE_MAX_PER_PUBKEY"
  shows "cache_wf (put_bucket p b c)"
proof (cases "p \<in> fst ` set c")
  case True
  then have put: "put_bucket p b c = map (\<lambda>(q, x). if q = p then (q, b) else (q, x)) c" by (simp add: put_bucket_def)
  have keys: "map fst (put_bucket p b c) = map fst c" unfolding put by (induction c) auto
  have "\<forall>(q, x)\<in>set (put_bucket p b c). length x \<le> REPLAY_CACHE_MAX_PER_PUBKEY"
    using assms unfolding put cache_wf_def by (fastforce split: if_splits)
  with keys assms(1) show ?thesis unfolding cache_wf_def by argo
next
  case False
  with assms show ?thesis by (auto simp: cache_wf_def put_bucket_def)
qed

lemma prune_length: "length (pruneBucket t b) \<le> length b"
  by (simp add: pruneBucket_def)

lemma sweep_wf:
  assumes "cache_wf c"
  shows "cache_wf (sweepSeenSignatures t c)"
proof -
  have keys: "map fst (sweepSeenSignatures t c) = map fst (filter (\<lambda>(p, b). pruneBucket t b \<noteq> []) c)"
    by (induction c) (auto simp: sweepSeenSignatures_def)
  have "distinct (map fst (filter (\<lambda>(p, b). pruneBucket t b \<noteq> []) c))"
    using assms by (simp add: cache_wf_def distinct_map_filter)
  then show ?thesis
    using assms unfolding cache_wf_def keys
    by (auto simp: sweepSeenSignatures_def intro: order_trans [OF prune_length])
qed

lemma live_sweep:
  assumes "cache_wf c" and "t \<le> t'"
  shows "live t' (sweepSeenSignatures t c) p = live t' c p"
  using assms(1)
proof (induction c)
  case (Cons x c)
  obtain q b where x: "x = (q, b)" by (cases x)
  from Cons have ih: "live t' (sweepSeenSignatures t c) p = live t' c p" by (simp add: cache_wf_def)
  have split: "sweepSeenSignatures t (x # c) =
    (if pruneBucket t b = [] then sweepSeenSignatures t c else (q, pruneBucket t b) # sweepSeenSignatures t c)"
    by (simp add: sweepSeenSignatures_def x)
  have absent: "map_of c q = None" using Cons.prems x by (simp add: cache_wf_def map_of_eq_None_iff)
  have empty: "live t' c q = []" using absent by (simp add: live_def)
  show ?case
  proof (cases "p = q")
    case True
    show ?thesis
    proof (cases "pruneBucket t b = []")
      case none: True
      have "pruneBucket t' b = []" using prune_prune [OF assms(2), of b] none by simp
      then have "live t' (x # c) p = []" using True by (simp add: live_def x)
      with none split ih True empty show ?thesis by simp
    next
      case False
      with split True show ?thesis by (simp add: live_def x prune_prune [OF assms(2)])
    qed
  next
    case False
    with split ih show ?thesis by (simp add: live_def x)
  qed
qed (simp add: sweepSeenSignatures_def)

text \<open>The complete behaviour of one call, in terms of the live entries.\<close>

lemma rejectReplay_spec:
  assumes wf: "cache_wf c" and call: "rejectReplay L skew now p m ts c = (r, c')"
  shows "r = (if replay_key L m \<in> fst ` set (live now c p) then Inl (Unauthorized ''Replayed request rejected'')
              else if REPLAY_CACHE_MAX_PER_PUBKEY \<le> length (live now c p) then Inl (Unauthorized ''Too many signatures in flight'')
              else Inr ())"
    and "cache_wf c'"
    and "now \<le> t \<Longrightarrow> live t c' q =
           (if q = p \<and> r = Inr () then pruneBucket t (live now c p @ [(replay_key L m, ts + skew)]) else live t c q)"
proof -
  define s where "s = (if REPLAY_CACHE_SWEEP_THRESHOLD < length c then sweepSeenSignatures now c else c)"
  have s: "cache_wf s" "\<And>t q. now \<le> t \<Longrightarrow> live t s q = live t c q"
    using wf by (simp_all add: s_def sweep_wf live_sweep)
  have b: "(case map_of s p of Some b \<Rightarrow> pruneBucket now b | None \<Rightarrow> []) = live now c p"
    using s(2) [of now p] by (simp add: live_def split: option.splits)
  have small: "length (live now c p) \<le> REPLAY_CACHE_MAX_PER_PUBKEY"
    using wf by (auto simp: live_def cache_wf_def split: option.splits dest!: map_of_SomeD
        intro: order_trans [OF prune_length])
  let ?b = "live now c p" let ?s = "put_bucket p ?b s" let ?k = "replay_key L m"
  have run: "(r, c') = (if ?k \<in> fst ` set ?b then (Inl (Unauthorized ''Replayed request rejected''), ?s)
     else if REPLAY_CACHE_MAX_PER_PUBKEY \<le> length ?b then (Inl (Unauthorized ''Too many signatures in flight''), ?s)
     else (Inr (), put_bucket p (?b @ [(?k, ts + skew)]) ?s))"
    using call [symmetric] unfolding rejectReplay_def Let_def s_def [symmetric] b replay_key_def .
  from run show "r = (if ?k \<in> fst ` set ?b then Inl (Unauthorized ''Replayed request rejected'')
     else if REPLAY_CACHE_MAX_PER_PUBKEY \<le> length ?b then Inl (Unauthorized ''Too many signatures in flight'') else Inr ())"
    by (auto split: if_splits)
  from run s(1) small show "cache_wf c'" by (auto intro!: put_wf split: if_splits)
  assume t: "now \<le> t"
  have pl: "pruneBucket t ?b = live t c p"
    by (cases "map_of c p") (simp_all add: live_def prune_prune [OF t])
  from run show "live t c' q = (if q = p \<and> r = Inr () then pruneBucket t (?b @ [(?k, ts + skew)]) else live t c q)"
    using pl s(2) [OF t, of q] by (cases "q = p") (simp_all add: live_put split: if_splits)
qed

lemma rejectReplay_outcome:
  assumes "cache_wf c"
  shows "fst (rejectReplay L skew now p m ts c) =
    (if replay_key L m \<in> fst ` set (live now c p) then Inl (Unauthorized ''Replayed request rejected'')
     else if REPLAY_CACHE_MAX_PER_PUBKEY \<le> length (live now c p) then Inl (Unauthorized ''Too many signatures in flight'')
     else Inr ())"
proof -
  obtain r c' where "rejectReplay L skew now p m ts c = (r, c')" by fastforce
  with rejectReplay_spec(1) [OF assms this] show ?thesis by simp
qed

section \<open>Requests through the guard\<close>

lemma guard_check_Inr:
  assumes "guard_check L ck skew now req d = Inr s"
  shows "\<exists>pubkey timestamp signature r. gr_pubkey req = Some pubkey \<and> gr_timestamp req = Some timestamp \<and> gr_signature req = Some signature
    \<and> js_ToNumber timestamp = Finite (sr_ts s) \<and> \<bar>of_int now - sr_ts s\<bar> \<le> skew
    \<and> sr_method s = toUpperCase (gr_method req) \<and> sr_pubkey s = toLowerCase pubkey
    \<and> sr_message s = canonical_message (sr_method s) (gr_originalUrl req) timestamp (body_hash L (sr_method s) (gr_rawBody req))
    \<and> verifySignature (gl_secp L) (RawMessage (utf8_bytes (sr_message s))) signature (sr_pubkey s)
    \<and> r \<in> set (lightning_names d) \<and> ln_active r \<and> text_eq ck (linkingPubKeyHex r) (sr_pubkey s)
    \<and> user_by_id ck (ln_userId r) d = Some (sr_user s)"
proof -
  from assms have h: "truthy (gr_pubkey req)" "truthy (gr_timestamp req)" "truthy (gr_signature req)"
    by (auto simp: guard_check_def split: if_splits)
  then obtain pk tm sg where o: "gr_pubkey req = Some pk" "gr_timestamp req = Some tm" "gr_signature req = Some sg"
    by (auto simp: truthy_def split: option.splits)
  from assms h o obtain r where
    "js_ToNumber tm = Finite (sr_ts s)" "\<not> skew < \<bar>of_int now - sr_ts s\<bar>"
    "sr_method s = toUpperCase (gr_method req)" "sr_pubkey s = toLowerCase pk"
    "sr_message s = canonical_message (toUpperCase (gr_method req)) (gr_originalUrl req) tm
       (body_hash L (toUpperCase (gr_method req)) (gr_rawBody req))"
    "verifySignature (gl_secp L) (RawMessage (utf8_bytes (sr_message s))) sg (toLowerCase pk)"
    "find (\<lambda>r. text_eq ck (linkingPubKeyHex r) (toLowerCase pk) \<and> ln_active r) (lightning_names d) = Some r"
    "user_by_id ck (ln_userId r) d = Some (sr_user s)"
    by (auto simp: guard_check_def Let_def split: js_number.splits if_splits option.splits)
  moreover from this(7) have "r \<in> set (lightning_names d)" "ln_active r" "text_eq ck (linkingPubKeyHex r) (toLowerCase pk)"
    by (auto simp: find_Some_iff)
  ultimately show ?thesis using o by (auto simp: not_less)
qed

definition same_signed :: "guard_lib \<Rightarrow> guard_request \<Rightarrow> guard_request \<Rightarrow> bool" where
  "same_signed L a b \<longleftrightarrow> toUpperCase (gr_method b) = toUpperCase (gr_method a)
     \<and> gr_originalUrl b = gr_originalUrl a \<and> gr_timestamp b = gr_timestamp a
     \<and> body_hash L (toUpperCase (gr_method b)) (gr_rawBody b) = body_hash L (toUpperCase (gr_method a)) (gr_rawBody a)
     \<and> map_option toLowerCase (gr_pubkey b) = map_option toLowerCase (gr_pubkey a)"

lemma same_signed_check:
  assumes "guard_check L ck skew n a d = Inr s" and "guard_check L ck skew n' b d' = Inr s'" and "same_signed L a b"
  shows "sr_pubkey s' = sr_pubkey s" "sr_message s' = sr_message s" "sr_method s' = sr_method s" "sr_ts s' = sr_ts s"
  using guard_check_Inr [OF assms(1)] guard_check_Inr [OF assms(2)] assms(3)
  by (auto simp: same_signed_def)

text \<open>Any number of requests, each with its two clock readings and the store that it sees.\<close>

definition run_traffic ::
  "guard_lib \<Rightarrow> collation \<Rightarrow> rat \<Rightarrow> (time_ms \<times> time_ms \<times> guard_request \<times> db) list \<Rightarrow> cache \<Rightarrow> cache" where
  "run_traffic L ck skew xs c = fold (\<lambda>(n, n', req, d) c. snd (canActivate L ck skew n n' req d c)) xs c"

lemma canActivate_cases:
  assumes "canActivate L ck skew n n' req d c = (r, c')"
  obtains (kept) "c' = c"
    | (called) s r' where "guard_check L ck skew n req d = Inr s" "sr_method s \<notin> set REPLAY_EXEMPT_METHODS"
        "rejectReplay L skew n' (sr_pubkey s) (sr_message s) (sr_ts s) c = (r', c')"
        "r = (case r' of Inl e \<Rightarrow> Inl e | Inr _ \<Rightarrow> Inr (sr_user s))"
  using assms by (auto simp: canActivate_def split: sum.splits if_splits prod.splits)

lemma canActivate_wf: "cache_wf c \<Longrightarrow> cache_wf (snd (canActivate L ck skew n n' req d c))"
  by (cases "canActivate L ck skew n n' req d c")
     (auto elim!: canActivate_cases dest: rejectReplay_spec(2))

lemma set_prune: "set (pruneBucket t b) = {(k, e) \<in> set b. of_int t \<le> e}"
  by (auto simp: pruneBucket_def)

lemma live_prune: "now \<le> t \<Longrightarrow> pruneBucket t (live now c p) = live t c p"
  by (cases "map_of c p") (simp_all add: live_def prune_prune)

lemma canActivate_remembers:
  assumes "cache_wf c" and "x \<in> set (live t c p)" and "n' \<le> t"
  shows "x \<in> set (live t (snd (canActivate L ck skew n n' req d c)) p)"
proof -
  obtain r c' where call: "canActivate L ck skew n n' req d c = (r, c')" by fastforce
  from call show ?thesis
  proof (cases rule: canActivate_cases)
    case kept
    with call assms(2) show ?thesis by simp
  next
    case (called s r')
    have "x \<in> set (pruneBucket t (live n' c p @ ys))" for ys
      using assms(2) live_prune [OF assms(3), of c p] by (auto simp: pruneBucket_def)
    then show ?thesis
      using rejectReplay_spec(3) [OF assms(1) called(3) assms(3), of p] assms(2) call by (auto split: if_splits)
  qed
qed

lemma run_traffic_remembers:
  assumes "cache_wf c" and "x \<in> set (live t c p)" and "\<forall>(m, m', rq, dd)\<in>set xs. m' \<le> t"
  shows "cache_wf (run_traffic L ck skew xs c) \<and> x \<in> set (live t (run_traffic L ck skew xs c) p)"
  using assms
proof (induction xs arbitrary: c)
  case (Cons y xs)
  obtain m m' rq dd where y: "y = (m, m', rq, dd)" by (cases y)
  let ?c = "snd (canActivate L ck skew m m' rq dd c)"
  have "cache_wf ?c" "x \<in> set (live t ?c p)"
    using Cons.prems y by (auto intro: canActivate_wf canActivate_remembers)
  from Cons.IH [OF this] Cons.prems(3) y show ?case by (simp add: run_traffic_def)
qed (simp add: run_traffic_def)

lemma accepted_is_remembered:
  assumes "cache_wf c" and "canActivate L ck skew n n' req d c = (Inr u, c')"
    and "guard_check L ck skew n req d = Inr s" and "sr_method s \<notin> set REPLAY_EXEMPT_METHODS"
    and "n' \<le> t" and "of_int t \<le> sr_ts s + skew"
  shows "(replay_key L (sr_message s), sr_ts s + skew) \<in> set (live t c' (sr_pubkey s))"
proof -
  from assms(2,3,4) have "rejectReplay L skew n' (sr_pubkey s) (sr_message s) (sr_ts s) c = (Inr (), c')"
    by (auto simp: canActivate_def split: sum.splits if_splits prod.splits)
  from rejectReplay_spec(3) [OF assms(1) this assms(5), of "sr_pubkey s"] assms(6) show ?thesis
    by (simp add: pruneBucket_def)
qed

section \<open>Properties\<close>

text \<open>
  C3. A signed request that is not a read is accepted at most once. After the guard has accepted it,
  every repetition whose cache lookup happens before the signed timestamp leaves the window
  is refused: with another spelling of the signature or of the key's letters, whatever the
  store contains by then, and whatever other traffic, from this key or others, came between.
\<close>

theorem replay_rejected:
  assumes "cache_wf c" and "canActivate L ck skew n1 n2 req d c = (Inr u, c1)"
    and "toUpperCase (gr_method req) \<notin> {''GET'', ''HEAD''}"
    and "gr_timestamp req = Some timestamp" "js_ToNumber timestamp = Finite ts"
    and "same_signed L req req'"
    and "\<forall>(m, m', rq, dd)\<in>set traffic. m' \<le> n2'" "n2 \<le> n2'" "of_int n2' \<le> ts + skew"
  shows "\<exists>e. fst (canActivate L ck skew n1' n2' req' d' (run_traffic L ck skew traffic c1)) = Inl e"
proof -
  let ?c = "run_traffic L ck skew traffic c1"
  from assms(2) obtain s where s: "guard_check L ck skew n1 req d = Inr s"
    by (cases "guard_check L ck skew n1 req d") (auto simp: canActivate_def)
  from guard_check_Inr [OF s] assms(3,4,5) have f: "sr_ts s = ts" "sr_method s \<notin> set REPLAY_EXEMPT_METHODS"
    by (auto simp: REPLAY_EXEMPT_METHODS_def)
  have "(replay_key L (sr_message s), ts + skew) \<in> set (live n2' c1 (sr_pubkey s))"
    using accepted_is_remembered [OF assms(1,2) s f(2) assms(8)] f(1) assms(9) by simp
  moreover have "cache_wf c1" using canActivate_wf [OF assms(1), of L ck skew n1 n2 req d] assms(2) by simp
  ultimately have mem: "cache_wf ?c" "(replay_key L (sr_message s), ts + skew) \<in> set (live n2' ?c (sr_pubkey s))"
    using run_traffic_remembers assms(7) by blast+
  show ?thesis
  proof (cases "guard_check L ck skew n1' req' d'")
    case (Inl e)
    then show ?thesis by (simp add: canActivate_def)
  next
    case (Inr s')
    note eq = same_signed_check [OF s Inr assms(6)]
    obtain r c' where call: "rejectReplay L skew n2' (sr_pubkey s') (sr_message s') (sr_ts s') ?c = (r, c')" by fastforce
    have "replay_key L (sr_message s) \<in> fst ` set (live n2' ?c (sr_pubkey s))"
      using mem(2) by (force simp: image_iff)
    then have "r = Inl (Unauthorized ''Replayed request rejected'')"
      using rejectReplay_spec(1) [OF mem(1) call] eq by simp
    with Inr call eq(3) f(2) show ?thesis by (simp add: canActivate_def)
  qed
qed

text \<open>
  C35. The two clock readings leave a gap. A repetition that passes the window test in time, but whose
  cache lookup happens after the timestamp has left the window, finds its entry already
  pruned and is accepted a second time.
\<close>

theorem replay_gap:
  assumes "guard_check L ck skew n1 req d = Inr s" and "sr_method s \<notin> set REPLAY_EXEMPT_METHODS"
    and "guard_check L ck skew n1' req d = Inr s" and "n2 \<le> n2'" "sr_ts s + skew < of_int n2'"
  shows "\<exists>c1 c2. canActivate L ck skew n1 n2 req d [] = (Inr (sr_user s), c1)
    \<and> canActivate L ck skew n1' n2' req d c1 = (Inr (sr_user s), c2)"
proof -
  have wf: "cache_wf []" by (simp add: cache_wf_def)
  obtain r1 c1 where c1: "rejectReplay L skew n2 (sr_pubkey s) (sr_message s) (sr_ts s) [] = (r1, c1)" by fastforce
  have empty: "live t [] p = []" for t p by (simp add: live_def)
  have r1: "r1 = Inr ()"
    using rejectReplay_spec(1) [OF wf c1] by (simp add: empty REPLAY_CACHE_MAX_PER_PUBKEY_def)
  have gone: "live n2' c1 (sr_pubkey s) = []"
    using rejectReplay_spec(3) [OF wf c1 assms(4), of "sr_pubkey s"] r1 assms(5) by (simp add: empty pruneBucket_def)
  obtain r2 c2 where c2: "rejectReplay L skew n2' (sr_pubkey s) (sr_message s) (sr_ts s) c1 = (r2, c2)" by fastforce
  have "r2 = Inr ()"
    using rejectReplay_spec(1) [OF rejectReplay_spec(2) [OF wf c1] c2] gone by (simp add: REPLAY_CACHE_MAX_PER_PUBKEY_def)
  with assms(1,2,3) c1 c2 r1 show ?thesis by (simp add: canActivate_def)
qed

text \<open>
  One key cannot harm another. Whatever requests other keys send, also a flood that fills their
  buckets and triggers sweeps, a later request of this key gets the same answer as
  if they had never been sent.
\<close>

theorem replay_cache_isolation:
  assumes "cache_wf c" and "\<forall>(now, q, m, ts)\<in>set calls. q \<noteq> p \<and> now \<le> t"
  shows "fst (rejectReplay L skew t p msg ts0 (fold (\<lambda>(now, q, m, ts) c. snd (rejectReplay L skew now q m ts c)) calls c))
       = fst (rejectReplay L skew t p msg ts0 c)"
proof -
  have "cache_wf (fold (\<lambda>(now, q, m, ts) c. snd (rejectReplay L skew now q m ts c)) calls c)
    \<and> live t (fold (\<lambda>(now, q, m, ts) c. snd (rejectReplay L skew now q m ts c)) calls c) p = live t c p"
    using assms
  proof (induction calls arbitrary: c)
    case (Cons x calls)
    obtain now q m ts where x: "x = (now, q, m, ts)" by (cases x)
    obtain r c' where call: "rejectReplay L skew now q m ts c = (r, c')" by fastforce
    from Cons.prems x have "q \<noteq> p" "now \<le> t" by auto
    then have "live t c' p = live t c p" using rejectReplay_spec(3) [OF Cons.prems(1) call, of t p] by simp
    with Cons.IH [OF rejectReplay_spec(2) [OF Cons.prems(1) call]] Cons.prems(2) x call show ?case by simp
  qed simp
  then show ?thesis
    using rejectReplay_outcome [OF assms(1)] rejectReplay_outcome by simp
qed

text \<open>
  C36. An accepted request is authentic: its key signed exactly the method, URL, timestamp and body
  hash of this request, the timestamp was within the window of the server clock, and the
  user that the handlers see owns an active name bound to that key.
\<close>

theorem accepted_request_authentic:
  assumes "canActivate L ck skew now now' req d c = (Inr u, c')"
  shows "\<exists>pubkey timestamp signature ts r.
    gr_pubkey req = Some pubkey \<and> gr_timestamp req = Some timestamp \<and> gr_signature req = Some signature
    \<and> js_ToNumber timestamp = Finite ts \<and> \<bar>of_int now - ts\<bar> \<le> skew
    \<and> verifySignature (gl_secp L)
        (RawMessage (utf8_bytes (canonical_message (toUpperCase (gr_method req)) (gr_originalUrl req) timestamp
           (body_hash L (toUpperCase (gr_method req)) (gr_rawBody req))))) signature (toLowerCase pubkey)
    \<and> r \<in> set (lightning_names d) \<and> ln_active r \<and> text_eq ck (linkingPubKeyHex r) (toLowerCase pubkey)
    \<and> user_by_id ck (ln_userId r) d = Some u"
proof -
  from assms obtain s where s: "guard_check L ck skew now req d = Inr s" "sr_user s = u"
    by (auto simp: canActivate_def split: sum.splits if_splits prod.splits)
  from guard_check_Inr [OF s(1)] s(2) show ?thesis by metis
qed

lemma split_first:
  "x \<notin> set a \<Longrightarrow> x \<notin> set b \<Longrightarrow> a @ x # c = b @ x # e \<Longrightarrow> a = b \<and> c = e"
proof (induction a arbitrary: b)
  case Nil
  then show ?case by (cases b) auto
next
  case (Cons y a)
  then show ?case by (cases b) auto
qed

lemma split_last:
  assumes "x \<notin> set c" "x \<notin> set e" "a @ x # c = b @ x # e"
  shows "a = b \<and> c = e"
proof -
  have "rev c @ x # rev a = rev e @ x # rev b" using arg_cong [OF assms(3), of rev] by simp
  from split_first [OF _ _ this] assms(1,2) show ?thesis by simp
qed

lemma body_hash_colon: "CHR '':'' \<notin> set (body_hash L m b)"
proof -
  have "CHR '':'' \<notin> set (bytes_to_hex x)" for x
    using bytes_to_hex_is_hex [of x] colon_class(2) unfolding list_all_iff by blast
  moreover have "body_hash L m b = [] \<or> (\<exists>x. body_hash L m b = bytes_to_hex x)"
    unfolding body_hash_def by (cases b) (simp_all, blast+)
  ultimately show ?thesis by (elim disjE exE) (simp_all only: list.set(1) empty_iff not_False_eq_True)
qed

text \<open>
  C37. The signed message determines the request: two requests whose timestamps are read as numbers
  and whose methods contain no colon have the same message exactly when they agree in method, URL,
  timestamp and body hash, although a URL may contain any number of colons. So a signature on one
  request is a signature on no other; without the test that the timestamp is a number that would fail.
\<close>

theorem canonical_message_injective:
  assumes "CHR '':'' \<notin> set m" "CHR '':'' \<notin> set m'" and "js_ToNumber t \<noteq> NaN" "js_ToNumber t' \<noteq> NaN"
  shows "canonical_message m u t (body_hash L m b) = canonical_message m' u' t' (body_hash L m' b')
    \<longleftrightarrow> m = m' \<and> u = u' \<and> t = t' \<and> body_hash L m b = body_hash L m' b'"
proof (rule iffI)
  assume same: "canonical_message m u t (body_hash L m b) = canonical_message m' u' t' (body_hash L m' b')"
  have "m @ CHR '':'' # (u @ '':'' @ t @ '':'' @ body_hash L m b) = m' @ CHR '':'' # (u' @ '':'' @ t' @ '':'' @ body_hash L m' b')"
    using same by (simp add: canonical_message_def)
  from split_first [OF assms(1,2) this] have m: "m = m'"
    and "(u @ '':'' @ t) @ CHR '':'' # body_hash L m b = (u' @ '':'' @ t') @ CHR '':'' # body_hash L m' b'" by auto
  from split_last [OF body_hash_colon body_hash_colon this(2)] have h: "body_hash L m b = body_hash L m' b'"
    and "u @ CHR '':'' # t = u' @ CHR '':'' # t'" by auto
  from split_last [OF js_ToNumber_colon [OF assms(3)] js_ToNumber_colon [OF assms(4)] this(2)] m h
  show "m = m' \<and> u = u' \<and> t = t' \<and> body_hash L m b = body_hash L m' b'" by simp
qed (elim conjE, simp only:)

lemma demo_ts: "js_ToNumber ''5'' = Finite 5"
proof -
  have v: "dec_val ''5'' = 5" by (simp add: dec_val_def digit_val_def)
  have "all_digits ''5''" by code_simp
  from js_ToNumber_digits [OF this] v show ?thesis by simp
qed

section \<open>A concrete request\<close>

definition demo_gl :: guard_lib where
  "demo_gl = \<lparr>gl_sha256 = (\<lambda>b. take 1 b), gl_secp = demo_point\<rparr>"

text \<open>
  Two requests for different URLs have different messages. The test of the timestamp matters: if
  \<open>5:5\<close> could be one, a signature for \<open>/a:5\<close> at \<open>5\<close> would also be one for \<open>/a\<close> at \<open>5:5\<close>.
\<close>

theorem canonical_message_injective_witness:
  "let h = body_hash demo_gl ''PATCH'' (Some [1]) in
     h \<noteq> [] \<and> canonical_message ''PATCH'' ''/a:5'' ''5'' h \<noteq> canonical_message ''PATCH'' ''/a'' ''5'' h
     \<and> js_ToNumber ''5:5'' = NaN \<and> canonical_message ''PATCH'' ''/a:5'' ''5'' h = canonical_message ''PATCH'' ''/a'' ''5:5'' h"
proof -
  have "body_hash demo_gl ''PATCH'' (Some [1]) \<noteq> []" by code_simp
  moreover have "canonical_message ''PATCH'' ''/a:5'' ''5'' (body_hash demo_gl ''PATCH'' (Some [1]))
      \<noteq> canonical_message ''PATCH'' ''/a'' ''5'' (body_hash demo_gl ''PATCH'' (Some [1]))"
    using canonical_message_injective [of "''PATCH''" "''PATCH''" "''5''" "''5''" "''/a:5''" demo_gl "Some [1]" "''/a''" "Some [1]"]
    by (simp add: demo_ts)
  moreover have "js_ToNumber ''5:5'' = NaN" using js_ToNumber_colon [of "''5:5''"] by auto
  moreover have "canonical_message ''PATCH'' ''/a:5'' ''5'' h = canonical_message ''PATCH'' ''/a'' ''5:5'' h" for h
    by (simp add: canonical_message_def)
  ultimately show ?thesis by (simp add: Let_def)
qed

definition demo_signed_req :: guard_request where
  "demo_signed_req = \<lparr>gr_method = ''patch'', gr_originalUrl = ''/v1/users/me/username'', gr_rawBody = Some [],
     gr_pubkey = Some demo_key_c, gr_timestamp = Some ''5'', gr_signature = Some ''ab''\<rparr>"

definition demo_sr :: signed_request where
  "demo_sr = \<lparr>sr_user = new_user ''u1'' 6, sr_pubkey = demo_key_c, sr_method = ''PATCH'',
     sr_message = canonical_message ''PATCH'' ''/v1/users/me/username'' ''5'' [], sr_ts = 5\<rparr>"

lemma demo_upper: "toUpperCase ''patch'' = ''PATCH''"
  by code_simp

lemma demo_lower: "toLowerCase demo_key_c = demo_key_c"
  by (simp add: toLowerCase_def demo_key_c_def js_lower_char_def code_in_def)

lemma demo_guard_check:
  assumes "\<bar>now - 5\<bar> \<le> 60"
  shows "guard_check demo_gl id 60 now demo_signed_req demo_registered = Inr demo_sr"
proof -
  have "(of_int \<bar>now - 5\<bar> :: rat) \<le> of_int 60" using assms by (simp only: of_int_le_iff)
  then have "\<not> (60 :: rat) < \<bar>of_int now - 5\<bar>" by simp
  moreover have "verifySignature demo_point (RawMessage m) ''ab'' demo_key_c" for m
    by (simp add: verifySignature_def all_hex_def key_shape_def demo_point_def demo_key_c_def list_all_iff)
  moreover have "demo_key_c \<noteq> []" by (simp add: demo_key_c_def)
  ultimately show ?thesis
    by (simp add: guard_check_def demo_signed_req_def demo_ts demo_upper demo_lower body_hash_def demo_gl_def demo_sr_def
        demo_registered_def new_name_def text_eq_def user_by_id_def new_user_def Let_def)
qed

lemma demo_patch: "sr_method demo_sr \<notin> set REPLAY_EXEMPT_METHODS"
  by (simp add: demo_sr_def REPLAY_EXEMPT_METHODS_def)

lemma demo_accepted:
  "\<exists>c1. canActivate demo_gl id 60 7 8 demo_signed_req demo_registered [] = (Inr (new_user ''u1'' 6), c1)"
proof -
  have wf: "cache_wf []" by (simp add: cache_wf_def)
  obtain r c1 where c1: "rejectReplay demo_gl 60 8 (sr_pubkey demo_sr) (sr_message demo_sr) (sr_ts demo_sr) [] = (r, c1)" by fastforce
  have "r = Inr ()"
    using rejectReplay_spec(1) [OF wf c1] by (simp add: live_def REPLAY_CACHE_MAX_PER_PUBKEY_def)
  with c1 demo_patch demo_guard_check [of 7] show ?thesis by (simp add: canActivate_def) (simp add: demo_sr_def)
qed

theorem replay_rejected_witness:
  "\<exists>c1 e. canActivate demo_gl id 60 7 8 demo_signed_req demo_registered [] = (Inr (new_user ''u1'' 6), c1)
     \<and> fst (canActivate demo_gl id 60 9 10 demo_signed_req demo_registered c1) = Inl e"
proof -
  obtain c1 where c1: "canActivate demo_gl id 60 7 8 demo_signed_req demo_registered [] = (Inr (new_user ''u1'' 6), c1)"
    using demo_accepted by blast
  have wf: "cache_wf []" by (simp add: cache_wf_def)
  have "\<exists>e. fst (canActivate demo_gl id 60 9 10 demo_signed_req demo_registered (run_traffic demo_gl id 60 [] c1)) = Inl e"
    by (rule replay_rejected [OF wf c1, of "''5''" 5])
       (simp_all add: demo_signed_req_def demo_upper demo_ts same_signed_def)
  with c1 show ?thesis by (simp add: run_traffic_def)
qed

theorem replay_gap_witness:
  "\<exists>c1 c2. canActivate demo_gl id 60 7 8 demo_signed_req demo_registered [] = (Inr (sr_user demo_sr), c1)
     \<and> canActivate demo_gl id 60 65 66 demo_signed_req demo_registered c1 = (Inr (sr_user demo_sr), c2)"
  by (rule replay_gap [OF demo_guard_check demo_patch demo_guard_check]) (simp_all add: demo_sr_def)

theorem replay_cache_isolation_witness:
  "fst (rejectReplay demo_gl 60 9 ''p'' ''m'' 5 (fold (\<lambda>(now, q, m, ts) c. snd (rejectReplay demo_gl 60 now q m ts c)) [(8, ''q'', ''m'', 5)] []))
     = fst (rejectReplay demo_gl 60 9 ''p'' ''m'' 5 [])"
  by (rule replay_cache_isolation) (simp_all add: cache_wf_def)

theorem accepted_request_authentic_witness:
  "\<exists>r. r \<in> set (lightning_names demo_registered) \<and> ln_active r \<and> linkingPubKeyHex r = demo_key_c"
proof -
  obtain c1 where c1: "canActivate demo_gl id 60 7 8 demo_signed_req demo_registered [] = (Inr (new_user ''u1'' 6), c1)"
    using demo_accepted by blast
  from accepted_request_authentic [OF c1] show ?thesis
    by (auto simp: demo_signed_req_def demo_lower text_eq_def)
qed

end
