(* ===== verification/User_Endpoints.thy ===== *)
theory User_Endpoints
  imports Guard Ops
begin

text \<open>
  The signed endpoints of a user: \<open>src/username/username.controller.ts\<close> and
  \<open>src/currency-preference/currency-preference.controller.ts\<close>, behind the guard of
  \<open>src/auth/spark-signature.guard.ts\<close>. The guard runs before the validation of the body, and the
  handler acts on the user that the guard found.
\<close>

text \<open>\<open>ChangeUsernameDto\<close>: a string of 1 to 30 code units.\<close>

definition change_dto_ok :: "js_string option \<Rightarrow> bool" where
  "change_dto_ok username = (case username of None \<Rightarrow> False | Some s \<Rightarrow> 1 \<le> length s \<and> length s \<le> 30)"

text \<open>\<open>SetCurrencyPreferenceDto\<close>: one of the names of the enumeration.\<close>

definition parse_currency :: "js_string option \<Rightarrow> ReceivingCurrency option" where
  "parse_currency currency =
     (if currency = Some ''SATS'' then Some SATS else if currency = Some ''USDB'' then Some USDB else None)"

datatype username_request = GetUsername | PatchUsername "js_string option"
datatype currency_request = GetCurrency | PatchCurrency "js_string option"
datatype user_request = UsernameRequest username_request | CurrencyRequest currency_request

datatype user_answer =
    UserUnauthorized guard_error
  | UserBadRequest
  | UsernameInfoAnswer "username_error + UsernameInfo"
  | UsernameChangeAnswer "username_error + ChangeUsernameResponse"
  | CurrencyAnswer "db_error + CurrencyPreference"

record user_env =
  ue_ck :: collation
  ue_base :: base_url
  ue_extraReserved :: "js_string option"
  ue_name_id :: js_string
  ue_now :: time_ms

definition username_controller :: "user_env \<Rightarrow> User \<Rightarrow> username_request \<Rightarrow> db \<Rightarrow> user_answer \<times> db" where
  "username_controller E user req d =
     (case req of
        GetUsername \<Rightarrow> (UsernameInfoAnswer (getUsernameInfo (ue_ck E) (ue_base E) (user_id user) d), d)
      | PatchUsername name \<Rightarrow>
          if \<not> change_dto_ok name then (UserBadRequest, d)
          else (case changeUsername (ue_ck E) (ue_base E) (ue_extraReserved E) (ue_name_id E) (ue_now E)
                       (user_id user) (nullish name []) d of
                  (a, d') \<Rightarrow> (UsernameChangeAnswer a, d')))"

definition currency_controller :: "user_env \<Rightarrow> User \<Rightarrow> currency_request \<Rightarrow> db \<Rightarrow> user_answer \<times> db" where
  "currency_controller E user req d =
     (case req of
        GetCurrency \<Rightarrow> (CurrencyAnswer (getPreference (ue_ck E) (user_id user) d), d)
      | PatchCurrency currency \<Rightarrow>
          (case parse_currency currency of
             None \<Rightarrow> (UserBadRequest, d)
           | Some c \<Rightarrow>
               (case setPreference (ue_ck E) (ue_now E) (user_id user) c d of
                  Inl e \<Rightarrow> (CurrencyAnswer (Inl e), d)
                | Inr (p, d') \<Rightarrow> (CurrencyAnswer (Inr p), d'))))"

definition user_endpoint ::
  "guard_lib \<Rightarrow> rat \<Rightarrow> time_ms \<Rightarrow> time_ms \<Rightarrow> guard_request \<Rightarrow> user_env \<Rightarrow> user_request \<Rightarrow> db \<times> cache
   \<Rightarrow> user_answer \<times> db \<times> cache" where
  "user_endpoint L skew now now' req E body st =
     (case st of (d, seen) \<Rightarrow>
      case canActivate L (ue_ck E) skew now now' req d seen of
        (Inl e, seen') \<Rightarrow> (UserUnauthorized e, d, seen')
      | (Inr user, seen') \<Rightarrow>
          (case (case body of UsernameRequest r \<Rightarrow> username_controller E user r d
                 | CurrencyRequest r \<Rightarrow> currency_controller E user r d) of
             (a, d') \<Rightarrow> (a, d', seen')))"

text \<open>A request that the guard refuses changes nothing, and a read changes nothing either.\<close>

lemma user_endpoint_refused:
  "fst (canActivate L (ue_ck E) skew now now' req d seen) = Inl e
   \<Longrightarrow> fst (snd (user_endpoint L skew now now' req E body (d, seen))) = d"
  by (cases "canActivate L (ue_ck E) skew now now' req d seen") (simp add: user_endpoint_def)

lemma user_endpoint_read:
  assumes "body = UsernameRequest GetUsername \<or> body = CurrencyRequest GetCurrency"
  shows "fst (snd (user_endpoint L skew now now' req E body (d, seen))) = d"
  using assms
  by (auto simp: user_endpoint_def username_controller_def currency_controller_def split: prod.split sum.split)

end
