(* ===== verification/Store_Ops.thy ===== *)
theory Store_Ops
  imports Store Lnurl Webhook User_Endpoints
begin

text \<open>
  Every writing operation of the services keeps the contract of \<open>Store\<close>: challenges,
  registrations, name changes, grants, preferences, the purge, resolved refund cases, webhook
  events and payments.
\<close>

lemma text_eq_refl [simp]: "text_eq ck a a"
  by (simp add: text_eq_def)

section \<open>Accounts\<close>

lemma challenge_evolves:
  assumes "store_ok ck d" and "generateAuthChallenge ck base nid random now d = Inr (out, d')"
  shows "store_evolves ck d d'"
proof -
  from assms(2) obtain t where t: "tbl_create ck auth_nonce_ixs (new_nonce nid (bytes_to_hex random) now) (auth_nonces d) = Inr t"
    "d' = d\<lparr>auth_nonces := t\<rparr>"
    by (auto simp: generateAuthChallenge_def Let_def split: sum.splits)
  with store_okD [OF assms(1)] show ?thesis
    by (intro evolve_accounts [OF assms(1)]) (auto intro: tbl_create_uniq)
qed

lemma consumed_uniq:
  assumes "uniq ck auth_nonce_ixs t"
  shows "uniq ck auth_nonce_ixs (snd (consume_nonce ck k1 now t))"
proof -
  let ?f = "\<lambda>n. if consumable ck k1 now n then n\<lparr>usedAt := Some now\<rparr> else n"
  have "no_clash ck auth_nonce_ixs (?f a) (?f b) = no_clash ck auth_nonce_ixs a b" for a b
    by (simp add: no_clash_def auth_nonce_ixs_def clash_def row_key_def)
  with assms show ?thesis by (simp add: consume_nonce_def uniq_def sorted_wrt_map)
qed

lemma registration_evolves:
  assumes "store_ok ck d" and "bind_commit ck abort now ids k1 key username d = Inr d'"
  shows "store_evolves ck d d'"
proof (rule evolve_accounts [OF assms(1)])
  note k = store_okD [OF assms(1)] and b = bind_commit_Inr [OF assms(2)]
  show "invoices d' = invoices d" "flashnet_orders d' = flashnet_orders d"
    "webhook_events d' = webhook_events d" "refund_cases d' = refund_cases d"
    by (subst b(6), simp)+
  show "accounts_ok ck d'" "persists (lightning_names d) (lightning_names d')"
    using bind_commit_accounts_ok [OF k(1) assms(2)] by blast+
  show "users_uniq ck d'" using k(2) b(3) by (rule tbl_create_uniq)
  show "nonces_uniq ck d'" unfolding b(5) using k(3) by (rule consumed_uniq)
  show "grows (\<lambda>u u'. user_id u' = user_id u) (users d) (users d')"
    using b(3) by (auto simp: tbl_create_Inr)
qed

lemma change_commit_fields:
  assumes "change_commit ck nid now p d = Inr d'"
  shows "d'\<lparr>lightning_names := lightning_names d\<rparr> = d"
  using assms by (auto simp: change_commit_def bind_result_Inr_iff)

lemma db_names_frame:
  assumes "d'\<lparr>lightning_names := lightning_names d\<rparr> = d"
  shows "users d' = users d" "auth_nonces d' = auth_nonces d" "invoices d' = invoices d"
    "flashnet_orders d' = flashnet_orders d" "webhook_events d' = webhook_events d" "refund_cases d' = refund_cases d"
  by (subst assms [symmetric], simp)+

lemma change_evolves:
  assumes "store_ok ck d" and "changeUsername ck B extra nid now userId raw d = (a, d')"
  shows "store_evolves ck d d'"
proof (cases "d' = d")
  case True
  with assms(1) show ?thesis by (simp add: store_evolves_refl)
next
  case False
  then obtain p where p: "change_load ck extra userId raw d = Inr p" "change_commit ck nid now p d = Inr d'"
    using assms(2) by (auto simp: changeUsername_def split: sum.splits option.splits)
  note k = store_okD [OF assms(1)] and f = db_names_frame [OF change_commit_fields [OF p(2)]]
  from change_commit_ok [OF k(1) change_load_plan_ok [OF p(1)] p(2)] k f show ?thesis
    by (intro evolve_accounts [OF assms(1)]) auto
qed

lemma user_primary_in: "(''PRIMARY'', \<lambda>u. Some [Text (user_id u)]) \<in> set user_ixs"
  by (simp add: user_ixs_def)

text \<open>A write to the row of a user that keeps its id.\<close>

lemma user_update_evolves:
  assumes ok: "store_ok ck d"
    and up: "tbl_update ck user_ixs (where_key ck (\<lambda>u. Some [Text (user_id u)]) [Text i]) f (users d) = Inr t"
    and f: "\<And>u. user_id (f u) = user_id u"
  shows "store_evolves ck d (d\<lparr>users := t\<rparr>)"
proof -
  note k = store_okD [OF ok]
  from tbl_update_split [OF k(2) user_primary_in up] obtain xs u ys where
    s: "users d = xs @ u # ys" "t = xs @ f u # ys" by blast
  have "map user_id t = map user_id (users d)" by (simp add: s f)
  with k s f tbl_update_uniq [OF k(2) user_primary_in up] show ?thesis
    by (intro evolve_accounts [OF ok]) (auto intro: grows_middle simp: comp_def)
qed

lemma preference_evolves:
  assumes "store_ok ck d" and "setPreference ck now userId currency d = Inr (p, d')"
  shows "store_evolves ck d d'"
  using assms(2) user_update_evolves [OF assms(1)] by (auto simp: setPreference_def bind_result_Inr_iff)

lemma grant_evolves:
  assumes "store_ok ck d" and "grantExtraChanges ck B now pubKey amount d = (out, d')"
  shows "store_evolves ck d d'"
  using assms(2) user_update_evolves [OF assms(1)] store_evolves_refl [OF assms(1)]
  by (auto simp: grantExtraChanges_def Let_def split: sum.splits)

lemma purge_loop_uniq:
  "uniq ck auth_nonce_ixs t \<Longrightarrow> uniq ck auth_nonce_ixs (fst (purge_loop ck scan cutoff batches t deleted))"
  by (induction ck scan cutoff batches t deleted rule: purge_loop.induct)
     (simp_all add: Let_def delete_ids_def uniq_filter)

lemma purge_evolves:
  assumes "store_ok ck d" and "purgeExpired ck scan now d = (deleted, d')"
  shows "store_evolves ck d d'"
proof -
  have d': "d' = d\<lparr>auth_nonces := fst (purge_loop ck scan (now - PURGE_GRACE_MS) PURGE_MAX_BATCHES (auth_nonces d) 0)\<rparr>"
    using assms(2) by (auto simp: purgeExpired_def Let_def split: prod.splits)
  with store_okD [OF assms(1)] show ?thesis
    by (intro evolve_accounts [OF assms(1)]) (auto intro: purge_loop_uniq)
qed

section \<open>Refund cases\<close>

text \<open>A write to the row of a case that keeps its id and its invoice, whatever its status.\<close>

lemma case_write_moves:
  assumes ok: "store_ok ck d" and c: "findById ck i d = Some c" and up: "update_case ck i f d = Inr (c', d')"
    and f: "rc_id (f c) = rc_id c" "rc_invoiceId (f c) = rc_invoiceId c" and R: "R c (f c)" "\<And>x. R x x"
  shows "store_moves R ck d d'"
proof -
  note k = store_okD [OF ok]
  from find_rc_split [OF k(8) c] obtain xs ys where s: "refund_cases d = xs @ c # ys" "ck (rc_id c) = ck i"
    "\<forall>x \<in> set (xs @ ys). ck (rc_id x) \<noteq> ck i" by blast
  from update_case_split [where f = f and c = c and i = i and d = d and ck = ck, OF k(8) s f(1,2)] up have d': "d' = d\<lparr>refund_cases := xs @ f c # ys\<rparr>" by simp
  have "cases_ok ck d'"
    using k(8) f by (simp add: d' s uniq_middle no_clash_def refund_case_ixs_def clash_def row_key_def rc_invoiceId_key_def)
  moreover have same: "(case_by_invoice ck j d' = None) = (case_by_invoice ck j d = None)" for j
    using f by (auto simp: case_by_invoice_def find_unique_def find_None_iff d' s where_key_def row_key_def rc_invoiceId_key_def)
  then have "failed_have_cases ck d'" using k(9) by (simp add: failed_have_cases_def d' list_all_iff)
  moreover have "grows R (refund_cases d) (refund_cases d')"
    using R by (auto simp: d' s intro!: grows_middle)
  moreover have "\<exists>iv \<in> set (invoices d). text_eq ck (inv_id iv) (rc_invoiceId x)" if "x \<in> set (refund_cases d')" for x
    using that refs_okD(3) [OF k(10)] f by (auto simp: d' s)
  ultimately show ?thesis
    using k by (intro evolve_swap [OF ok]) (auto simp: d' intro: orders_evolve_same)
qed

text \<open>The write of a resolution, on a row that the check found open.\<close>

lemma resolve_evolves:
  assumes ok: "store_ok ck d" and chk: "resolve_check ck i d = Inr c" and up: "update_case ck i f d = Inr (c', d')"
    and f: "rc_id (f c) = rc_id c" "rc_invoiceId (f c) = rc_invoiceId c" "rc_amountSats (f c) = rc_amountSats c"
      "rc_createdAt (f c) = rc_createdAt c"
  shows "store_evolves ck d d'"
proof -
  from chk have "findById ck i d = Some c" "rc_status c = OPEN"
    by (auto simp: resolve_check_def split: option.splits if_splits)
  then show ?thesis using f by (intro case_write_moves [OF ok _ up]) (auto simp: case_kept_def)
qed

lemma markPaid_evolves:
  assumes "store_ok ck d" and "markPaid ck now i opts d = Inr (c, d')"
  shows "store_evolves ck d d'"
  using assms resolve_evolves [OF assms(1)] by (auto simp: markPaid_def bind_result_Inr_iff paid_row_def)

lemma markAbandoned_evolves:
  assumes "store_ok ck d" and "markAbandoned ck now i reason d = Inr (c, d')"
  shows "store_evolves ck d d'"
  using assms resolve_evolves [OF assms(1)] by (auto simp: markAbandoned_def bind_result_Inr_iff abandoned_row_def)

section \<open>Webhook events\<close>

text \<open>What a part of the webhook handler leaves alone, and how it treats events and cases.\<close>

definition swap_frame :: "collation \<Rightarrow> db \<Rightarrow> db \<Rightarrow> bool" where
  "swap_frame ck d d' \<longleftrightarrow>
     users d' = users d \<and> lightning_names d' = lightning_names d \<and> auth_nonces d' = auth_nonces d
     \<and> invoices d' = invoices d
     \<and> (events_uniq ck d \<longrightarrow> events_uniq ck d') \<and> (cases_ok ck d \<longrightarrow> cases_ok ck d')
     \<and> grows event_kept (webhook_events d) (webhook_events d')
     \<and> grows case_kept (refund_cases d) (refund_cases d')
     \<and> (\<forall>c \<in> set (refund_cases d'). c \<in> set (refund_cases d) \<or> (\<exists>i \<in> set (invoices d). text_eq ck (inv_id i) (rc_invoiceId c)))"

lemma swap_frame_refl [simp]: "swap_frame ck d d"
  by (auto simp: swap_frame_def)

lemma swap_frame_trans: "swap_frame ck d d' \<Longrightarrow> swap_frame ck d' d'' \<Longrightarrow> swap_frame ck d d''"
  unfolding swap_frame_def by (auto elim: grows_trans [OF _ _ case_kept_trans] grows_trans [OF _ _ event_kept_trans])

lemma swap_frame_orders: "swap_frame ck d (d\<lparr>flashnet_orders := t\<rparr>)"
  by (auto simp: swap_frame_def)

lemma swap_frame_events: "(events_uniq ck d \<longrightarrow> uniq ck webhook_event_ixs t) \<Longrightarrow> grows event_kept (webhook_events d) t \<Longrightarrow> swap_frame ck d (d\<lparr>webhook_events := t\<rparr>)"
  by (auto simp: swap_frame_def)

lemma created_grows: "tbl_create ck ixs e t = Inr t' \<Longrightarrow> grows event_kept t t'"
  by (auto simp: tbl_create_Inr)

lemma marked_grows:
  assumes "tbl_update ck ixs P (\<lambda>r. r\<lparr>processedAt := Some now\<rparr>) t = Inr t'"
  shows "grows event_kept t t'"
  using assms
  by (auto simp: tbl_update_def grows_iff_nth event_kept_def split: option.splits)

lemma upsert_event_frame: "upsert_event E p ts d = Inr (ev, d') \<Longrightarrow> swap_frame (env_ck E) d d'"
  by (auto simp: upsert_event_def intro!: swap_frame_events intro: tbl_create_uniq created_grows split: option.splits sum.splits)

lemma mark_processed_swap_frame: "mark_processed E ev d = Inr d' \<Longrightarrow> swap_frame (env_ck E) d d'"
  by (auto simp: mark_processed_def intro!: swap_frame_events intro: tbl_update_uniq [OF _ we_primary_in] marked_grows
      split: sum.splits)

lemma update_order_frame: "update_order E i f d = Inr d' \<Longrightarrow> swap_frame (env_ck E) d d'"
  by (auto simp: update_order_def intro: swap_frame_orders split: sum.splits)

lemma bind_order_frame: "bind_order E w d = Inr (found, d') \<Longrightarrow> swap_frame (env_ck E) d d'"
  by (auto simp: bind_order_def bind_result_Inr_iff intro: update_order_frame split: option.splits if_splits)

lemma open_refund_case_frame:
  assumes "open_refund_case E ord reason d = Inr d'"
  shows "swap_frame (env_ck E) d d'"
proof -
  from assms obtain r where c: "createRefundCase (env_ck E) (env_case_id E) (env_now E)
      \<lparr>crc_invoiceId = fo_invoiceId ord, crc_amountSats = amount_sats E ord d, crc_reason = reason, crc_externalRef = None\<rparr> d
      = Inr (r, d')" (is "createRefundCase _ _ _ ?p d = _")
    by (auto simp: open_refund_case_def split: sum.splits)
  from c show ?thesis
  proof (cases rule: createRefundCase_cases)
    case opened
    have "invoice_by_id (env_ck E) (fo_invoiceId ord) d \<noteq> None"
      using c by (auto simp: createRefundCase_def split: if_splits)
    then have "\<exists>i \<in> set (invoices d). text_eq (env_ck E) (inv_id i) (fo_invoiceId ord)"
      by (auto simp: invoice_by_id_def find_None_iff)
    with opened show ?thesis
      using tbl_create_uniq [OF _ opened(1)] by (auto simp: swap_frame_def new_case_def)
  qed simp
qed

lemmas swap_frames = upsert_event_frame mark_processed_swap_frame update_order_frame bind_order_frame open_refund_case_frame

lemma apply_transition_frame: "apply_transition E p ev ord nxt d = Inr d' \<Longrightarrow> swap_frame (env_ck E) d d'"
  by (auto simp: apply_transition_def bind_result_Inr_iff split: if_splits elim!: swap_frame_trans [OF swap_frames(3)]
      swap_frame_trans [OF swap_frames(2)] intro: swap_frames)

lemma recovery_required_frame: "recovery_required E ev ord d = Inr d' \<Longrightarrow> swap_frame (env_ck E) d d'"
  by (auto simp: recovery_required_def bind_result_Inr_iff split: if_splits intro: swap_frames swap_frame_trans [OF swap_frames(5)])

lemma applyWebhookEvent_frame:
  assumes "applyWebhookEvent E p d = Inr d'"
  shows "swap_frame (env_ck E) d d'"
  using assms
  by (cases rule: applyWebhookEvent_cases)
     (blast intro: swap_frames swap_frame_trans recovery_required_frame apply_transition_frame)+

lemma webhook_evolves:
  assumes ok: "store_ok (env_ck E) d" and fresh: "fresh_case_id (env_ck E) (env_case_id E) d"
    and ap: "applyWebhookEvent E p d = Inr d'"
  shows "store_evolves (env_ck E) d d'"
proof -
  note k = store_okD [OF ok] and f = applyWebhookEvent_frame [OF ap, unfolded swap_frame_def]
  have "orders_evolve (env_ck E) d (deliver (E, p) d)" using k(5) by (rule deliver_evolves) simp
  then have "orders_evolve (env_ck E) d d'" by (simp add: deliver_def ap)
  moreover have "length (flashnet_orders d') = length (flashnet_orders d)"
    using applyWebhookEvent_rows [OF k(5) ap] by (auto dest: list_all2_lengthD)
  moreover have "failed_have_cases (env_ck E) d'"
    using k(5,9) fresh ap by (rule applyWebhookEvent_failed_cases)
  ultimately show ?thesis
    using f k refs_okD(3) [OF k(10)] by (intro evolve_swap [OF ok]) blast+
qed

lemma deliver_store_evolves:
  assumes "store_ok (env_ck (fst x)) d" and "fresh_case_id (env_ck (fst x)) (env_case_id (fst x)) d"
  shows "store_evolves (env_ck (fst x)) d (deliver x d)"
  using webhook_evolves [OF assms] store_evolves_refl [OF assms(1)]
  by (cases "applyWebhookEvent (fst x) (snd x) d") (simp_all add: deliver_def)

interpretation delivery: store_op "env_ck (fst x)" "fresh_case_id (env_ck (fst x)) (env_case_id (fst x))" "deliver x" for x
  by unfold_locales (rule deliver_store_evolves)

lemma handleWebhook_evolves:
  assumes "store_ok (env_ck E) d" and "fresh_case_id (env_ck E) (env_case_id E) d"
    and "handleWebhook verify parse skew E req d = (resp, d')"
  shows "store_evolves (env_ck E) d d'"
proof (cases "d' = d")
  case True
  with assms(1) show ?thesis by (simp add: store_evolves_refl)
next
  case False
  from handleWebhook_changes [OF assms(3) False] webhook_evolves [OF assms(1,2)] show ?thesis by blast
qed

section \<open>Payments\<close>

text \<open>The transaction alone, whatever the request read before.\<close>

lemma persist_evolves:
  assumes ok: "store_ok (env_ck E) d" and r: "persist_quote E q r d = Inr d'"
  shows "store_evolves (env_ck E) d d'"
proof -
  note k = store_okD [OF ok]
  let ?quote = "\<lambda>_ _. Inr (r\<lparr>qr_replayed := False\<rparr>)"
  have "persist_quote E q (r\<lparr>qr_replayed := False\<rparr>) d = persist_quote E q r d"
    by (cases "env_parseDate E (qr_expiresAt r)") (simp_all add: persist_quote_def quote_invoice_def quote_order_def Let_def)
  then have i: "initiateLightningQuote E ?quote q d = Inr (\<lparr>ir_bolt11 = qr_depositAddress r, ir_replayed = False\<rparr>, d')"
    using r by (simp add: initiateLightningQuote_def)
  from r have name: "find (\<lambda>n. text_eq (env_ck E) (ln_id n) (iq_lightningNameId q)) (lightning_names d) \<noteq> None"
    by (auto simp: persist_quote_def split: option.splits if_splits)
  then obtain n where n: "n \<in> set (lightning_names d)" "text_eq (env_ck E) (ln_id n) (iq_lightningNameId q)"
    by (auto simp: find_None_iff)
  from r obtain expiry ord where p: "quote_order E q r = Inr ord"
    "tbl_create (env_ck E) invoice_ixs (quote_invoice q r expiry) (invoices d) = Inr (invoices d @ [quote_invoice q r expiry])"
    "d' = d\<lparr>invoices := invoices d @ [quote_invoice q r expiry], flashnet_orders := flashnet_orders d @ [ord]\<rparr>"
    by (rule persist_quote_Inr)
  have "orders_evolve (env_ck E) d (store_quote E ?quote q d)" using k(5) by (rule store_quote_evolves)
  then have "orders_evolve (env_ck E) d d'" by (simp add: store_quote_def i)
  then show ?thesis
    using n quote_order_shape(1,4) [OF p(1)] tbl_create_uniq [OF k(4) p(2)]
    by (intro evolve_payment [OF ok p(3)]) (auto simp: p(3) quote_invoice_def)
qed

lemma quote_evolves:
  assumes ok: "store_ok (env_ck E) d" and i: "initiateLightningQuote E quote q d = Inr (res, d')"
  shows "store_evolves (env_ck E) d d'"
  using i persist_evolves [OF ok] store_evolves_refl [OF ok]
  by (auto simp: initiateLightningQuote_def bind_result_Inr_iff split: if_splits)

text \<open>The statement that stores an invoice in satoshi alone; the foreign key finds the name.\<close>

lemma createInvoice_evolves:
  assumes ok: "store_ok (le_ck E) d" and i: "lnurl_createInvoice E nameId n res d = Inr d'"
  shows "store_evolves (le_ck E) d d'"
proof -
  note k = store_okD [OF ok]
  from i have t: "tbl_create (le_ck E) invoice_ixs (sats_invoice E nameId n res) (invoices d) = Inr (invoices d')"
    and d': "d' = d\<lparr>invoices := invoices d @ [sats_invoice E nameId n res]\<rparr>"
    and name: "find (\<lambda>x. text_eq (le_ck E) (ln_id x) nameId) (lightning_names d) \<noteq> None"
    by (auto simp: lnurl_createInvoice_def bind_result_Inr_iff tbl_create_Inr split: if_splits)
  from name obtain r where r: "r \<in> set (lightning_names d)" "text_eq (le_ck E) (ln_id r) nameId"
    by (auto simp: find_None_iff)
  have eq: "d' = d\<lparr>invoices := invoices d @ [sats_invoice E nameId n res], flashnet_orders := flashnet_orders d @ []\<rparr>"
    by (simp add: d')
  show ?thesis
    using r tbl_create_uniq [OF k(4) t] orders_evolve_same [OF k(5), of d']
    by (intro evolve_payment [OF ok eq]) (auto simp: d' sats_invoice_def)
qed

lemma sats_evolves:
  assumes ok: "store_ok (le_ck E) d" and i: "issueSatsBolt11 E r n hash d = Inr (pr, d')"
  shows "store_evolves (le_ck E) d d'"
  using i createInvoice_evolves [OF ok] by (auto simp: issueSatsBolt11_def bind_result_Inr_iff map_sum_Inr)

lemma payment_evolves:
  assumes ok: "store_ok (le_ck E) d" and pay: "handleLnurlCallback E raw amountStr d = Inr (ans, d')"
  shows "store_evolves (le_ck E) d d'"
proof -
  from pay obtain n r u where p: "parse_amount amountStr = Inr n"
      "findActiveLightningNameWithUser (le_ck E) raw d = Inr (Some (r, u))" "linkingPubKeyHex r \<noteq> []"
    and r: "r \<in> set (lightning_names d)" by (rule handleLnurlCallback_found)
  from p pay show ?thesis
  proof (cases rule: handleLnurlCallback_routes)
    case (usdb hash pr)
    then show ?thesis
      by (auto simp: handleUsdbCallback_def bind_result_Inr_iff map_sum_Inr intro: quote_evolves [OF ok])
  next
    case (sats hash pr)
    then show ?thesis using sats_evolves [OF ok] by blast
  qed (use ok in \<open>simp_all add: store_evolves_refl\<close>)
qed

end
