(* ===== verification/Query.thy ===== *)
theory Query
  imports Lnurl
begin

text \<open>
  The public lookups, \<open>src/query/query.service.ts\<close> and \<open>src/query/query.controller.ts\<close>. What
  \<open>contains\<close> matches is the database's pattern match under its collation, so it is a
  parameter.
\<close>

record query_env =
  qe_ck :: collation
  qe_contains :: "js_string \<Rightarrow> js_string \<Rightarrow> bool" \<comment> \<open>column, text\<close>
  qe_base :: base_url
  qe_sparkNetwork :: "js_string option"
  qe_secp :: secp_lib
  qe_b32m :: bech32m_lib

datatype query_error = QueryName | QueryBaseUrl username_error | QueryNotFound

record QueryResponse =
  qn_username :: js_string
  qn_lightningAddress :: js_string
  qn_sparkAddress :: js_string
  qn_publicKey :: js_string

definition findLightningNameByPubKey :: "query_env \<Rightarrow> js_string \<Rightarrow> db \<Rightarrow> LightningName option" where
  "findLightningNameByPubKey E pubKeyHex d =
     find (\<lambda>r. text_eq (qe_ck E) (linkingPubKeyHex r) pubKeyHex \<and> ln_active r) (lightning_names d)"

definition findLightningNameByUsername :: "query_env \<Rightarrow> js_string \<Rightarrow> db \<Rightarrow> query_error + LightningName list" where
  "findLightningNameByUsername E rawUsername d =
     (case normalizeUsername rawUsername of
        None \<Rightarrow> Inl QueryName
      | Some username \<Rightarrow>
          Inr (filter (\<lambda>r. qe_contains E (ln_username r) username \<and> ln_active r) (lightning_names d)))"

text \<open>A key that cannot be encoded leaves the address empty.\<close>

definition spark_address_or_empty :: "query_env \<Rightarrow> LightningName \<Rightarrow> js_string" where
  "spark_address_or_empty E r =
     (let network = (if truthy (qe_sparkNetwork E) then nullish (qe_sparkNetwork E) [] else ''MAINNET'')
      in case encodeSparkAddress (qe_b32m E) (qe_secp E) (linkingPubKeyHex r) network of
           Inl _ \<Rightarrow> [] | Inr a \<Rightarrow> a)"

definition query_response :: "query_env \<Rightarrow> js_string \<Rightarrow> LightningName \<Rightarrow> QueryResponse" where
  "query_response E domain r =
     \<lparr>qn_username = ln_username r, qn_lightningAddress = ln_username r @ ''@'' @ domain,
      qn_sparkAddress = spark_address_or_empty E r, qn_publicKey = linkingPubKeyHex r\<rparr>"

definition queryByPubKey :: "query_env \<Rightarrow> js_string \<Rightarrow> db \<Rightarrow> query_error + QueryResponse option" where
  "queryByPubKey E pubKey d =
     (case findLightningNameByPubKey E pubKey d of
        None \<Rightarrow> Inr None
      | Some r \<Rightarrow>
          bind_result (map_sum QueryBaseUrl id (domain_of (qe_base E))) (\<lambda>(url, domain).
            Inr (Some (query_response E domain r))))"

definition queryByUsername :: "query_env \<Rightarrow> js_string \<Rightarrow> db \<Rightarrow> query_error + QueryResponse list" where
  "queryByUsername E username d =
     bind_result (findLightningNameByUsername E username d) (\<lambda>rows.
       if rows = [] then Inr []
       else bind_result (map_sum QueryBaseUrl id (domain_of (qe_base E))) (\<lambda>(url, domain).
              Inr (map (query_response E domain) rows)))"

definition query_username_endpoint :: "query_env \<Rightarrow> js_string \<Rightarrow> db \<Rightarrow> query_error + QueryResponse" where
  "query_username_endpoint E pubKey d =
     bind_result (queryByPubKey E pubKey d) (\<lambda>result.
       case result of None \<Rightarrow> Inl QueryNotFound | Some x \<Rightarrow> Inr x)"

lemma find_stronger: "find P xs = Some x \<Longrightarrow> Q x \<Longrightarrow> find (\<lambda>y. P y \<and> Q y) xs = Some x"
proof (induction xs)
  case (Cons y ys)
  then show ?case by (cases "P y") auto
qed simp

end
