(* ===== verification/Nonce_Purge.thy ===== *)
theory Nonce_Purge
  imports Auth
begin

text \<open>
  The purge service around the loop of \<open>Auth\<close>: \<open>src/auth/auth-nonce-purge.service.ts\<close> as the
  timers, the flag and the promise of the class, with one step per statement. Between the query
  for expired rows and the deletion, and between two batches, requests change the store. The
  event loop runs the code between two awaits without interruption, so each definition below is
  one such stretch.
\<close>

section \<open>The service\<close>

definition PURGE_FIRST_RUN_MS :: int where "PURGE_FIRST_RUN_MS = 30 * 1000"
definition PURGE_INTERVAL_MS :: int where "PURGE_INTERVAL_MS = 10 * 60 * 1000"

text \<open>A run that has started: its number, its cut-off, the batch it is in, and the rows it has
  read and not yet deleted.\<close>

record purge_run =
  pr_id :: nat
  pr_cutoff :: time_ms
  pr_batch :: nat
  pr_rows :: "js_string list option"

text \<open>
  The promise that \<open>inFlight\<close> holds: none yet, that of a call that returned at once, or that of
  a run.
\<close>

datatype promise = NoPromise | ReturnedAtOnce | OfRun nat

record purge_service =
  pg_firstRun :: bool
  pg_timer :: bool
  pg_running :: bool
  pg_inFlight :: promise
  pg_runs :: "purge_run list" \<comment> \<open>calls of \<open>runSafely\<close> that have not settled\<close>
  pg_started :: nat

definition new_purge_service :: purge_service where
  "new_purge_service = \<lparr>pg_firstRun = False, pg_timer = False, pg_running = False,
     pg_inFlight = NoPromise, pg_runs = [], pg_started = 0\<rparr>"

definition purge_onModuleInit :: "bool \<Rightarrow> purge_service \<Rightarrow> purge_service" where
  "purge_onModuleInit test_env s =
     (if test_env then s else s\<lparr>pg_firstRun := True, pg_timer := True\<rparr>)"

text \<open>\<open>runSafely\<close> up to its first await: the promise it returns, and the service.\<close>

definition runSafely :: "time_ms \<Rightarrow> purge_service \<Rightarrow> promise \<times> purge_service" where
  "runSafely now s =
     (if pg_running s then (ReturnedAtOnce, s)
      else (OfRun (pg_started s),
            s\<lparr>pg_running := True, pg_started := Suc (pg_started s),
              pg_runs := \<lparr>pr_id = pg_started s, pr_cutoff = now - PURGE_GRACE_MS, pr_batch = 0, pr_rows = None\<rparr>
                         # pg_runs s\<rparr>))"

definition schedule :: "time_ms \<Rightarrow> purge_service \<Rightarrow> purge_service" where
  "schedule now s = (case runSafely now s of (p, s') \<Rightarrow> s'\<lparr>pg_inFlight := p\<rparr>)"

text \<open>The \<open>finally\<close> block: the run settles, after its last batch or after an error that is only logged.\<close>

definition run_settles :: "purge_run \<Rightarrow> purge_service \<Rightarrow> purge_service" where
  "run_settles r s = s\<lparr>pg_running := False, pg_runs := filter (\<lambda>x. pr_id x \<noteq> pr_id r) (pg_runs s)\<rparr>"

definition put_run :: "purge_run \<Rightarrow> purge_service \<Rightarrow> purge_service" where
  "put_run r s = s\<lparr>pg_runs := map (\<lambda>x. if pr_id x = pr_id r then r else x) (pg_runs s)\<rparr>"

text \<open>One query, and what follows it up to the next await.\<close>

definition select_batch ::
  "(AuthNonce list \<Rightarrow> AuthNonce list) \<Rightarrow> purge_run \<Rightarrow> db \<Rightarrow> purge_service \<Rightarrow> purge_service" where
  "select_batch scan r d s =
     (let ids = batch_ids scan (pr_cutoff r) (auth_nonces d)
      in if ids = [] then run_settles r s else put_run (r\<lparr>pr_rows := Some ids\<rparr>) s)"

text \<open>One deletion, and what follows it.\<close>

definition delete_batch ::
  "collation \<Rightarrow> purge_run \<Rightarrow> js_string list \<Rightarrow> db \<Rightarrow> purge_service \<Rightarrow> db \<times> purge_service" where
  "delete_batch ck r ids d s =
     (d\<lparr>auth_nonces := delete_ids ck ids (auth_nonces d)\<rparr>,
      if length ids < PURGE_BATCH_SIZE \<or> Suc (pr_batch r) = PURGE_MAX_BATCHES then run_settles r s
      else put_run (r\<lparr>pr_batch := Suc (pr_batch r), pr_rows := None\<rparr>) s)"

text \<open>\<open>onModuleDestroy\<close>: the timers go, then the promise of \<open>inFlight\<close> is awaited.\<close>

definition purge_onModuleDestroy :: "purge_service \<Rightarrow> purge_service" where
  "purge_onModuleDestroy s = s\<lparr>pg_firstRun := False, pg_timer := False\<rparr>"

definition awaited :: "purge_service \<Rightarrow> bool" where
  "awaited s = (case pg_inFlight s of OfRun n \<Rightarrow> n \<notin> pr_id ` set (pg_runs s) | _ \<Rightarrow> True)"

section \<open>Steps\<close>

text \<open>
  A tick of either timer, the statements of a run, an error in a run, the shutdown, and the
  requests of the other services: new challenges, consumed challenges, and writes to the other
  tables. The \<open>time\<close> of a tick is an argument, so that a bound on the clock can be stated.
\<close>

type_synonym purge_state = "db \<times> purge_service"

inductive purge_step :: "collation \<Rightarrow> time_ms \<Rightarrow> purge_state \<Rightarrow> purge_state \<Rightarrow> bool" for ck T where
  tick: "pg_firstRun s \<or> pg_timer s \<Longrightarrow> now \<le> T \<Longrightarrow> purge_step ck T (d, s) (d, schedule now s)"
| select: "r \<in> set (pg_runs s) \<Longrightarrow> pr_rows r = None \<Longrightarrow> mset (scan (auth_nonces d)) = mset (auth_nonces d)
    \<Longrightarrow> purge_step ck T (d, s) (d, select_batch scan r d s)"
| delete: "r \<in> set (pg_runs s) \<Longrightarrow> pr_rows r = Some ids \<Longrightarrow> purge_step ck T (d, s) (delete_batch ck r ids d s)"
| fail: "r \<in> set (pg_runs s) \<Longrightarrow> purge_step ck T (d, s) (d, run_settles r s)"
| destroy: "purge_step ck T (d, s) (d, purge_onModuleDestroy s)"
| challenge: "generateAuthChallenge ck base nid random now d = Inr (out, d') \<Longrightarrow> purge_step ck T (d, s) (d', s)"
| register: "bind_commit ck abort now ids k1 key username d = Inr d' \<Longrightarrow> purge_step ck T (d, s) (d', s)"
| other: "auth_nonces d' = auth_nonces d \<Longrightarrow> purge_step ck T (d, s) (d', s)"

section \<open>One run at a time\<close>

definition one_run :: "purge_service \<Rightarrow> bool" where
  "one_run s \<longleftrightarrow> (pg_running s \<longleftrightarrow> pg_runs s \<noteq> []) \<and> length (pg_runs s) \<le> 1
     \<and> (\<forall>r \<in> set (pg_runs s). pr_id r < pg_started s)"

lemma one_run_runs:
  assumes "one_run s" and "r \<in> set (pg_runs s)"
  shows "pg_runs s = [r]"
  using assms by (cases "pg_runs s") (auto simp: one_run_def)

lemma run_settles_runs [simp]:
  assumes "one_run s" and "r \<in> set (pg_runs s)"
  shows "run_settles r s = s\<lparr>pg_running := False, pg_runs := []\<rparr>"
  using one_run_runs [OF assms] by (simp add: run_settles_def)

lemma put_run_runs:
  assumes "one_run s" and "r \<in> set (pg_runs s)" and "pr_id r' = pr_id r"
  shows "put_run r' s = s\<lparr>pg_runs := [r']\<rparr>"
  using one_run_runs [OF assms(1,2)] assms(3) by (simp add: put_run_def)

lemma one_run_initial: "one_run (purge_onModuleInit test_env new_purge_service)"
  by (simp add: one_run_def purge_onModuleInit_def new_purge_service_def)

lemma schedule_runs:
  "pg_running s \<Longrightarrow> schedule now s = s\<lparr>pg_inFlight := ReturnedAtOnce\<rparr>"
  "\<not> pg_running s \<Longrightarrow> schedule now s = s\<lparr>pg_running := True, pg_started := Suc (pg_started s),
     pg_runs := \<lparr>pr_id = pg_started s, pr_cutoff = now - PURGE_GRACE_MS, pr_batch = 0, pr_rows = None\<rparr> # pg_runs s,
     pg_inFlight := OfRun (pg_started s)\<rparr>"
  by (simp_all add: schedule_def runSafely_def)

lemma purge_step_one_run: "purge_step ck T x y \<Longrightarrow> one_run (snd x) \<Longrightarrow> one_run (snd y)"
proof (induction rule: purge_step.induct)
  case (tick s now d)
  then show ?case by (cases "pg_running s") (auto simp: schedule_runs one_run_def)
next
  case (select r s scan d)
  then show ?case
    using one_run_runs [of s r]
    by (auto simp: select_batch_def Let_def put_run_runs one_run_def)
next
  case (delete r s ids d)
  then show ?case
    using one_run_runs [of s r]
    by (auto simp: delete_batch_def put_run_runs one_run_def)
next
  case (fail r s d)
  then show ?case by (simp add: one_run_def)
qed (simp_all add: one_run_def purge_onModuleDestroy_def)

section \<open>What the purge spares\<close>

definition same_nonce :: "AuthNonce \<Rightarrow> AuthNonce \<Rightarrow> bool" where
  "same_nonce n n' \<longleftrightarrow> n' = n\<lparr>usedAt := usedAt n'\<rparr> \<and> (usedAt n \<noteq> None \<longrightarrow> usedAt n' = usedAt n)"

definition spared :: "collation \<Rightarrow> time_ms \<Rightarrow> AuthNonce \<Rightarrow> purge_state \<Rightarrow> bool" where
  "spared ck T n x \<longleftrightarrow> nonces_uniq ck (fst x) \<and> (\<exists>n' \<in> set (auth_nonces (fst x)). same_nonce n n')
     \<and> one_run (snd x)
     \<and> (\<forall>r \<in> set (pg_runs (snd x)). pr_cutoff r \<le> T - PURGE_GRACE_MS
          \<and> (\<forall>ids. pr_rows r = Some ids \<longrightarrow> \<not> list_ex (text_eq ck (an_id n)) ids))"

lemma same_nonce_refl [simp]: "same_nonce n n"
  by (simp add: same_nonce_def)

lemma same_nonceD:
  assumes "same_nonce n n'"
  shows "an_id n' = an_id n" "an_expiresAt n' = an_expiresAt n"
  using assms by (metis AuthNonce.select_convs(1) AuthNonce.select_convs(3) AuthNonce.surjective AuthNonce.update_convs(4) same_nonce_def)+

lemma same_nonce_consumed: "same_nonce n n' \<Longrightarrow> usedAt n' = None \<Longrightarrow> same_nonce n (n'\<lparr>usedAt := Some now\<rparr>)"
  by (cases n; cases n') (auto simp: same_nonce_def)

lemma mset_eq_set: "mset xs = mset ys \<Longrightarrow> set xs = set ys"
  by (metis set_mset_mset)

lemma batch_spares:
  assumes "uniq ck auth_nonce_ixs t" "n' \<in> set t" "mset (scan t) = mset t" "cutoff \<le> an_expiresAt n'"
  shows "\<not> list_ex (text_eq ck (an_id n')) (batch_ids scan cutoff t)"
proof
  assume "list_ex (text_eq ck (an_id n')) (batch_ids scan cutoff t)"
  then obtain m where m: "m \<in> set (take PURGE_BATCH_SIZE (filter (expired_before cutoff) (scan t)))" "text_eq ck (an_id n') (an_id m)"
    by (auto simp: batch_ids_def list_ex_iff)
  from in_set_takeD [OF m(1)] have "m \<in> set t" "expired_before cutoff m"
    using mset_eq_set [OF assms(3)] by auto
  with nonce_same_id [OF assms(1,2) _ m(2)] assms(4) show False by (simp add: expired_before_def)
qed

lemma purge_step_spared:
  "purge_step ck T x y \<Longrightarrow> spared ck T n x \<Longrightarrow> T - PURGE_GRACE_MS \<le> an_expiresAt n \<Longrightarrow> spared ck T n y"
proof (induction rule: purge_step.induct)
  case (tick s now d)
  have "one_run (schedule now s)"
    using purge_step_one_run [OF purge_step.tick [OF tick(1,2), of ck d]] tick(3) by (simp add: spared_def)
  with tick show ?case by (cases "pg_running s") (auto simp: spared_def schedule_runs)
next
  case (select r s scan d)
  have one: "one_run (select_batch scan r d s)"
    using purge_step_one_run [OF purge_step.select [where scan = scan and d = d and ck = ck and T = T, OF select(1-3)]] select(4) by (simp add: spared_def)
  obtain n' where n': "n' \<in> set (auth_nonces d)" "same_nonce n n'" using select(4) by (auto simp: spared_def)
  have "\<not> list_ex (text_eq ck (an_id n)) (batch_ids scan (pr_cutoff r) (auth_nonces d))"
    using batch_spares [of ck "auth_nonces d" n' scan "pr_cutoff r"] n' select same_nonceD [OF n'(2)]
    by (fastforce simp: spared_def)
  with select one show ?case
    by (auto simp: spared_def select_batch_def Let_def put_run_runs)
next
  case (delete r s ids d)
  have one: "one_run (snd (delete_batch ck r ids d s))"
    using purge_step_one_run [OF purge_step.delete [OF delete(1,2), of ck T]] delete(3) by (simp add: spared_def)
  obtain n' where n': "n' \<in> set (auth_nonces d)" "same_nonce n n'" using delete(3) by (auto simp: spared_def)
  have "\<not> list_ex (text_eq ck (an_id n')) ids"
    using delete same_nonceD [OF n'(2)] by (auto simp: spared_def)
  with n' have "\<exists>n' \<in> set (delete_ids ck ids (auth_nonces d)). same_nonce n n'" by (auto simp: delete_ids_def)
  with delete one show ?case
    by (auto simp: spared_def delete_batch_def put_run_runs uniq_filter delete_ids_def)
next
  case (fail r s d)
  then show ?case using purge_step_one_run [OF purge_step.fail [OF fail(1), of ck T]] by (auto simp: spared_def)
next
  case (destroy d s)
  then show ?case by (simp add: spared_def purge_onModuleDestroy_def one_run_def)
next
  case (challenge base nid random now d out d' s)
  then have "nonces_uniq ck d'"
    by (auto simp: generateAuthChallenge_def Let_def spared_def intro: tbl_create_uniq split: sum.splits)
  with challenge show ?case
    by (auto simp: generateAuthChallenge_def Let_def spared_def tbl_create_Inr split: sum.splits)
next
  case (register abort now ids k1 key username d d' s)
  note c = bind_commit_Inr(5) [OF register(1)]
  obtain n' where n': "n' \<in> set (auth_nonces d)" "same_nonce n n'" using register(2) by (auto simp: spared_def)
  let ?f = "\<lambda>n. if consumable ck k1 now n then n\<lparr>usedAt := Some now\<rparr> else n"
  have t: "auth_nonces d' = map ?f (auth_nonces d)" unfolding c by (simp add: consume_nonce_def)
  have "uniq ck auth_nonce_ixs (map ?f (auth_nonces d))"
  proof -
    have "no_clash ck auth_nonce_ixs (?f a) (?f b) = no_clash ck auth_nonce_ixs a b" for a b
      by (simp add: no_clash_def auth_nonce_ixs_def clash_def row_key_def)
    then show ?thesis using register(2) by (simp add: spared_def uniq_def sorted_wrt_map)
  qed
  moreover have "same_nonce n (?f n')"
    using n'(2) by (auto simp: consumable_def intro: same_nonce_consumed)
  then have "\<exists>m \<in> set (map ?f (auth_nonces d)). same_nonce n m"
    using imageI [OF n'(1), of ?f] unfolding set_map by (rule bexI)
  ultimately show ?case using register(2) unfolding spared_def fst_conv snd_conv t by blast
next
  case (other d' d s)
  then show ?case by (simp add: spared_def)
qed

text \<open>
  C29. The purge never takes a challenge that can still be used, whatever happens while it runs.
  From a store with unique challenges and an idle service, under any interleaving of timer
  ticks, the statements of a run, errors, shutdown, new challenges, registrations and other
  writes, in which no tick has a clock past \<open>T\<close>: a challenge that had expired for less than an
  hour at \<open>T\<close>, or not at all, is still stored, unchanged except that a registration may have
  consumed it.
\<close>

theorem purge_spares_live:
  assumes "nonces_uniq ck d" and "s = purge_onModuleInit test_env new_purge_service"
    and "(purge_step ck T)\<^sup>*\<^sup>* (d, s) (d', s')"
    and "n \<in> set (auth_nonces d)" and "T \<le> an_expiresAt n + 60 * 60 * 1000"
  shows "\<exists>n' \<in> set (auth_nonces d'). n' = n\<lparr>usedAt := usedAt n'\<rparr> \<and> (usedAt n \<noteq> None \<longrightarrow> usedAt n' = usedAt n)"
proof -
  have "spared ck T n (d, s)"
    using assms(1,2,4) one_run_initial
    by (auto simp: spared_def purge_onModuleInit_def new_purge_service_def intro: bexI [where x = n])
  with assms(3) have "spared ck T n (d', s')"
    using assms(5) by (induction rule: rtranclp_induct) (auto intro: purge_step_spared simp: PURGE_GRACE_MS_def)
  then show ?thesis by (simp add: spared_def same_nonce_def)
qed

section \<open>Shutdown\<close>

lemma destroy_simps [simp]:
  "awaited (purge_onModuleDestroy s) = awaited s" "pg_runs (purge_onModuleDestroy s) = pg_runs s"
  by (simp_all add: awaited_def purge_onModuleDestroy_def split: promise.split)

definition promised :: "purge_service \<Rightarrow> bool" where
  "promised s \<longleftrightarrow> (\<forall>r \<in> set (pg_runs s). pg_inFlight s = OfRun (pr_id r) \<or> pg_inFlight s = ReturnedAtOnce)"

lemma purge_step_promised: "purge_step ck T x y \<Longrightarrow> one_run (snd x) \<Longrightarrow> promised (snd x) \<Longrightarrow> promised (snd y)"
proof (induction rule: purge_step.induct)
  case (tick s now d)
  then show ?case by (cases "pg_running s") (auto simp: schedule_runs promised_def one_run_def)
qed (auto simp: promised_def select_batch_def delete_batch_def Let_def put_run_runs purge_onModuleDestroy_def)

text \<open>
  C30. When a shutdown waits for the purge. The service never has two runs at a time, and after
  \<open>onModuleDestroy\<close> the awaited promise is that of the run, so once it has settled no run is left.
  There is one exception: a tick that came while a run was in progress has replaced the
  promise by one that is already settled, and then the shutdown returns with the run still
  deleting.
\<close>

theorem shutdown_awaits_run:
  assumes "s = purge_onModuleInit test_env new_purge_service" and "(purge_step ck T)\<^sup>*\<^sup>* (d, s) (d', s')"
  shows "length (pg_runs s') \<le> 1
    \<and> (pg_inFlight s' \<noteq> ReturnedAtOnce \<longrightarrow> awaited (purge_onModuleDestroy s') \<longrightarrow> pg_runs (purge_onModuleDestroy s') = [])
    \<and> (pg_runs s' \<noteq> [] \<longrightarrow>
         awaited (purge_onModuleDestroy (schedule now s')) \<and> pg_runs (purge_onModuleDestroy (schedule now s')) \<noteq> [])"
proof -
  have "one_run s \<and> promised s"
    unfolding assms(1) using one_run_initial
    by (simp add: promised_def purge_onModuleInit_def new_purge_service_def)
  with assms(2) have inv: "one_run s' \<and> promised s'"
    by (induction rule: rtranclp_induct2) (auto dest: purge_step_one_run purge_step_promised)
  have "awaited s' \<longrightarrow> pg_runs s' = []" if "pg_inFlight s' \<noteq> ReturnedAtOnce"
    using inv that by (cases "pg_runs s'") (auto simp: promised_def awaited_def split: promise.splits)
  moreover have "awaited (schedule now s')" "pg_runs (schedule now s') \<noteq> []" if "pg_runs s' \<noteq> []"
    using that inv by (simp_all add: one_run_def schedule_runs awaited_def)
  ultimately show ?thesis
    using inv by (simp add: one_run_def)
qed

section \<open>A run\<close>

definition demo_nonce :: "js_string \<Rightarrow> time_ms \<Rightarrow> AuthNonce" where
  "demo_nonce x t = \<lparr>an_id = x, an_k1 = x, an_expiresAt = t, usedAt = None\<rparr>"

definition demo_purge_db :: db where
  "demo_purge_db = empty_db\<lparr>auth_nonces := [demo_nonce ''a'' 0, demo_nonce ''b'' 9000000]\<rparr>"

abbreviation demo_purge :: purge_service where
  "demo_purge \<equiv> purge_onModuleInit False new_purge_service"

text \<open>A tick, a query and a deletion: the old challenge is gone and the other one is left.\<close>

lemma demo_purge_steps:
  "\<exists>s'. (purge_step id 9000000)\<^sup>*\<^sup>* (demo_purge_db, demo_purge)
     (demo_purge_db\<lparr>auth_nonces := [demo_nonce ''b'' 9000000]\<rparr>, s')"
proof -
  let ?s1 = "schedule 9000000 demo_purge"
  let ?r = "\<lparr>pr_id = 0, pr_cutoff = 5400000, pr_batch = 0, pr_rows = None\<rparr>"
  have s1: "pg_runs ?s1 = [?r]"
    by (simp add: schedule_def runSafely_def purge_onModuleInit_def new_purge_service_def PURGE_GRACE_MS_def)
  have ids: "batch_ids id 5400000 (auth_nonces demo_purge_db) = [''a'']"
    by (simp add: batch_ids_def demo_purge_db_def demo_nonce_def expired_before_def PURGE_BATCH_SIZE_def)
  have s2: "pg_runs (select_batch id ?r demo_purge_db ?s1) = [?r\<lparr>pr_rows := Some [''a'']\<rparr>]"
    using s1 ids by (simp add: select_batch_def put_run_def)
  have "purge_step id 9000000 (demo_purge_db, demo_purge) (demo_purge_db, ?s1)"
    by (rule purge_step.tick) (simp_all add: purge_onModuleInit_def)
  moreover have "purge_step id 9000000 (demo_purge_db, ?s1) (demo_purge_db, select_batch id ?r demo_purge_db ?s1)"
    by (rule purge_step.select) (simp_all add: s1)
  moreover have "purge_step id 9000000 (demo_purge_db, select_batch id ?r demo_purge_db ?s1)
      (delete_batch id (?r\<lparr>pr_rows := Some [''a'']\<rparr>) [''a''] demo_purge_db (select_batch id ?r demo_purge_db ?s1))"
    by (rule purge_step.delete) (simp_all add: s2)
  moreover have "fst (delete_batch id (?r\<lparr>pr_rows := Some [''a'']\<rparr>) [''a''] demo_purge_db s)
      = demo_purge_db\<lparr>auth_nonces := [demo_nonce ''b'' 9000000]\<rparr>" for s
    by (simp add: delete_batch_def demo_purge_db_def delete_ids_def text_eq_def demo_nonce_def)
  ultimately have "(purge_step id 9000000)\<^sup>*\<^sup>* (demo_purge_db, demo_purge)
      (demo_purge_db\<lparr>auth_nonces := [demo_nonce ''b'' 9000000]\<rparr>,
       snd (delete_batch id (?r\<lparr>pr_rows := Some [''a'']\<rparr>) [''a''] demo_purge_db (select_batch id ?r demo_purge_db ?s1)))"
    by (simp add: delete_batch_def rtranclp.rtrancl_into_rtrancl r_into_rtranclp)
  then show ?thesis by blast
qed

theorem purge_spares_live_witness:
  "\<exists>d' s'. (purge_step id 9000000)\<^sup>*\<^sup>* (demo_purge_db, demo_purge) (d', s')
     \<and> length (auth_nonces d') = 1 \<and> (\<exists>n' \<in> set (auth_nonces d'). an_id n' = ''b'')"
proof -
  obtain s' where st: "(purge_step id 9000000)\<^sup>*\<^sup>* (demo_purge_db, demo_purge)
     (demo_purge_db\<lparr>auth_nonces := [demo_nonce ''b'' 9000000]\<rparr>, s')" using demo_purge_steps by blast
  have "nonces_uniq id demo_purge_db"
    by (simp add: uniq_def no_clash_def auth_nonce_ixs_def clash_def row_key_def demo_purge_db_def demo_nonce_def)
  then have "\<exists>n' \<in> set (auth_nonces (demo_purge_db\<lparr>auth_nonces := [demo_nonce ''b'' 9000000]\<rparr>)).
      n' = (demo_nonce ''b'' 9000000)\<lparr>usedAt := usedAt n'\<rparr>
      \<and> (usedAt (demo_nonce ''b'' 9000000) \<noteq> None \<longrightarrow> usedAt n' = usedAt (demo_nonce ''b'' 9000000))"
    by (rule purge_spares_live [OF _ refl st]) (simp_all add: demo_purge_db_def demo_nonce_def)
  then have "\<exists>n' \<in> set (auth_nonces (demo_purge_db\<lparr>auth_nonces := [demo_nonce ''b'' 9000000]\<rparr>)). an_id n' = ''b''"
    by (auto simp: demo_nonce_def)
  with st show ?thesis by (intro exI [of _ "demo_purge_db\<lparr>auth_nonces := [demo_nonce ''b'' 9000000]\<rparr>"] exI [of _ s']) simp
qed

theorem shutdown_awaits_run_witness:
  "\<exists>s'. (purge_step id 0)\<^sup>*\<^sup>* (demo_purge_db, demo_purge) (demo_purge_db, s') \<and> pg_runs s' \<noteq> []
     \<and> awaited (purge_onModuleDestroy (schedule 0 s')) \<and> pg_runs (purge_onModuleDestroy (schedule 0 s')) \<noteq> []"
proof -
  have "purge_step id 0 (demo_purge_db, demo_purge) (demo_purge_db, schedule 0 demo_purge)"
    by (rule purge_step.tick) (simp_all add: purge_onModuleInit_def)
  then have st: "(purge_step id 0)\<^sup>*\<^sup>* (demo_purge_db, demo_purge) (demo_purge_db, schedule 0 demo_purge)"
    by (rule r_into_rtranclp)
  have runs: "pg_runs (schedule 0 demo_purge) \<noteq> []"
    by (simp add: schedule_def runSafely_def purge_onModuleInit_def new_purge_service_def)
  with shutdown_awaits_run [OF refl st] st show ?thesis by blast
qed

end
