(* ===== verification/Rate_Limit.thy ===== *)
theory Rate_Limit
  imports Usernames Js_Number
begin

text \<open>
  Rate limiting, \<open>src/rate-limit/\<close>: the limits, the configuration that is read from the
  environment, the proxy setting, and the key that the payment callback is counted under. The
  counters themselves are the throttler package's.
\<close>

section \<open>Limits\<close>

record route_limit =
  rl_limit :: int
  rl_ttl :: int

definition ROUTE_WINDOW_MS :: int where "ROUTE_WINDOW_MS = 60000"

datatype limited_route = AuthChallenge | AuthCallback | LnurlCallback | UsernameChange

definition ROUTE_LIMITS :: "limited_route \<Rightarrow> route_limit" where
  "ROUTE_LIMITS r = \<lparr>rl_limit = (case r of AuthChallenge \<Rightarrow> 30 | AuthCallback \<Rightarrow> 30 | LnurlCallback \<Rightarrow> 30 | UsernameChange \<Rightarrow> 10),
     rl_ttl = ROUTE_WINDOW_MS\<rparr>"

definition DEFAULT_RATE_LIMIT_WINDOW_MS :: int where "DEFAULT_RATE_LIMIT_WINDOW_MS = 60000"
definition DEFAULT_RATE_LIMIT_MAX :: int where "DEFAULT_RATE_LIMIT_MAX = 600"
definition ROUTE_THROTTLER_UNLIMITED :: int where "ROUTE_THROTTLER_UNLIMITED = 2 ^ 53 - 1"
definition DEFAULT_TRUST_PROXY :: js_string where "DEFAULT_TRUST_PROXY = ''loopback''"

text \<open>\<open>Number(raw)\<close> when it is a positive safe integer, otherwise the fallback.\<close>

definition positiveInt :: "js_string option \<Rightarrow> int \<Rightarrow> int" where
  "positiveInt raw fallback =
     (case raw of
        None \<Rightarrow> fallback
      | Some s \<Rightarrow>
          if s = [] then fallback
          else (case js_ToNumber s of
                  Finite x \<Rightarrow> if isSafeInteger (Finite x) \<and> 0 < x then \<lfloor>x\<rfloor> else fallback
                | _ \<Rightarrow> fallback))"

record throttler_config =
  tc_enabled :: bool
  tc_default :: route_limit
  tc_route :: route_limit

definition throttler_options :: "js_string option \<Rightarrow> js_string option \<Rightarrow> js_string option \<Rightarrow> throttler_config" where
  "throttler_options enabled window_ms max_requests =
     \<lparr>tc_enabled = (enabled \<noteq> Some ''false''),
      tc_default = \<lparr>rl_limit = positiveInt max_requests DEFAULT_RATE_LIMIT_MAX,
                    rl_ttl = positiveInt window_ms DEFAULT_RATE_LIMIT_WINDOW_MS\<rparr>,
      tc_route = \<lparr>rl_limit = ROUTE_THROTTLER_UNLIMITED, rl_ttl = DEFAULT_RATE_LIMIT_WINDOW_MS\<rparr>\<rparr>"

text \<open>The \<open>Retry-After\<close> header of a refusal.\<close>

definition retry_after :: "int \<Rightarrow> js_string" where
  "retry_after timeToBlockExpire = int_str (max 1 timeToBlockExpire)"

text \<open>The refusal in the shape that LNURL wallets read.\<close>

record throttled =
  tr_status :: int
  tr_retryAfter :: js_string
  tr_body :: "(js_string \<times> js_string) list"

definition throwThrottlingException :: "int \<Rightarrow> throttled" where
  "throwThrottlingException timeToBlockExpire =
     \<lparr>tr_status = 429, tr_retryAfter = retry_after timeToBlockExpire,
      tr_body = [(''status'', ''ERROR''), (''reason'', ''Too many requests, retry later'')]\<rparr>"

section \<open>The proxy setting\<close>

datatype trust_setting = TrustNone | TrustHops js_number | TrustText js_string

definition configureTrustProxy :: "js_string option \<Rightarrow> trust_setting" where
  "configureTrustProxy value =
     (let chosen = (case value of None \<Rightarrow> DEFAULT_TRUST_PROXY | Some s \<Rightarrow> if s = [] then DEFAULT_TRUST_PROXY else s);
          setting = (if toLowerCase (trim chosen) = ''true'' then DEFAULT_TRUST_PROXY else chosen)
      in if setting = ''false'' then TrustNone
         else if all_digits (trim setting) then TrustHops (js_ToNumber (trim setting))
         else TrustText setting)"

section \<open>The key of the payment callback\<close>

definition MAX_NAME_IN_KEY :: nat where "MAX_NAME_IN_KEY = 32"

text \<open>The address normalisation is the throttler package's.\<close>

definition payerAndNameTracker :: "(js_string \<Rightarrow> js_string) \<Rightarrow> js_string option \<Rightarrow> js_string option \<Rightarrow> js_string" where
  "payerAndNameTracker normalizeIp ip username =
     (let client = normalizeIp (case ip of None \<Rightarrow> [] | Some s \<Rightarrow> s);
          raw = (case username of None \<Rightarrow> [] | Some s \<Rightarrow> s);
          name = (case normalizeUsername raw of Some n \<Rightarrow> n | None \<Rightarrow> toLowerCase (trim raw))
      in client @ '':'' @ take MAX_NAME_IN_KEY name)"

section \<open>Properties\<close>

lemma throttler_options_positive:
  "0 < rl_limit (tc_default (throttler_options e w m)) \<and> 0 < rl_ttl (tc_default (throttler_options e w m))"
proof -
  have "0 < positiveInt raw fallback" if "0 < fallback" for raw fallback
  proof -
    have "0 < \<lfloor>x\<rfloor>" if "x \<in> \<int>" "0 < x" for x :: rat
      using that by (auto elim: Ints_cases)
    with that show ?thesis
      by (auto simp: positiveInt_def isSafeInteger_def split: option.splits js_number.splits)
  qed
  then show ?thesis
    by (simp add: throttler_options_def DEFAULT_RATE_LIMIT_MAX_def DEFAULT_RATE_LIMIT_WINDOW_MS_def)
qed

text \<open>No spelling of the setting makes the server trust every hop.\<close>

lemma trust_proxy_never_all: "configureTrustProxy value = TrustText s \<Longrightarrow> toLowerCase (trim s) \<noteq> ''true''"
proof -
  have "toLowerCase (trim DEFAULT_TRUST_PROXY) \<noteq> ''true''" by code_simp
  then show "configureTrustProxy value = TrustText s \<Longrightarrow> toLowerCase (trim s) \<noteq> ''true''"
    by (auto simp: configureTrustProxy_def Let_def split: if_splits)
qed

lemma normalized_name:
  assumes "normalizeUsername raw = Some u"
  shows "length u \<le> 30" "CHR '':'' \<notin> set u"
  using assms
  by (auto simp: normalizeUsername_def USERNAME_SHAPE_def Let_def list_all_iff name_char_def is_lower_def
      is_digit_def code_in_def split: if_splits)

text \<open>The name behind the last colon determines the key's two parts.\<close>

lemma last_colon_split:
  assumes "a @ '':'' @ u = b @ '':'' @ v" and "CHR '':'' \<notin> set u" "CHR '':'' \<notin> set v"
  shows "a = b \<and> u = v"
proof -
  have "rev u @ CHR '':'' # rev a = rev v @ CHR '':'' # rev b"
    using arg_cong [where f = rev, OF assms(1)] by simp
  then have "takeWhile (\<lambda>c. c \<noteq> CHR '':'') (rev u @ CHR '':'' # rev a) = takeWhile (\<lambda>c. c \<noteq> CHR '':'') (rev v @ CHR '':'' # rev b)"
    by simp
  moreover have "takeWhile (\<lambda>c. c \<noteq> CHR '':'') (rev w @ CHR '':'' # s) = rev w" if "CHR '':'' \<notin> set w" for w s
    using that by (subst takeWhile_append2) auto
  ultimately have "u = v" using assms(2,3) by (metis rev_rev_ident)
  with assms(1) show ?thesis by simp
qed

text \<open>
  One bucket per payer and payee. Two payment requests that name a user validly are counted
  together exactly when they come from the same client address, after the package's
  normalisation, and reach the same name, however it is spelled. So a spelling neither opens a
  fresh budget, nor charges another user's payments.
\<close>

theorem tracker_bucket_exact:
  assumes "normalizeUsername raw = Some u" and "normalizeUsername raw2 = Some u2"
  shows "payerAndNameTracker normalizeIp (Some ip) (Some raw) = payerAndNameTracker normalizeIp (Some ip2) (Some raw2)
    \<longleftrightarrow> normalizeIp ip = normalizeIp ip2 \<and> u = u2"
  using normalized_name [OF assms(1)] normalized_name [OF assms(2)] last_colon_split [of "normalizeIp ip" u "normalizeIp ip2" u2]
  by (auto simp: payerAndNameTracker_def assms MAX_NAME_IN_KEY_def)

theorem tracker_bucket_exact_witness:
  "payerAndNameTracker id (Some ''1.2.3.4'') (Some ''X'') = payerAndNameTracker id (Some ''1.2.3.4'') (Some '' x'')"
proof -
  have "normalizeUsername ''X'' = Some ''x''" "normalizeUsername '' x'' = Some ''x''" by code_simp+
  with tracker_bucket_exact [of "''X''" "''x''" "'' x''" "''x''" id] show ?thesis by simp
qed

end
