(* ===== verification/Bootstrap.thy ===== *)
theory Bootstrap
  imports Rate_Limit Db
begin

text \<open>
  The start of the process and the parts of the wiring that compute something: \<open>src/main.ts\<close>,
  \<open>src/config/config.module.ts\<close>, \<open>src/app.controller.ts\<close> and \<open>src/auth/auth-user.decorator.ts\<close>.
  Dependency injection, the HTTP server and the database connection are the framework's.
\<close>

section \<open>The application\<close>

text \<open>What \<open>bootstrap\<close> asks of the framework: raw bodies, the proxy setting, the port, and the lines it logs.\<close>

record application =
  app_rawBody :: bool
  app_trustProxy :: trust_setting
  app_port :: js_string
  app_log :: "js_string list"

definition template :: "js_string option \<Rightarrow> js_string" where
  "template v = nullish v ''undefined''"

definition bootstrap ::
  "js_string option \<Rightarrow> js_string option \<Rightarrow> js_string option \<Rightarrow> js_string option \<Rightarrow> (js_string \<Rightarrow> js_string) \<Rightarrow> application" where
  "bootstrap trust_proxy port_env node_env publicBaseUrl getUrl =
     (let port = (if truthy port_env then nullish port_env [] else ''3003'') in
      \<lparr>app_rawBody = True, app_trustProxy = configureTrustProxy trust_proxy, app_port = port,
       app_log = [''Application is running on: '' @ getUrl port, ''Environment: '' @ template node_env,
                  ''Port: '' @ port, ''Public Base URL: '' @ template publicBaseUrl]\<rparr>)"

text \<open>
  The environment of the process comes first, then the files, the first one that defines a name winning.
\<close>

definition envFilePath :: "js_string option \<Rightarrow> js_string list" where
  "envFilePath node_env =
     (if node_env = Some ''test'' then [''.env.test''] else []) @ [''.env.local'', ''.env'']"

definition config_get ::
  "(js_string \<Rightarrow> js_string option) \<Rightarrow> (js_string \<Rightarrow> js_string \<Rightarrow> js_string option) \<Rightarrow> js_string \<Rightarrow> js_string option" where
  "config_get process file name =
     (case process name of
        Some v \<Rightarrow> Some v
      | None \<Rightarrow>
          (case find (\<lambda>f. file f name \<noteq> None) (envFilePath (process ''NODE_ENV'')) of
             None \<Rightarrow> None
           | Some f \<Rightarrow> file f name))"

lemma test_settings_first:
  "process name = None \<Longrightarrow> process ''NODE_ENV'' = Some ''test'' \<Longrightarrow> file ''.env.test'' name = Some v
   \<Longrightarrow> config_get process file name = Some v"
  "process name = None \<Longrightarrow> process ''NODE_ENV'' \<noteq> Some ''test'' \<Longrightarrow> file ''.env.local'' name = None
   \<Longrightarrow> config_get process file name = file ''.env'' name"
  by (auto simp: config_get_def envFilePath_def)

section \<open>Handlers\<close>

definition getHealth :: "(time_ms \<Rightarrow> js_string) \<Rightarrow> time_ms \<Rightarrow> (js_string \<times> js_string) list" where
  "getHealth toISO now = [(''status'', ''ok''), (''timestamp'', toISO now)]"

text \<open>The user that the guard put on the request; without one the decorator throws.\<close>

definition AuthUser :: "User option \<Rightarrow> js_string + User" where
  "AuthUser user =
     (case user of
        None \<Rightarrow> Inl ''@AuthUser() used on a handler not protected by SparkSignatureGuard''
      | Some u \<Rightarrow> Inr u)"

text \<open>No setting of the environment makes the process trust every proxy.\<close>

lemma bootstrap_trust:
  "app_trustProxy (bootstrap tp p n b g) = TrustText s \<Longrightarrow> toLowerCase (trim s) \<noteq> ''true''"
  by (simp add: bootstrap_def Let_def trust_proxy_never_all)

end
