(* ===== verification/Server.thy ===== *)
theory Server
  imports Store_Ops Query Nonce_Purge Bootstrap
begin

text \<open>
  The service as a whole: the routes of the controllers under \<open>src/\<close> that \<open>src/app.module.ts\<close>
  joins, each with its guard and its limits, over one store and one replay cache; and the
  background writers. A request is the route that the framework chose with the parts of the
  request that the handler reads.
\<close>

section \<open>Configuration and requests\<close>

text \<open>
  What a request runs with: the settings, the libraries, the clocks, and the values that the
  runtime generates for it. All parts work on one database, so they share the collation of
  the swap environment.
\<close>

record server_env =
  sv_lnurl :: lnurl_env
  sv_contains :: "js_string \<Rightarrow> js_string \<Rightarrow> bool"
  sv_extraReserved :: "js_string option"
  sv_maxSkew :: "js_string option"
  sv_opsToken :: "js_string option"
  sv_webhookSkew :: "js_string option"
  sv_apiKey :: "js_string option"
  sv_flashnet :: flashnet_config
  sv_crypto :: crypto_lib
  sv_test :: bool
  sv_parse :: "buffer \<Rightarrow> parsed_body"
  sv_commit_now :: time_ms
  sv_cache_now :: time_ms
  sv_abort :: "db_error option"
  sv_nonce_id :: js_string
  sv_random :: buffer
  sv_ids :: "js_string \<times> js_string"

abbreviation sv_swap :: "server_env \<Rightarrow> swap_env" where
  "sv_swap E \<equiv> le_swap (sv_lnurl E)"

abbreviation sv_ck :: "server_env \<Rightarrow> collation" where
  "sv_ck E \<equiv> le_ck (sv_lnurl E)"

abbreviation sv_now :: "server_env \<Rightarrow> time_ms" where
  "sv_now E \<equiv> env_now (sv_swap E)"

definition sv_guard :: "server_env \<Rightarrow> guard_lib" where
  "sv_guard E = \<lparr>gl_sha256 = le_sha256 (sv_lnurl E), gl_secp = le_secp (sv_lnurl E)\<rparr>"

definition sv_user :: "server_env \<Rightarrow> user_env" where
  "sv_user E = \<lparr>ue_ck = sv_ck E, ue_base = le_base (sv_lnurl E), ue_extraReserved = sv_extraReserved E,
     ue_name_id = snd (sv_ids E), ue_now = sv_now E\<rparr>"

definition sv_query :: "server_env \<Rightarrow> query_env" where
  "sv_query E = \<lparr>qe_ck = sv_ck E, qe_contains = sv_contains E, qe_base = le_base (sv_lnurl E),
     qe_sparkNetwork = le_sparkNetwork (sv_lnurl E), qe_secp = le_secp (sv_lnurl E), qe_b32m = le_b32m (sv_lnurl E)\<rparr>"

datatype http_request =
    GetChallenge
  | GetAuthCallback "js_string option" "js_string option" "js_string option" "js_string option"
  | GetPayMetadata js_string
  | GetPayCallback js_string "js_string option"
  | GetUsernameByKey js_string
  | GetKeysByUsername js_string
  | Signed guard_request user_request
  | Operations "js_string option" ops_request
  | PostWebhook webhook_request
  | GetHealth

datatype http_answer =
    ChallengeAnswer "auth_error + js_string \<times> js_string"
  | AuthAnswer "auth_error + unit"
  | MetadataAnswer "lnurl_exception + LnurlPayMetadata"
  | PayAnswer "lnurl_exception + callback_answer"
  | UsernameAnswer "query_error + QueryResponse"
  | KeysAnswer "query_error + QueryResponse list"
  | UserAnswer user_answer
  | OpsAnswer ops_answer
  | WebhookAnswer webhook_response
  | HealthAnswer

text \<open>The method of a signed route, which the framework matched.\<close>

fun signed_method :: "user_request \<Rightarrow> js_string" where
  "signed_method (UsernameRequest GetUsername) = ''GET''"
| "signed_method (UsernameRequest (PatchUsername _)) = ''PATCH''"
| "signed_method (CurrencyRequest GetCurrency) = ''GET''"
| "signed_method (CurrencyRequest (PatchCurrency _)) = ''PATCH''"

section \<open>Limits of the routes\<close>

text \<open>
  The \<open>@Throttle\<close> and \<open>@SkipThrottle\<close> decorations: the limit under which a route is counted, or
  none for the health check, and the key of its bucket in the per-route throttler.
\<close>

datatype throttle = NotCounted | Counted route_limit

fun route_throttle :: "http_request \<Rightarrow> throttler_config \<Rightarrow> throttle" where
  "route_throttle GetHealth c = NotCounted"
| "route_throttle GetChallenge c = Counted (ROUTE_LIMITS AuthChallenge)"
| "route_throttle (GetAuthCallback k1 sig key u) c = Counted (ROUTE_LIMITS AuthCallback)"
| "route_throttle (GetPayCallback n a) c = Counted (ROUTE_LIMITS LnurlCallback)"
| "route_throttle (Signed g (UsernameRequest (PatchUsername u))) c = Counted (ROUTE_LIMITS UsernameChange)"
| "route_throttle _ c = Counted (tc_route c)"

fun default_throttle :: "http_request \<Rightarrow> throttler_config \<Rightarrow> throttle" where
  "default_throttle GetHealth c = NotCounted"
| "default_throttle _ c = Counted (tc_default c)"

text \<open>\<open>generateKey\<close> of the default throttler: one bucket for each client over all routes.\<close>

definition default_bucket :: "js_string \<Rightarrow> js_string \<Rightarrow> js_string" where
  "default_bucket tracker name = name @ ''-'' @ tracker"

section \<open>One request\<close>

definition auth_callback ::
  "server_env \<Rightarrow> js_string option \<Rightarrow> js_string option \<Rightarrow> js_string option \<Rightarrow> js_string option \<Rightarrow> db \<Rightarrow> auth_error + db" where
  "auth_callback E k1 sig key username d =
     handleAuthCallback (\<lambda>k s p u. verifyAndBindUsername (sv_ck E) (le_secp (sv_lnurl E)) (sv_extraReserved E) (sv_abort E)
         (sv_now E) (sv_commit_now E) (sv_ids E) k s p u d) k1 sig key username"

text \<open>A handler that throws leaves the store as it was.\<close>

definition answer_with :: "('e + 'a \<Rightarrow> http_answer) \<Rightarrow> db \<Rightarrow> 'e + 'a \<times> db \<Rightarrow> http_answer \<times> db" where
  "answer_with f d r = (case r of Inl e \<Rightarrow> (f (Inl e), d) | Inr (x, d') \<Rightarrow> (f (Inr x), d'))"

definition serve :: "server_env \<Rightarrow> http_request \<Rightarrow> db \<times> cache \<Rightarrow> http_answer \<times> db \<times> cache" where
  "serve E req st =
     (case st of (d, seen) \<Rightarrow>
      let keep = (\<lambda>a. (a, d, seen)); put = (\<lambda>(a, d'). (a, d', seen)) in
      case req of
        GetChallenge \<Rightarrow>
          put (answer_with ChallengeAnswer d
            (generateAuthChallenge (sv_ck E) (bu_publicBaseUrl (le_base (sv_lnurl E))) (sv_nonce_id E) (sv_random E) (sv_now E) d))
      | GetAuthCallback k1 sig key username \<Rightarrow>
          put (answer_with AuthAnswer d (map_sum id (Pair ()) (auth_callback E k1 sig key username d)))
      | GetPayMetadata name \<Rightarrow> keep (MetadataAnswer (getLnurlPayMetadata (sv_lnurl E) name d))
      | GetPayCallback name amount \<Rightarrow> put (answer_with PayAnswer d (handleLnurlCallback (sv_lnurl E) name amount d))
      | GetUsernameByKey key \<Rightarrow> keep (UsernameAnswer (query_username_endpoint (sv_query E) key d))
      | GetKeysByUsername name \<Rightarrow> keep (KeysAnswer (queryByUsername (sv_query E) name d))
      | Signed g body \<Rightarrow>
          (case user_endpoint (sv_guard E) (read_max_skew (sv_maxSkew E)) (sv_now E) (sv_cache_now E)
                  (g\<lparr>gr_method := signed_method body\<rparr>) (sv_user E) body (d, seen) of
             (a, d', seen') \<Rightarrow> (UserAnswer a, d', seen'))
      | Operations authorization r \<Rightarrow>
          (case ops_endpoint (sv_opsToken E) authorization (sv_ck E) (le_base (sv_lnurl E)) (sv_now E) r d of
             (a, d') \<Rightarrow> (OpsAnswer a, d', seen))
      | PostWebhook w \<Rightarrow>
          (case handleWebhook (verify_with (provide_flashnet (sv_apiKey E) (sv_test E)) (sv_crypto E) (sv_flashnet E) (sv_test E))
                  (sv_parse E) (readMaxSkewMs (sv_webhookSkew E)) (sv_swap E) w d of
             (a, d') \<Rightarrow> (WebhookAnswer a, d', seen))
      | GetHealth \<Rightarrow> keep HealthAnswer)"

section \<open>Requests keep the contract\<close>

lemma auth_callback_Inr:
  assumes "auth_callback E k1 sig key username d = Inr d'"
  obtains k s p u name where "k1 = Some k" "sig = Some s" "key = Some p" "username = Some u"
    "bind_checks (sv_ck E) (le_secp (sv_lnurl E)) (sv_extraReserved E) (sv_now E) k s p u d = Inr name"
    "bind_commit (sv_ck E) (sv_abort E) (sv_commit_now E) (sv_ids E) k p name d = Inr d'"
  using assms
  by (cases k1; cases sig; cases key; cases username)
     (auto simp: auth_callback_def handleAuthCallback_def verifyAndBindUsername_def bind_result_Inr_iff split: if_splits)

lemma user_endpoint_evolves:
  assumes ok: "store_ok (ue_ck E) d" and u: "user_endpoint L skew now now' req E body (d, seen) = (a, d', seen')"
  shows "store_evolves (ue_ck E) d d'"
  using u change_evolves [OF ok] preference_evolves [OF ok] store_evolves_refl [OF ok]
  by (fastforce simp: user_endpoint_def username_controller_def currency_controller_def
      split: prod.splits sum.splits user_request.splits username_request.splits currency_request.splits if_splits option.splits)

lemma ops_endpoint_evolves:
  assumes ok: "store_ok ck d" and u: "ops_endpoint configured authorization ck B now req d = (a, d')"
  shows "store_evolves ck d d'"
  using u grant_evolves [OF ok] markPaid_evolves [OF ok] markAbandoned_evolves [OF ok] store_evolves_refl [OF ok]
  by (fastforce simp: ops_endpoint_def refund_case_controller_def username_ops_controller_def case_answer_def
      split: prod.splits sum.splits ops_request.splits refund_request.splits username_ops_request.splits if_splits)

definition fresh_for :: "server_env \<Rightarrow> http_request \<Rightarrow> db \<Rightarrow> bool" where
  "fresh_for E req d \<longleftrightarrow> (case req of PostWebhook _ \<Rightarrow> fresh_case_id (sv_ck E) (env_case_id (sv_swap E)) d | _ \<Rightarrow> True)"

lemma serve_evolves:
  assumes ok: "store_ok (sv_ck E) d" and fresh: "fresh_for E req d" and s: "serve E req (d, seen) = (a, d', seen')"
  shows "store_evolves (sv_ck E) d d'"
proof (cases req)
  case GetChallenge
  with s ok show ?thesis
    by (auto simp: serve_def answer_with_def split: sum.splits intro: challenge_evolves store_evolves_refl)
next
  case (GetAuthCallback k1 sig key username)
  with s ok show ?thesis
    by (cases "auth_callback E k1 sig key username d")
       (auto simp: serve_def answer_with_def intro: registration_evolves store_evolves_refl elim!: auth_callback_Inr)
next
  case (GetPayCallback name amount)
  with s ok show ?thesis
    by (auto simp: serve_def answer_with_def split: sum.splits intro: payment_evolves store_evolves_refl)
next
  case (Signed g body)
  with s ok user_endpoint_evolves [of "sv_user E"] show ?thesis
    by (auto simp: serve_def sv_user_def split: prod.splits)
next
  case (Operations authorization r)
  with s ok show ?thesis by (auto simp: serve_def split: prod.splits intro: ops_endpoint_evolves)
next
  case (PostWebhook w)
  with s ok fresh show ?thesis
    by (auto simp: serve_def fresh_for_def split: prod.splits intro: handleWebhook_evolves)
qed (use s ok in \<open>auto simp: serve_def store_evolves_refl\<close>)

interpretation request: store_op "sv_ck E" "fresh_for E req" "\<lambda>d. fst (snd (serve E req (d, seen)))" for E req seen
  by unfold_locales (metis prod.collapse serve_evolves)

section \<open>The history of the service\<close>

text \<open>
  A state is the store, the replay cache and the username changes that have read their account
  and not yet committed. Requests are served, the purge and the reconciler write in the
  background, and, since a request is suspended between its statements, a registration may
  commit on checks made at any earlier time and a username change on any earlier reading.
\<close>

type_synonym server_state = "db \<times> cache \<times> change_plan list"

inductive server_step :: "collation \<Rightarrow> server_state \<Rightarrow> server_state \<Rightarrow> bool" for ck where
  request: "sv_ck E = ck \<Longrightarrow> fresh_for E req d \<Longrightarrow> serve E req (d, seen) = (a, d', seen')
    \<Longrightarrow> server_step ck (d, seen, ps) (d', seen', ps)"
| register: "bind_commit ck abort now ids k1 key username d = Inr d' \<Longrightarrow> server_step ck (d, seen, ps) (d', seen, ps)"
| load: "change_load ck extra userId raw d = Inr p \<Longrightarrow> server_step ck (d, seen, ps) (d, seen, p # ps)"
| commit: "p \<in> set ps \<Longrightarrow> change_commit ck nid now p d = Inr d' \<Longrightarrow> server_step ck (d, seen, ps) (d', seen, ps)"
| purge: "purgeExpired ck scan now d = (n, d') \<Longrightarrow> server_step ck (d, seen, ps) (d', seen, ps)"
| reconcile: "env_ck (fst x) = ck \<Longrightarrow> fresh_case_id ck (env_case_id (fst x)) d
    \<Longrightarrow> server_step ck (d, seen, ps) (deliver x d, seen, ps)"

definition plans_ok :: "collation \<Rightarrow> server_state \<Rightarrow> bool" where
  "plans_ok ck s \<longleftrightarrow> (case s of (d, seen, ps) \<Rightarrow> list_all (plan_ok ck (lightning_names d)) ps)"

lemma change_commit_evolves:
  assumes "store_ok ck d" and "plan_ok ck (lightning_names d) p" and "change_commit ck nid now p d = Inr d'"
  shows "store_evolves ck d d'"
proof -
  note k = store_okD [OF assms(1)] and f = db_names_frame [OF change_commit_fields [OF assms(3)]]
  from change_commit_ok [OF k(1) assms(2,3)] k f show ?thesis
    by (intro evolve_accounts [OF assms(1)]) auto
qed

lemma plans_kept: "store_moves R ck d d' \<Longrightarrow> plans_ok ck (d, seen, ps) \<Longrightarrow> plans_ok ck (d', seen', ps)"
  by (auto simp: plans_ok_def store_moves_def list_all_iff intro: plan_persists)

lemma server_step_evolves:
  assumes "server_step ck s s'" and "store_ok ck (fst s)" and "plans_ok ck s"
  shows "store_evolves ck (fst s) (fst s') \<and> plans_ok ck s'"
  using assms
proof (induction rule: server_step.induct)
  case (request E req d seen a d' seen' ps)
  then have "store_evolves ck d d'" using serve_evolves [of E d req seen a d' seen'] by simp
  with request(5) show ?case by (auto intro: plans_kept)
next
  case (register abort now ids k1 key username d d' seen ps)
  then have "store_evolves ck d d'" by (auto intro: registration_evolves)
  with register(3) show ?case by (auto intro: plans_kept)
next
  case (load extra userId raw d p seen ps)
  then show ?case by (auto simp: plans_ok_def store_evolves_refl change_load_plan_ok)
next
  case (commit p ps nid now d d' seen)
  then have "store_evolves ck d d'"
    by (intro change_commit_evolves) (auto simp: plans_ok_def list_all_iff)
  with commit(4) show ?case by (auto intro: plans_kept)
next
  case (purge scan now d n d' seen ps)
  then have "store_evolves ck d d'" by (auto intro: purge_evolves)
  with purge(3) show ?case by (auto intro: plans_kept)
next
  case (reconcile x d seen ps)
  then have "store_evolves ck d (deliver x d)" using delivery.op_evolves [of x d] by simp
  with reconcile(4) show ?case by (auto intro: plans_kept)
qed

lemma server_steps_evolve:
  assumes "(server_step ck)\<^sup>*\<^sup>* s s'" and "store_ok ck (fst s)" and "plans_ok ck s"
  shows "store_evolves ck (fst s) (fst s') \<and> plans_ok ck s'"
  using assms
proof (induction rule: rtranclp_induct)
  case (step s' s'')
  then have "store_evolves ck (fst s') (fst s'')" "plans_ok ck s''"
    using server_step_evolves [OF step(2)] by (auto intro: store_evolves_ok)
  with step show ?case by (auto intro: store_evolves_trans)
qed (simp add: store_evolves_refl)

text \<open>
  C5. The history of the deployed service. From the empty database on, after any sequence of
  requests to any route, registrations and username changes suspended between their
  statements, purges and reconciler calls, the store satisfies its invariant: unique keys,
  references that lead somewhere, one active name for every account, orders in a status of
  the machine, a refund case for every failed payment. And from any point of the history to
  any later one the store only evolves: users, names, invoices and refund cases are never
  lost, a name keeps its owner, orders move along the order machine, a resolved case stays as
  it was resolved.
\<close>

theorem server_history:
  assumes "(server_step ck)\<^sup>*\<^sup>* (empty_db, [], []) s" and "(server_step ck)\<^sup>*\<^sup>* s s'"
  shows "store_ok ck (fst s) \<and> store_evolves ck (fst s) (fst s')"
proof -
  have "plans_ok ck (empty_db, [], [])" by (simp add: plans_ok_def)
  with server_steps_evolve [OF assms(1)] have "store_evolves ck empty_db (fst s)" "plans_ok ck s"
    by (simp_all add: store_ok_empty)
  with server_steps_evolve [OF assms(2)] show ?thesis by (auto intro: store_evolves_ok)
qed

section \<open>A short history\<close>

definition demo_server :: "js_string \<Rightarrow> byte \<Rightarrow> time_ms \<Rightarrow> server_env" where
  "demo_server nid b now =
     \<lparr>sv_lnurl = demo_lnurl\<lparr>le_secp := demo_point, le_swap := demo_env\<lparr>env_now := now\<rparr>\<rparr>,
      sv_contains = str_includes, sv_extraReserved = None, sv_maxSkew = None, sv_opsToken = Some ''t'',
      sv_webhookSkew = None, sv_apiKey = None,
      sv_flashnet = \<lparr>fc_apiBase = [], fc_apiKey = [], fc_webhookSecret = ''s''\<rparr>, sv_crypto = demo_crypto,
      sv_test = False, sv_parse = (\<lambda>_. NotJson), sv_commit_now = now + 1, sv_cache_now = now, sv_abort = None,
      sv_nonce_id = nid, sv_random = replicate 32 b, sv_ids = (''u1'', ''l1'')\<rparr>"

abbreviation demo_challenged :: db where
  "demo_challenged \<equiv> empty_db\<lparr>auth_nonces := [new_nonce ''n1'' (demo_k1 (CHR ''a'')) 0]\<rparr>"

lemma demo_server_ck [simp]: "sv_ck (demo_server nid b now) = id"
  by (simp add: demo_server_def demo_env_def)

lemma demo_random: "bytes_to_hex (replicate 32 170) = demo_k1 (CHR ''a'')" "bytes_to_hex (replicate 32 187) = demo_k1 (CHR ''b'')"
  by code_simp+

lemma demo_register_served:
  "serve (demo_server ''n'' 0 5) (GetAuthCallback (Some (demo_k1 (CHR ''a''))) (Some ''ab'') (Some demo_key_c) (Some ''x''))
     (demo_auth_db, []) = (AuthAnswer (Inr ()), demo_registered, [])"
proof -
  have "auth_callback (demo_server ''n'' 0 5) (Some (demo_k1 (CHR ''a''))) (Some ''ab'') (Some demo_key_c) (Some ''x'') demo_auth_db
      = Inr demo_registered"
    using demo_checks demo_commit
    by (simp add: auth_callback_def handleAuthCallback_def verifyAndBindUsername_def demo_server_def demo_env_def
        demo_k1_def demo_key_c_def)
  then show ?thesis by (simp add: serve_def answer_with_def)
qed

lemma demo_history: "(server_step id)\<^sup>*\<^sup>* (empty_db, [], []) (demo_auth_db, [], [])"
proof -
  have s1: "serve (demo_server ''n1'' 170 0) GetChallenge (empty_db, [])
      = (ChallengeAnswer (Inr (demo_k1 (CHR ''a''), ''https://h/v1/auth/lnurl/callback'')), demo_challenged, [])"
    by (simp add: serve_def answer_with_def generateAuthChallenge_def Let_def demo_server_def demo_random demo_lnurl_def
        demo_env_def tbl_create_def violated_def empty_db_def auth_nonce_ixs_def)
  have "server_step id (empty_db, [], []) (demo_challenged, [], [])"
    by (rule server_step.request [OF demo_server_ck _ s1]) (simp add: fresh_for_def)
  moreover
  have s2: "serve (demo_server ''n2'' 187 0) GetChallenge (demo_challenged, [])
      = (ChallengeAnswer (Inr (demo_k1 (CHR ''b''), ''https://h/v1/auth/lnurl/callback'')), demo_auth_db, [])"
  proof -
    have "demo_k1 (CHR ''b'') \<noteq> demo_k1 (CHR ''a'')" by (simp add: demo_k1_def)
    then show ?thesis
      by (simp add: serve_def answer_with_def generateAuthChallenge_def Let_def demo_server_def demo_random demo_lnurl_def
          demo_env_def tbl_create_def violated_def empty_db_def auth_nonce_ixs_def demo_auth_db_def new_nonce_def
          clash_def row_key_def)
  qed
  have "server_step id (demo_challenged, [], []) (demo_auth_db, [], [])"
    by (rule server_step.request [OF demo_server_ck _ s2]) (simp add: fresh_for_def)
  ultimately show ?thesis by simp
qed

theorem server_history_witness: "store_ok id demo_auth_db \<and> store_evolves id demo_auth_db demo_registered"
proof -
  have "server_step id (demo_auth_db, [], []) (demo_registered, [], [])"
    by (rule server_step.request [OF demo_server_ck _ demo_register_served]) (simp add: fresh_for_def)
  then have "(server_step id)\<^sup>*\<^sup>* (demo_auth_db, [], []) (demo_registered, [], [])" by (rule r_into_rtranclp)
  from server_history [OF demo_history this] show ?thesis by simp
qed

lemma demo_auth_store_ok: "store_ok id demo_auth_db"
  using server_steps_evolve [OF demo_history] by (auto simp: store_ok_empty plans_ok_def intro: store_evolves_ok)

end
