(* ===== verification/Access.thy ===== *)
theory Access
  imports Server
begin

text \<open>
  Who may write what: for every route of \<open>Server\<close>, the proof of authority that a request which
  changed the store has shown, and the part of the store that it changed.
\<close>

section \<open>A user writes to the own account only\<close>

definition others_kept :: "collation \<Rightarrow> User \<Rightarrow> db \<Rightarrow> db \<Rightarrow> bool" where
  "others_kept ck user d d' \<longleftrightarrow>
     (\<forall>r. \<not> text_eq ck (ln_userId r) (user_id user) \<longrightarrow> (r \<in> set (lightning_names d') \<longleftrightarrow> r \<in> set (lightning_names d)))
     \<and> (\<forall>u. \<not> text_eq ck (user_id u) (user_id user) \<longrightarrow> (u \<in> set (users d') \<longleftrightarrow> u \<in> set (users d)))"

lemma change_others:
  assumes ok: "accounts_ok ck d" and ch: "changeUsername ck B extra nid now userId raw d = (a, d')"
    and r: "\<not> text_eq ck (ln_userId r) userId"
  shows "r \<in> set (lightning_names d') \<longleftrightarrow> r \<in> set (lightning_names d)"
  using ch
proof (cases rule: changeUsername_cases)
  case (committed p)
  have user: "cp_userId p = userId" using change_load_Inr(2) [OF committed(1)] .
  from ok change_load_plan_ok [OF committed(1)] committed(3) show ?thesis
  proof (cases rule: commit_shape)
    case (1 c xs ys)
    let ?t = "xs @ retire_name c # ys"
    have t: "r \<in> set ?t \<longleftrightarrow> r \<in> set (lightning_names d)"
      using 1(1,3) r user by (auto simp: retire_name_def)
    from 1(6) show ?thesis
    proof (elim disjE exE conjE)
      fix oo b :: LightningName and us vs :: "LightningName list"
      assume b: "?t = us @ b # vs" "text_eq ck (ln_userId b) (cp_userId p)"
        "lightning_names d' = us @ b\<lparr>ln_active := True, activePubKey := Some (linkingPubKeyHex b)\<rparr> # vs"
      have "r \<in> set (lightning_names d') \<longleftrightarrow> r \<in> set ?t"
        unfolding b(1,3) using b(2) r user by auto
      with t show ?thesis by simp
    next
      assume "lightning_names d' = ?t @ [claimed_name nid p now]"
      with t r user show ?thesis by (auto simp: claimed_name_def)
    qed
  qed
qed simp

lemma preference_others:
  assumes u: "users_uniq ck d" and p: "setPreference ck now userId currency d = Inr (x, d')"
    and o: "\<not> text_eq ck (user_id u) userId"
  shows "u \<in> set (users d') \<longleftrightarrow> u \<in> set (users d)"
proof -
  let ?f = "\<lambda>u. u\<lparr>defaultReceivingCurrency := currency, user_updatedAt := now\<rparr>"
  from p have up: "tbl_update ck user_ixs (where_key ck (\<lambda>u. Some [Text (user_id u)]) [Text userId]) ?f (users d) = Inr (users d')"
    by (auto simp: setPreference_def bind_result_Inr_iff)
  from tbl_update_split [OF u user_primary_in up] obtain xs w ys where
    s: "users d = xs @ w # ys" "users d' = xs @ ?f w # ys" "where_key ck (\<lambda>u. Some [Text (user_id u)]) [Text userId] w" by blast
  have w: "text_eq ck (user_id w) userId" using s(3) by (simp add: where_key_def row_key_def text_eq_def)
  with o show ?thesis unfolding s(1,2) by auto
qed

lemma preference_fields: "setPreference ck now userId currency d = Inr (x, d') \<Longrightarrow> d' = d\<lparr>users := users d'\<rparr>"
  by (auto simp: setPreference_def bind_result_Inr_iff)

lemma change_fields:
  assumes "changeUsername ck B extra nid now userId raw d = (a, d')"
  shows "d' = d\<lparr>lightning_names := lightning_names d'\<rparr>"
  using assms
proof (cases rule: changeUsername_cases)
  case (committed p)
  from change_commit_fields [OF committed(3)]
  have "(d'\<lparr>lightning_names := lightning_names d\<rparr>)\<lparr>lightning_names := lightning_names d'\<rparr> = d\<lparr>lightning_names := lightning_names d'\<rparr>"
    by simp
  then show ?thesis by simp
qed simp

lemma user_endpoint_authorised:
  assumes ok: "store_ok (ue_ck E) d" and u: "user_endpoint L skew now now' req E body (d, seen) = (a, d', seen')" and "d' \<noteq> d"
  shows "\<exists>user. fst (canActivate L (ue_ck E) skew now now' req d seen) = Inr user
     \<and> d' = d\<lparr>users := users d', lightning_names := lightning_names d'\<rparr> \<and> others_kept (ue_ck E) user d d'"
proof -
  from u assms(3) obtain user where g: "fst (canActivate L (ue_ck E) skew now now' req d seen) = Inr user"
    by (auto simp: user_endpoint_def split: prod.splits sum.splits)
  consider (name) B extra nid n raw x where "changeUsername (ue_ck E) B extra nid n (user_id user) raw d = (x, d')"
    | (currency) n c x where "setPreference (ue_ck E) n (user_id user) c d = Inr (x, d')"
    using u assms(3) g
    by (fastforce simp: user_endpoint_def username_controller_def currency_controller_def
        split: prod.splits sum.splits user_request.splits username_request.splits currency_request.splits if_splits option.splits)
  then show ?thesis
  proof cases
    case name
    have f: "d' = d\<lparr>lightning_names := lightning_names d'\<rparr>" by (rule change_fields [OF name])
    then have "users d' = users d" by (metis db.select_convs(1) db.surjective db.update_convs(2))
    with f g change_others [OF store_okD(1) [OF ok] name] show ?thesis by (auto simp: others_kept_def)
  next
    case currency
    have f: "d' = d\<lparr>users := users d'\<rparr>" by (rule preference_fields [OF currency])
    then have "lightning_names d' = lightning_names d" by (metis db.select_convs(2) db.surjective db.update_convs(1))
    with f g preference_others [OF store_okD(2) [OF ok] currency] show ?thesis by (auto simp: others_kept_def)
  qed
qed

section \<open>The other routes\<close>

lemma ops_fields:
  assumes "ops_endpoint configured authorization ck B now req d = (a, d')" and "d' \<noteq> d"
  shows "ops_canActivate (ops_constructor configured) authorization = Inr ()
     \<and> d' = d\<lparr>users := users d', refund_cases := refund_cases d'\<rparr>"
  using assms
  by (fastforce simp: ops_endpoint_def refund_case_controller_def username_ops_controller_def case_answer_def
      grantExtraChanges_def markPaid_def markAbandoned_def update_case_def bind_result_Inr_iff Let_def
      split: prod.splits sum.splits ops_request.splits refund_request.splits username_ops_request.splits if_splits option.splits)

lemma webhook_fields:
  assumes "applyWebhookEvent E p d = Inr d'"
  shows "d' = d\<lparr>flashnet_orders := flashnet_orders d', webhook_events := webhook_events d', refund_cases := refund_cases d'\<rparr>"
  using applyWebhookEvent_frame [OF assms] by (cases d; cases d') (simp add: swap_frame_def)

lemma pay_fields:
  assumes "handleLnurlCallback E raw amountStr d = Inr (ans, d')" and "d' \<noteq> d"
  shows "\<exists>iv os. d' = d\<lparr>invoices := invoices d @ [iv], flashnet_orders := flashnet_orders d @ os\<rparr>"
proof -
  have usdb: "\<exists>iv os. d' = d\<lparr>invoices := invoices d @ [iv], flashnet_orders := flashnet_orders d @ os\<rparr>"
    if "handleUsdbCallback E r n hash d = Inr (pr, d')" for r n hash pr
    using that assms(2)
    by (auto simp: handleUsdbCallback_def initiateLightningQuote_def bind_result_Inr_iff map_sum_Inr
        split: if_splits elim!: persist_quote_Inr)
  have sats: "\<exists>iv os. d' = d\<lparr>invoices := invoices d @ [iv], flashnet_orders := flashnet_orders d @ os\<rparr>"
    if "issueSatsBolt11 E r n hash d = Inr (pr, d')" for r n hash pr
    using that
  proof (cases rule: issueSatsBolt11_Inr)
    case (1 res)
    then show ?thesis by (intro exI [of _ "sats_invoice E (ln_id r) n res"] exI [of _ "[]"]) simp
  qed
  from assms(1) obtain n r u where p: "parse_amount amountStr = Inr n"
      "findActiveLightningNameWithUser (le_ck E) raw d = Inr (Some (r, u))" "linkingPubKeyHex r \<noteq> []"
    by (rule handleLnurlCallback_found)
  from p assms(1) show ?thesis
    by (cases rule: handleLnurlCallback_routes) (use assms(2) usdb sats in \<open>blast+\<close>)
qed

lemma registration_fields:
  assumes "bind_commit ck abort now ids k1 key username d = Inr d'"
  shows "d' = d\<lparr>users := users d', lightning_names := lightning_names d', auth_nonces := auth_nonces d'\<rparr>"
    "users d' = users d @ [new_user (fst ids) now]"
    "lightning_names d' = lightning_names d @ [new_name (snd ids) username (fst ids) key now]"
proof -
  note b = bind_commit_Inr [OF assms]
  show "d' = d\<lparr>users := users d', lightning_names := lightning_names d', auth_nonces := auth_nonces d'\<rparr>"
    by (subst b(6)) simp
  show "users d' = users d @ [new_user (fst ids) now]"
    "lightning_names d' = lightning_names d @ [new_name (snd ids) username (fst ids) key now]"
    using b(3,4) by (simp_all add: tbl_create_Inr)
qed

text \<open>
  C7. Who may write what. When a request of any route changes a store that satisfies its
  invariant: the challenge route has added one challenge; a registration has added one user
  and one name, for a key under which the challenge is signed; a payment has added an invoice
  and possibly its order; a signed request was accepted by the guard, and names and user rows
  other than those of the signing account are as before; an operations request carried the
  configured token, and only user rows and refund cases differ; a webhook was fresh and its
  signature verified, and only orders, events and refund cases differ. The other routes never
  change it.
\<close>

theorem writes_are_authorised:
  assumes ok: "store_ok (sv_ck E) d" and s: "serve E req (d, seen) = (a, d', seen')" and ne: "d' \<noteq> d"
  shows "case req of
      GetChallenge \<Rightarrow> \<exists>n. d' = d\<lparr>auth_nonces := auth_nonces d @ [n]\<rparr>
    | GetAuthCallback k1 sig key name \<Rightarrow>
        \<exists>k s p u n. k1 = Some k \<and> sig = Some s \<and> key = Some p \<and> verifySignature (le_secp (sv_lnurl E)) (HexMessage k) s p
          \<and> linkingPubKeyHex n = p \<and> ln_userId n = user_id u
          \<and> d' = d\<lparr>users := users d @ [u], lightning_names := lightning_names d @ [n], auth_nonces := auth_nonces d'\<rparr>
    | GetPayCallback name amount \<Rightarrow>
        \<exists>iv os. d' = d\<lparr>invoices := invoices d @ [iv], flashnet_orders := flashnet_orders d @ os\<rparr>
    | Signed g body \<Rightarrow>
        \<exists>user. fst (canActivate (sv_guard E) (sv_ck E) (read_max_skew (sv_maxSkew E)) (sv_now E) (sv_cache_now E)
                 (g\<lparr>gr_method := signed_method body\<rparr>) d seen) = Inr user
          \<and> d' = d\<lparr>users := users d', lightning_names := lightning_names d'\<rparr> \<and> others_kept (sv_ck E) user d d'
    | Operations authorization r \<Rightarrow>
        truthy (sv_opsToken E) \<and> authorization = Some (''Bearer '' @ nullish (sv_opsToken E) [])
          \<and> d' = d\<lparr>users := users d', refund_cases := refund_cases d'\<rparr>
    | PostWebhook w \<Rightarrow>
        \<exists>body sig ts. wr_rawBody w = Some body \<and> wr_signature w = Some sig \<and> wr_timestamp w = Some ts
          \<and> isFreshTimestamp ts (sv_now E) (readMaxSkewMs (sv_webhookSkew E))
          \<and> verify_with (provide_flashnet (sv_apiKey E) (sv_test E)) (sv_crypto E) (sv_flashnet E) (sv_test E) body sig ts
          \<and> d' = d\<lparr>flashnet_orders := flashnet_orders d', webhook_events := webhook_events d', refund_cases := refund_cases d'\<rparr>
    | _ \<Rightarrow> False"
proof (cases req)
  case GetChallenge
  with s ne show ?thesis
    by (auto simp: serve_def answer_with_def generateAuthChallenge_def Let_def tbl_create_Inr split: sum.splits)
next
  case (GetAuthCallback k1 sig key name)
  with s ne have "auth_callback E k1 sig key name d = Inr d'"
    by (cases "auth_callback E k1 sig key name d") (auto simp: serve_def answer_with_def)
  then show ?thesis
  proof (cases rule: auth_callback_Inr)
    case (1 k s p u nm)
    note f = registration_fields [OF 1(6)] and v = bind_checks_Inr(3) [OF 1(5)]
    show ?thesis
      using 1(1-3) v f unfolding GetAuthCallback http_request.case
      by (intro exI [of _ k] exI [of _ s] exI [of _ p] exI [of _ "new_user (fst (sv_ids E)) (sv_commit_now E)"]
          exI [of _ "new_name (snd (sv_ids E)) nm (fst (sv_ids E)) p (sv_commit_now E)"])
         (simp add: new_user_def new_name_def)
  qed
next
  case (GetPayCallback name amount)
  with s ne have "\<exists>ans. handleLnurlCallback (sv_lnurl E) name amount d = Inr (ans, d')"
    by (auto simp: serve_def answer_with_def split: sum.splits)
  with pay_fields ne GetPayCallback show ?thesis by auto
next
  case (Signed g body)
  with s ne ok user_endpoint_authorised [of "sv_user E"] show ?thesis
    by (auto simp: serve_def sv_user_def split: prod.splits)
next
  case (Operations authorization r)
  with s ne show ?thesis
    using ops_fields by (fastforce simp: serve_def ops_canActivate_iff split: prod.splits)
next
  case (PostWebhook w)
  with s obtain resp where "handleWebhook (verify_with (provide_flashnet (sv_apiKey E) (sv_test E)) (sv_crypto E) (sv_flashnet E) (sv_test E))
      (sv_parse E) (readMaxSkewMs (sv_webhookSkew E)) (sv_swap E) w d = (resp, d')"
    by (auto simp: serve_def split: prod.splits)
  from handleWebhook_changes [OF this ne] webhook_fields PostWebhook show ?thesis by fastforce
qed (use s ne in \<open>auto simp: serve_def\<close>)

theorem writes_are_authorised_witness:
  "\<exists>u n. linkingPubKeyHex n = demo_key_c \<and> users demo_registered = users demo_auth_db @ [u]
     \<and> lightning_names demo_registered = lightning_names demo_auth_db @ [n]"
proof -
  have "demo_registered \<noteq> demo_auth_db"
    by (simp add: demo_registered_def demo_auth_db_def empty_db_def)
  from writes_are_authorised [OF _ demo_register_served this] demo_auth_store_ok
  obtain u n where "linkingPubKeyHex n = demo_key_c"
    "demo_registered = demo_auth_db\<lparr>users := users demo_auth_db @ [u], lightning_names := lightning_names demo_auth_db @ [n],
        auth_nonces := auth_nonces demo_registered\<rparr>" by auto
  moreover from this(2) have "users demo_registered = users demo_auth_db @ [u]"
    by (metis db.select_convs(1) db.surjective db.update_convs(1-3))
  moreover from calculation(2) have "lightning_names demo_registered = lightning_names demo_auth_db @ [n]"
    by (metis db.select_convs(2) db.surjective db.update_convs(1-3))
  ultimately show ?thesis by blast
qed

end
