(* ===== verification/Overlap.thy ===== *)
theory Overlap
  imports Server
begin

text \<open>
  The service with more requests in flight. \<open>markPaid\<close> and \<open>markAbandoned\<close> of
  \<open>src/refund-case/refund-case.service.ts\<close> are split at their \<open>await\<close> into the check and the write, and of a
  payment request only its last statement is left, the one that stores the invoice
  (\<open>src/lnurl/lnurl.service.ts\<close>) or the quote (\<open>src/swap/swap.service.ts\<close>), at any time after
  whatever it read; anything of \<open>Server\<close> may come in between. The stronger contract of \<open>Server\<close>
  does not survive two resolutions in flight; this theory shows what does.
\<close>

section \<open>The weaker contract\<close>

definition case_followed :: "RefundCase \<Rightarrow> RefundCase \<Rightarrow> bool" where
  "case_followed c c' \<longleftrightarrow> rc_id c' = rc_id c \<and> rc_invoiceId c' = rc_invoiceId c \<and> rc_amountSats c' = rc_amountSats c
     \<and> rc_createdAt c' = rc_createdAt c \<and> (rc_status c \<noteq> OPEN \<longrightarrow> rc_status c' \<noteq> OPEN)"

lemma case_followed_refl [simp, intro]: "case_followed c c"
  by (simp add: case_followed_def)

lemma case_followed_trans: "case_followed a b \<Longrightarrow> case_followed b c \<Longrightarrow> case_followed a c"
  by (auto simp: case_followed_def)

lemma case_kept_followed: "case_kept c c' \<Longrightarrow> case_followed c c'"
  by (auto simp: case_kept_def case_followed_def)

lemma store_moves_mono:
  assumes "store_moves R ck d d'" and "\<And>c c'. R c c' \<Longrightarrow> S c c'"
  shows "store_moves S ck d d'"
  using assms by (auto simp: store_moves_def grows_iff_nth)

section \<open>Steps\<close>

text \<open>The ids of the cases whose resolution has passed its check and not written yet.\<close>

type_synonym overlapping_state = "server_state \<times> js_string list"

inductive overlapping_step :: "collation \<Rightarrow> overlapping_state \<Rightarrow> overlapping_state \<Rightarrow> bool" for ck where
  serial: "server_step ck s s' \<Longrightarrow> overlapping_step ck (s, ws) (s', ws)"
| check: "resolve_check ck i d = Inr c \<Longrightarrow> overlapping_step ck ((d, seen, ps), ws) ((d, seen, ps), i # ws)"
| pay: "i \<in> set ws \<Longrightarrow> update_case ck i (paid_row now opts) d = Inr (c, d')
    \<Longrightarrow> overlapping_step ck ((d, seen, ps), ws) ((d', seen, ps), ws)"
| abandon: "i \<in> set ws \<Longrightarrow> update_case ck i (abandoned_row now reason) d = Inr (c, d')
    \<Longrightarrow> overlapping_step ck ((d, seen, ps), ws) ((d', seen, ps), ws)"
| invoice: "le_ck E = ck \<Longrightarrow> lnurl_createInvoice E nameId n res d = Inr d'
    \<Longrightarrow> overlapping_step ck ((d, seen, ps), ws) ((d', seen, ps), ws)"
| quote: "env_ck F = ck \<Longrightarrow> persist_quote F q r d = Inr d'
    \<Longrightarrow> overlapping_step ck ((d, seen, ps), ws) ((d', seen, ps), ws)"

lemma update_case_found:
  assumes "update_case ck i f d = Inr r"
  shows "\<exists>c. findById ck i d = Some c"
  using assms
  by (auto simp: update_case_def tbl_update_def where_rc_id findById_def split: sum.splits option.splits)

lemma resolution_moves:
  assumes "store_ok ck d" and "update_case ck i f d = Inr (c', d')"
    and "\<And>c. case_followed c (f c)"
  shows "store_moves case_followed ck d d'"
proof -
  from update_case_found [OF assms(2)] obtain c where "findById ck i d = Some c" by blast
  with assms show ?thesis
    by (intro case_write_moves [OF assms(1) _ assms(2)]) (auto simp: case_followed_def)
qed

lemma resolved_rows: "case_followed c (paid_row now opts c)" "case_followed c (abandoned_row now reason c)"
  by (simp_all add: case_followed_def paid_row_def abandoned_row_def OPEN_def PAID_def ABANDONED_def)

lemma overlapping_step_moves:
  assumes "overlapping_step ck x x'" and "store_ok ck (fst (fst x))" and "plans_ok ck (fst x)"
  shows "store_moves case_followed ck (fst (fst x)) (fst (fst x')) \<and> plans_ok ck (fst x')"
  using assms
proof (induction rule: overlapping_step.induct)
  case (serial s s' ws)
  then have "store_evolves ck (fst s) (fst s')" "plans_ok ck s'" using server_step_evolves by auto
  then show ?case by (auto intro: store_moves_mono case_kept_followed)
next
  case (check i d c seen ps ws)
  then show ?case by (simp add: store_moves_refl)
next
  case (pay i ws now opts d c d' seen ps)
  then have "store_moves case_followed ck d d'" by (auto intro: resolution_moves resolved_rows)
  with pay(4) show ?case by (auto intro: plans_kept)
next
  case (abandon i ws now reason d c d' seen ps)
  then have "store_moves case_followed ck d d'" by (auto intro: resolution_moves resolved_rows)
  with abandon(4) show ?case by (auto intro: plans_kept)
next
  case (invoice E nameId n res d d' seen ps ws)
  then have "store_evolves ck d d'" by (auto intro: createInvoice_evolves)
  with invoice(4) show ?case by (auto intro: plans_kept store_moves_mono case_kept_followed)
next
  case (quote F q r d d' seen ps ws)
  then have "store_evolves ck d d'" by (auto intro: persist_evolves)
  with quote(4) show ?case by (auto intro: plans_kept store_moves_mono case_kept_followed)
qed

lemma overlapping_steps_move:
  assumes "(overlapping_step ck)\<^sup>*\<^sup>* x x'" and "store_ok ck (fst (fst x))" and "plans_ok ck (fst x)"
  shows "store_moves case_followed ck (fst (fst x)) (fst (fst x')) \<and> plans_ok ck (fst x')"
  using assms
proof (induction rule: rtranclp_induct)
  case base
  then show ?case by (simp add: store_moves_refl)
next
  case (step y z)
  then have "store_moves case_followed ck (fst (fst x)) (fst (fst y))" "plans_ok ck (fst y)" by simp_all
  moreover from this step(2) have "store_moves case_followed ck (fst (fst y)) (fst (fst z))" "plans_ok ck (fst z)"
    using overlapping_step_moves store_moves_ok by blast+
  ultimately show ?case by (blast intro: store_moves_trans case_followed_trans)
qed

section \<open>Property\<close>

text \<open>
  C6. What survives requests in flight. From any store that satisfies the invariant, the empty
  one for instance, with refund-case resolutions suspended between their check and their write,
  payment requests suspended before their write, and requests to any route, registrations,
  changes, purges and reconciler calls in between, the store keeps its whole invariant. And between
  any two points of the history nothing is lost: users, names and invoices stay, orders move
  along the order machine, every refund case keeps its invoice and amount, and a case that is
  no longer open never becomes open again. Only how a closed case was resolved may change.
\<close>

theorem overlapping_history:
  assumes "store_ok ck d" and "(overlapping_step ck)\<^sup>*\<^sup>* ((d, seen, []), []) x" and "(overlapping_step ck)\<^sup>*\<^sup>* x x'"
  shows "store_ok ck (fst (fst x)) \<and> store_moves case_followed ck (fst (fst x)) (fst (fst x'))"
proof -
  have "plans_ok ck (d, seen, [])" by (simp add: plans_ok_def)
  with overlapping_steps_move [OF assms(2)] assms(1)
  have "store_ok ck (fst (fst x))" "plans_ok ck (fst x)" by (auto dest: store_moves_ok)
  with overlapping_steps_move [OF assms(3)] show ?thesis by blast
qed

section \<open>Two resolutions of one case\<close>

definition demo_case :: RefundCase where
  "demo_case = new_case ''c1'' 7 demo_params"

definition demo_case_db :: "RefundCase \<Rightarrow> db" where
  "demo_case_db c = empty_db\<lparr>users := [new_user ''u1'' 0], lightning_names := [new_name ''l1'' ''bob'' ''u1'' ''k'' 0],
     invoices := [demo_invoice\<lparr>usernameId := ''l1''\<rparr>], refund_cases := [c]\<rparr>"

definition demo_paid :: RefundCase where
  "demo_paid = paid_row 8 \<lparr>mp_externalRef = None, mp_payeeLnAddress = None\<rparr> demo_case"

lemma demo_case_id: "rc_id demo_case = ''c1''" "rc_status demo_case = OPEN" "rc_id demo_paid = ''c1''"
  "rc_status demo_paid = PAID" "rc_invoiceId demo_case = inv_id demo_invoice" "rc_invoiceId demo_paid = rc_invoiceId demo_case"
  by (simp_all add: demo_case_def demo_paid_def new_case_def paid_row_def demo_params_def demo_invoice_def)

lemma demo_case_ok: "store_ok id (demo_case_db demo_case)"
  by (simp add: store_ok_def names_ok_def orders_ok_def failed_have_cases_def refs_ok_def demo_case_db_def empty_db_def
      uniq_def mirror_ok_def new_user_def new_name_def text_eq_def demo_case_id)

lemma demo_case_update:
  assumes "rc_id c = ''c1''" "rc_id (f c) = ''c1''"
  shows "update_case id ''c1'' f (demo_case_db c) = Inr (f c, demo_case_db (f c))"
  using assms
  by (simp add: update_case_def tbl_update_def where_rc_id text_eq_def demo_case_db_def violated_def refund_case_ixs_def)

theorem overlapping_history_witness:
  "store_moves case_followed id (demo_case_db demo_paid) (demo_case_db (abandoned_row 9 None demo_paid))
   \<and> \<not> store_evolves id (demo_case_db demo_paid) (demo_case_db (abandoned_row 9 None demo_paid))"
proof -
  let ?o = "\<lparr>mp_externalRef = None, mp_payeeLnAddress = None\<rparr> :: MarkPaidOpts"
  have found: "resolve_check id ''c1'' (demo_case_db demo_case) = Inr demo_case"
    by (simp add: resolve_check_def findById_def demo_case_db_def text_eq_def demo_case_id)
  let ?s = "\<lambda>c. (demo_case_db c, [], []) :: server_state"
  note check = overlapping_step.check [OF found]
  have "overlapping_step id (?s demo_case, []) (?s demo_case, [''c1''])"
    "overlapping_step id (?s demo_case, [''c1'']) (?s demo_case, [''c1'', ''c1''])"
    by (rule check)+
  moreover have "overlapping_step id (?s demo_case, [''c1'', ''c1'']) (?s demo_paid, [''c1'', ''c1''])"
    using demo_case_update [of demo_case "paid_row 8 ?o"] demo_case_id
    by (intro overlapping_step.pay [where i = "''c1''" and now = 8 and opts = ?o and c = demo_paid]) (simp_all add: demo_paid_def)
  ultimately have paid: "(overlapping_step id)\<^sup>*\<^sup>* (?s demo_case, []) (?s demo_paid, [''c1'', ''c1''])"
    by (meson rtranclp.rtrancl_refl rtranclp.rtrancl_into_rtrancl)
  let ?c = "abandoned_row 9 None demo_paid"
  have "overlapping_step id (?s demo_paid, [''c1'', ''c1'']) (?s ?c, [''c1'', ''c1''])"
    using demo_case_update [of demo_paid "abandoned_row 9 None"] demo_case_id
    by (intro overlapping_step.abandon [where i = "''c1''" and now = 9 and reason = None and c = ?c])
      (simp_all add: abandoned_row_def)
  then have "(overlapping_step id)\<^sup>*\<^sup>* (?s demo_paid, [''c1'', ''c1'']) (?s ?c, [''c1'', ''c1''])"
    by (rule r_into_rtranclp)
  from overlapping_history [OF demo_case_ok paid this]
  have "store_moves case_followed id (demo_case_db demo_paid) (demo_case_db ?c)" by simp
  moreover have "rc_status ?c = ABANDONED" by (simp add: abandoned_row_def)
  then have "\<not> case_kept demo_paid ?c"
    using demo_case_id by (auto simp: case_kept_def OPEN_def PAID_def ABANDONED_def)
  then have "\<not> store_evolves id (demo_case_db demo_paid) (demo_case_db ?c)"
    by (auto simp: store_moves_def grows_iff_nth demo_case_db_def)
  ultimately show ?thesis ..
qed

end
