(* ===== verification/Deliveries.thy ===== *)
theory Deliveries
  imports Overlap
begin

text \<open>
  Deliveries of one webhook event over the history of the service: the idempotence that
  \<open>applyWebhookEvent\<close> of \<open>src/swap/swap.service.ts\<close> promises, with anything that \<open>Overlap\<close> lets happen
  between two deliveries, and the case of an order that is not known yet.
\<close>

section \<open>Property\<close>

lemma delivered_state:
  assumes ok: "store_ok ck d0" and before: "(overlapping_step ck)\<^sup>*\<^sup>* ((d0, seen0, []), []) ((d, seen, ps), ws)"
    and first: "env_ck E = ck" "fresh_case_id ck (env_case_id E) d" "applyWebhookEvent E p d = Inr d'"
  shows "store_ok ck d" "store_ok ck d'" "plans_ok ck (d', seen, ps)"
proof -
  have "plans_ok ck (d0, seen0, [])" by (simp add: plans_ok_def)
  with overlapping_steps_move [OF before] ok show d: "store_ok ck d"
    by (auto dest: store_moves_ok)
  from \<open>plans_ok ck (d0, seen0, [])\<close> overlapping_steps_move [OF before] ok have ps: "plans_ok ck (d, seen, ps)" by simp
  have "store_evolves ck d d'" using webhook_evolves [of E d p d'] d first by simp
  then show "store_ok ck d'" "plans_ok ck (d', seen, ps)" using ps by (auto intro: store_moves_ok plans_kept)
qed

text \<open>
  C9. A webhook event is handled once. Take a delivery that succeeds at any point of the history.
  If its order is known, or the event was handled before, then the event is handled, and delivering
  the payload again at any later point, whatever was done in between, succeeds and leaves the store
  exactly as it is. If the order is not known yet, the delivery stores the receipt of the event and
  nothing else, and a delivery right after it changes nothing; but the event stays open: a
  later delivery that succeeds once the order is known handles it, so that no event is lost to the
  race with the quote.
\<close>

theorem webhook_event_handled_once:
  assumes ok: "store_ok ck d0" and before: "(overlapping_step ck)\<^sup>*\<^sup>* ((d0, seen0, []), []) ((d, seen, ps), ws)"
    and first: "env_ck E = ck" "fresh_case_id ck (env_case_id E) d" "applyWebhookEvent E p d = Inr d'"
    and after: "(overlapping_step ck)\<^sup>*\<^sup>* ((d', seen, ps), ws) ((d'', seen'', ps''), ws'')"
    and again: "env_ck F = ck"
  shows "if event_handled ck p d \<or> order_known ck (wp_data p) d
    then event_handled ck p d' \<and> applyWebhookEvent F p d'' = Inr d''
    else d' = d\<lparr>webhook_events := webhook_events d'\<rparr> \<and> \<not> event_handled ck p d'
      \<and> applyWebhookEvent F p d' = Inr d'
      \<and> (\<forall>d3. order_known ck (wp_data p) d'' \<and> applyWebhookEvent F p d'' = Inr d3 \<longrightarrow> event_handled ck p d3)"
proof -
  note d = delivered_state [OF ok before first]
  have moves: "store_moves case_followed ck d' d''" using overlapping_steps_move [OF after] d by simp
  then have ok'': "store_ok ck d''" by (rule store_moves_ok)
  note u = store_okD(7,6) [OF d(1), folded first(1)] and u'' = store_okD(7,6) [OF ok'', folded again]
  from u first(3) show ?thesis
  proof (cases rule: webhook_receipt)
    case handled
    then have "event_handled ck p d'" using first(1) by simp
    moreover from this have "event_handled ck p d''"
      using moves by (intro handled_kept [OF _ store_okD(7) [OF ok'']]) (simp_all add: store_moves_def)
    moreover from this have "applyWebhookEvent F p d'' = Inr d''"
      using again by (intro handled_replay) simp
    ultimately show ?thesis using handled(2) first(1) by (simp only: if_True)
  next
    case (unknown ts ev)
    then have "d' = d\<lparr>webhook_events := webhook_events d'\<rparr>"
      by (auto simp: upsert_event_def split: option.splits sum.splits)
    moreover have "applyWebhookEvent F p d' = Inr d'"
      using webhook_redelivery [OF u _ first(3)] first(1) again by simp
    moreover have "event_handled ck p d3" if "order_known ck (wp_data p) d''" "applyWebhookEvent F p d'' = Inr d3" for d3
      using u'' that(2) by (cases rule: webhook_receipt) (use that(1) again in auto)
    moreover have "\<not> (event_handled ck p d \<or> order_known ck (wp_data p) d)" "\<not> event_handled ck p d'"
      using unknown(1-3) first(1) by simp_all
    ultimately show ?thesis by (simp only: if_False) blast
  qed
qed

section \<open>An event that overtakes its quote\<close>

definition demo_names_db :: db where
  "demo_names_db = empty_db\<lparr>users := [new_user ''u1'' 0], lightning_names := [new_name ''l1'' ''bob'' ''u1'' ''k'' 0]\<rparr>"

definition demo_early :: FlashnetWebhookPayload where
  "demo_early = demo_payload ''order.completed''"

definition demo_receipt_db :: db where
  "demo_receipt_db = demo_names_db\<lparr>webhook_events := [new_event demo_env demo_early 17]\<rparr>"

definition demo_pay_params :: InitiateLightningQuoteParams where
  "demo_pay_params = \<lparr>iq_idempotencyKey = ''i1'', iq_amountSats = 1, iq_amountMsat = 1000,
     iq_recipientSparkAddress = ''sp1'', iq_lightningNameId = ''l1'', iq_descriptionHash = []\<rparr>"

definition demo_reply :: LightningQuoteResponse where
  "demo_reply = \<lparr>qr_quoteId = ''q_1'', qr_depositAddress = ''lnbc10n1'', qr_amountIn = ''1'', qr_estimatedOut = ''9'',
     qr_feeAmount = ''1'', qr_roundingFeeAmount = ''0'', qr_totalFeeAmount = ''1'', qr_feeBps = 41, qr_feeAsset = ''USDB'',
     qr_route = [''BTC''], qr_expiresAt = ''t'', qr_priceLockMode = None, qr_lockedMinAmountOut = None,
     qr_amountMode = None, qr_flexibleAmount = False, qr_lightningReceiveRequestId = ''l1'', qr_replayed = False\<rparr>"

lemma demo_names_ok: "store_ok id demo_names_db"
  by (simp add: store_ok_def names_ok_def orders_ok_def failed_have_cases_def refs_ok_def demo_names_db_def empty_db_def
      uniq_def mirror_ok_def new_user_def new_name_def text_eq_def)

lemma demo_early_unknown:
  "applyWebhookEvent demo_env demo_early demo_names_db = Inr demo_receipt_db"
  "event_handled id demo_early demo_names_db \<or> order_known id (wp_data demo_early) demo_names_db \<longleftrightarrow> False"
  by code_simp+

lemma demo_quote_stored:
  "case persist_quote demo_env demo_pay_params demo_reply demo_receipt_db of
     Inl _ \<Rightarrow> False | Inr d2 \<Rightarrow> refund_cases d2 = []"
  "case persist_quote demo_env demo_pay_params demo_reply demo_receipt_db of
     Inl _ \<Rightarrow> False | Inr d2 \<Rightarrow> order_known id (wp_data demo_early) d2"
  "is_ok (bind_result (persist_quote demo_env demo_pay_params demo_reply demo_receipt_db) (applyWebhookEvent demo_env demo_early))"
  by code_simp+

text \<open>
  The event comes before its quote is stored and changes nothing but the receipts, also when it is
  repeated; delivered again after the quote it is handled; and from then on, here after a run of
  the purge, it changes nothing any more.
\<close>

theorem webhook_event_handled_once_witness:
  "applyWebhookEvent demo_env demo_early demo_names_db = Inr demo_receipt_db
   \<and> applyWebhookEvent demo_env demo_early demo_receipt_db = Inr demo_receipt_db
   \<and> (\<exists>d2 d3. persist_quote demo_env demo_pay_params demo_reply demo_receipt_db = Inr d2
        \<and> applyWebhookEvent demo_env demo_early d2 = Inr d3 \<and> d3 \<noteq> d2
        \<and> (let d4 = snd (purgeExpired id id 99 d3)
           in applyWebhookEvent (demo_env\<lparr>env_now := 200\<rparr>) demo_early d4 = Inr d4))"
proof -
  let ?s = "\<lambda>d. ((d, [], []), []) :: overlapping_state"
  note refl = rtranclp.rtrancl_refl [of "overlapping_step id"]
  have E: "env_ck demo_env = id" "env_case_id demo_env = ''c1''" "env_ck (demo_env\<lparr>env_now := 200\<rparr>) = id"
    by (simp_all add: demo_env_def)
  have fresh: "fresh_case_id id (env_case_id demo_env) demo_names_db"
    by (simp add: fresh_case_id_def demo_names_db_def empty_db_def)
  obtain d2 where d2: "persist_quote demo_env demo_pay_params demo_reply demo_receipt_db = Inr d2"
    "refund_cases d2 = []" "order_known id (wp_data demo_early) d2"
    using demo_quote_stored(1,2) by (auto split: sum.splits)
  obtain d3 where d3: "applyWebhookEvent demo_env demo_early d2 = Inr d3"
    using demo_quote_stored(3) d2(1) is_okE [of "applyWebhookEvent demo_env demo_early d2"] by auto
  let ?d4 = "snd (purgeExpired id id 99 d3)"
  from webhook_event_handled_once [OF demo_names_ok refl E(1) fresh demo_early_unknown(1) refl E(1)]
  have early: "applyWebhookEvent demo_env demo_early demo_receipt_db = Inr demo_receipt_db"
    "\<not> event_handled id demo_early demo_receipt_db"
    using demo_early_unknown(2) by simp_all
  have "server_step id (demo_names_db, [], []) (deliver (demo_env, demo_early) demo_names_db, [], [])"
    using E(1) fresh by (intro server_step.reconcile) simp_all
  then have "overlapping_step id (?s demo_names_db) (?s demo_receipt_db)"
    using demo_early_unknown(1) by (auto simp: deliver_def intro: overlapping_step.serial)
  moreover have "overlapping_step id (?s demo_receipt_db) (?s d2)"
    using E(1) d2(1) by (rule overlapping_step.quote)
  ultimately have before: "(overlapping_step id)\<^sup>*\<^sup>* (?s demo_names_db) (?s d2)" by simp
  have "server_step id (d3, [], []) (?d4, [], [])"
    by (rule server_step.purge) (rule prod.collapse [symmetric])
  then have after: "(overlapping_step id)\<^sup>*\<^sup>* (?s d3) (?s ?d4)" by (auto intro: overlapping_step.serial)
  have "fresh_case_id id (env_case_id demo_env) d2" using d2(2) by (simp add: fresh_case_id_def)
  from webhook_event_handled_once [OF demo_names_ok before E(1) this d3 after E(3)]
  have late: "event_handled id demo_early d3 \<and> applyWebhookEvent (demo_env\<lparr>env_now := 200\<rparr>) demo_early ?d4 = Inr ?d4"
    using d2(3) by (simp only: simp_thms if_True)
  have "webhook_events d2 = webhook_events demo_receipt_db" using d2(1) by (auto elim!: persist_quote_Inr)
  from event_handled_cong [OF this] early(2) have "\<not> event_handled id demo_early d2" by simp
  with late have "d3 \<noteq> d2" by blast
  with demo_early_unknown(1) early(1) d2(1) d3 late show ?thesis unfolding Let_def by blast
qed

end
