(* ===== verification/Log_Sanitize.thy ===== *)
theory Log_Sanitize
  imports Prelude
begin

text \<open>
  Values in log lines, \<open>src/common/log-sanitize.ts\<close>. Here a string is the list of its UTF-16 code
  units as numbers, since the point of the code is which units reach the log.
\<close>

type_synonym units = "nat list"

definition ascii :: "js_string \<Rightarrow> units" where
  "ascii s = map of_char s"

definition LOG_VALUE_MAX_LENGTH :: nat where "LOG_VALUE_MAX_LENGTH = 32"
definition LOG_PUBKEY_MAX_LENGTH :: nat where "LOG_PUBKEY_MAX_LENGTH = 130"
definition LOG_ERROR_MAX_LENGTH :: nat where "LOG_ERROR_MAX_LENGTH = 200"

section \<open>Sanitising\<close>

definition control_character :: "nat \<Rightarrow> bool" where
  "control_character u \<longleftrightarrow> u \<le> 0x1f \<or> 0x7f \<le> u \<and> u \<le> 0x9f \<or> 0x200b \<le> u \<and> u \<le> 0x200f
     \<or> 0x2028 \<le> u \<and> u \<le> 0x202e \<or> 0x2066 \<le> u \<and> u \<le> 0x2069 \<or> u = 0xfeff"

text \<open>\<open>Array.from(s)\<close>: code points, a surrogate pair as one element.\<close>

fun code_points :: "units \<Rightarrow> units list" where
  "code_points (a # b # s) =
     (if 0xd800 \<le> a \<and> a \<le> 0xdbff \<and> 0xdc00 \<le> b \<and> b \<le> 0xdfff
      then [a, b] # code_points s else [a] # code_points (b # s))"
| "code_points [a] = [[a]]"
| "code_points [] = []"

text \<open>\<open>u.toString(16).padStart(4, '0')\<close> of a code unit.\<close>

definition hex_unit :: "nat \<Rightarrow> nat" where
  "hex_unit n = (if n < 10 then 48 + n else 87 + n)"

definition hex4 :: "nat \<Rightarrow> units" where
  "hex4 u = map hex_unit [u div 4096 mod 16, u div 256 mod 16, u div 16 mod 16, u mod 16]"

text \<open>Both replacements: a backslash is doubled, a control character becomes its escape.\<close>

definition escape_unit :: "nat \<Rightarrow> units" where
  "escape_unit u = (if u = 92 then [92, 92] else if control_character u then 92 # 117 # hex4 u else [u])"

definition sanitizeForLog :: "units \<Rightarrow> nat \<Rightarrow> units" where
  "sanitizeForLog txt maxLength =
     (let kept = concat (take maxLength (code_points (take (maxLength * 2) txt)));
          escaped = concat (map escape_unit kept)
      in if length txt \<le> length kept then escaped
         else escaped @ ascii ''...['' @ ascii (dec_str (length (code_points txt))) @ ascii '' chars]'')"

text \<open>Only the length of a secret is described; anything but a string counts as empty.\<close>

definition describeSecret :: "units option \<Rightarrow> nat" where
  "describeSecret value = (case value of None \<Rightarrow> 0 | Some s \<Rightarrow> length s)"

datatype thrown = ErrorObject units units | OtherValue "units option" \<comment> \<open>name and message; printed value\<close>

definition errorForLog :: "thrown \<Rightarrow> units" where
  "errorForLog e =
     sanitizeForLog
       (case e of
          ErrorObject name msg \<Rightarrow> name @ ascii '': '' @ msg
        | OtherValue v \<Rightarrow> (case v of None \<Rightarrow> ascii ''unknown error'' | Some s \<Rightarrow> s)) LOG_ERROR_MAX_LENGTH"

section \<open>Code points\<close>

lemma concat_code_points [simp]: "concat (code_points s) = s"
  by (induction s rule: code_points.induct) auto

lemma code_points_size: "c \<in> set (code_points s) \<Longrightarrow> length c \<le> 2"
  by (induction s rule: code_points.induct) (auto split: if_splits)

lemma length_concat_le: "(\<And>c. c \<in> set cs \<Longrightarrow> length c \<le> n) \<Longrightarrow> length (concat cs) \<le> n * length cs"
  by (induction cs) (auto simp: add_mono)

lemma kept_length: "length (concat (take n (code_points s))) \<le> 2 * n"
proof -
  have "length (concat (take n (code_points s))) \<le> 2 * length (take n (code_points s))"
    by (rule length_concat_le) (auto dest: in_set_takeD intro: code_points_size)
  then show ?thesis by simp
qed

section \<open>Escapes\<close>

lemma hex_unit_plain: "n < 16 \<Longrightarrow> \<not> control_character (hex_unit n) \<and> hex_unit n \<noteq> 92"
  by (auto simp: hex_unit_def control_character_def)

lemma escape_unit_plain: "\<not> control_character v" if "v \<in> set (escape_unit u)"
  using that hex_unit_plain by (auto simp: escape_unit_def hex4_def control_character_def split: if_splits)

lemma escape_unit_length: "length (escape_unit u) \<le> 6"
  by (simp add: escape_unit_def hex4_def)

lemma ascii_plain: "list_all (\<lambda>c. 32 \<le> (of_char c :: nat) \<and> (of_char c :: nat) < 127) s \<Longrightarrow> v \<in> set (ascii s) \<Longrightarrow> \<not> control_character v"
  by (auto simp: ascii_def list_all_iff control_character_def)

lemma dec_str_plain: "v \<in> set (ascii (dec_str n)) \<Longrightarrow> \<not> control_character v"
  using dec_str_digits [of n]
  by (intro ascii_plain) (auto simp: all_digits_def list_all_iff is_digit_def code_in_def)

lemma hex_unit_inj: "m < 16 \<Longrightarrow> n < 16 \<Longrightarrow> hex_unit m = hex_unit n \<Longrightarrow> m = n"
  by (auto simp: hex_unit_def split: if_splits)

lemma nibbles:
  assumes "w < (65536 :: nat)"
  shows "w = w div 4096 mod 16 * 4096 + w div 256 mod 16 * 256 + w div 16 mod 16 * 16 + w mod 16"
proof -
  have d: "w div 256 = w div 16 div 16" "w div 4096 = w div 16 div 16 div 16"
    by (simp_all add: div_mult2_eq [symmetric])
  have "w div 4096 < 16" using assms by (simp add: div_less_iff_less_mult)
  then have "w div 16 div 16 div 16 mod 16 = w div 16 div 16 div 16" by (simp add: d)
  moreover have "w = w div 16 * 16 + w mod 16" "w div 16 = w div 16 div 16 * 16 + w div 16 mod 16"
    "w div 16 div 16 = w div 16 div 16 div 16 * 16 + w div 16 div 16 mod 16" by simp_all
  ultimately show ?thesis unfolding d by linarith
qed

lemma hex4_inj:
  assumes "u < 65536" "v < 65536" and "hex4 u = hex4 v"
  shows "u = v"
proof -
  have "u div 4096 mod 16 = v div 4096 mod 16" "u div 256 mod 16 = v div 256 mod 16"
    "u div 16 mod 16 = v div 16 mod 16" "u mod 16 = v mod 16"
    using assms(3) by (auto simp: hex4_def intro: hex_unit_inj)
  then show ?thesis using nibbles [OF assms(1)] nibbles [OF assms(2)] by simp
qed

lemma escape_cancel:
  assumes "x < 65536" "y < 65536" and eq: "escape_unit x @ s = escape_unit y @ t"
  shows "x = y \<and> s = t"
proof -
  consider (slash) "x = 92" | (control) "x \<noteq> 92" "control_character x" | (plain) "x \<noteq> 92" "\<not> control_character x" by blast
  then show ?thesis
  proof cases
    case slash
    with eq have "92 # 92 # s = escape_unit y @ t" by (simp add: escape_unit_def)
    with slash show ?thesis by (simp add: escape_unit_def split: if_splits)
  next
    case control
    with eq have "92 # 117 # hex4 x @ s = escape_unit y @ t" by (simp add: escape_unit_def)
    then have "hex4 x @ s = hex4 y @ t" by (simp add: escape_unit_def split: if_splits)
    then have "hex4 x = hex4 y" "s = t" by (simp_all add: hex4_def)
    with hex4_inj [OF assms(1,2)] show ?thesis by blast
  next
    case plain
    with eq have "x # s = escape_unit y @ t" by (simp add: escape_unit_def)
    with plain show ?thesis by (simp add: escape_unit_def split: if_splits)
  qed
qed

lemma escape_nonempty: "escape_unit u \<noteq> []"
  by (simp add: escape_unit_def)

lemma escape_inj:
  assumes "list_all (\<lambda>u. u < 65536) xs" "list_all (\<lambda>u. u < 65536) ys"
    and "concat (map escape_unit xs) = concat (map escape_unit ys)"
  shows "xs = ys"
  using assms
proof (induction xs arbitrary: ys)
  case Nil
  then show ?case using escape_nonempty by (cases ys) auto
next
  case (Cons x xs)
  have "ys \<noteq> []" using Cons.prems(3) escape_nonempty by auto
  then obtain y ys' where ys: "ys = y # ys'" by (cases ys) blast+
  have "x = y \<and> concat (map escape_unit xs) = concat (map escape_unit ys')"
    using Cons.prems by (intro escape_cancel) (simp_all add: ys)
  with Cons show ?case by (simp add: ys)
qed

lemma sanitize_short:
  assumes "length (code_points txt) \<le> n"
  shows "sanitizeForLog txt n = concat (map escape_unit txt)"
proof -
  have "length (concat (code_points txt)) \<le> 2 * length (code_points txt)"
    by (rule length_concat_le) (rule code_points_size)
  with assms have "take (n * 2) txt = txt" by simp
  with assms show ?thesis by (simp add: sanitizeForLog_def)
qed

lemma sanitize_plain: "v \<in> set (sanitizeForLog txt n) \<Longrightarrow> \<not> control_character v"
proof -
  have "v \<in> set (ascii ''...['') \<Longrightarrow> \<not> control_character v" "v \<in> set (ascii '' chars]'') \<Longrightarrow> \<not> control_character v"
    by (rule ascii_plain; simp)+
  then show "v \<in> set (sanitizeForLog txt n) \<Longrightarrow> \<not> control_character v"
    using escape_unit_plain dec_str_plain by (fastforce simp: sanitizeForLog_def Let_def split: if_splits)
qed

lemma sanitize_length: "length (sanitizeForLog txt n) \<le> 12 * n + length (dec_str (length (code_points txt))) + 11"
proof -
  have esc: "length (concat (map escape_unit xs)) \<le> 6 * length xs" for xs
    using length_concat_le [of "map escape_unit xs" 6] escape_unit_length by auto
  have "length (concat (take n (code_points (take (n * 2) txt)))) \<le> 2 * n" by (rule kept_length)
  with esc [of "concat (take n (code_points (take (n * 2) txt)))"]
  have "length (concat (map escape_unit (concat (take n (code_points (take (n * 2) txt)))))) \<le> 12 * n" by linarith
  then show ?thesis by (simp add: sanitizeForLog_def Let_def ascii_def)
qed

text \<open>
  C27. Log lines cannot be forged. Whatever a caller sends, the text that reaches the log contains
  no line break, no other control character and no invisible or direction-changing one; it
  has at most twelve units for each character allowed, plus the note of the length. And values
  that are short enough to be kept whole stay distinguishable: no value can imitate the
  escaped form of another.
\<close>

theorem sanitized_log_value:
  "list_all (\<lambda>u. \<not> control_character u) (sanitizeForLog txt n)
   \<and> length (sanitizeForLog txt n) \<le> 12 * n + length (dec_str (length (code_points txt))) + 11
   \<and> (list_all (\<lambda>u. u < 65536) (txt @ other)
      \<longrightarrow> length (code_points txt) \<le> n \<longrightarrow> length (code_points other) \<le> n
      \<longrightarrow> sanitizeForLog txt n = sanitizeForLog other n \<longrightarrow> txt = other)"
  using sanitize_plain sanitize_length by (auto simp: list_all_iff sanitize_short intro!: escape_inj)

theorem sanitized_log_value_witness:
  "sanitizeForLog [10] 32 \<noteq> sanitizeForLog (ascii ''u000a'') 32 \<and> length (sanitizeForLog (replicate 40 10) 1) \<le> 25"
proof -
  have "sanitizeForLog [10] 32 \<noteq> sanitizeForLog (ascii ''u000a'') 32"
    using sanitized_log_value [of "[10]" 32 "ascii ''u000a''"] by (auto simp: ascii_def)
  moreover have "code_points (replicate k 10) = replicate k [10]" for k
  proof (induction k)
    case (Suc k)
    then show ?case by (cases k) simp_all
  qed simp
  then have "length (sanitizeForLog (replicate 40 10) 1) \<le> 12 * 1 + length (dec_str 40) + 11"
    using sanitized_log_value [of "replicate 40 10" 1 "[]"] by simp
  then have "length (sanitizeForLog (replicate 40 10) 1) \<le> 25" by (simp add: dec_str.simps [of 40] dec_str.simps [of 4])
  ultimately show ?thesis ..
qed

end
