(* ===== verification/Log_Line.thy ===== *)
theory Log_Line
  imports Log_Sanitize
begin

text \<open>
  Structured log lines, \<open>logLine\<close> of \<open>src/common/log-sanitize.ts\<close>: \<open>JSON.stringify\<close> of an object whose
  fields are strings, natural numbers and objects of those, on UTF-16 code units. The reader at
  the end is the reference for what an operator's tool makes of a line.
\<close>

section \<open>Printing\<close>

datatype log_value = LogText units | LogNumber nat | LogObject "(units \<times> log_value) list"

type_synonym log_fields = "(units \<times> log_value) list"

text \<open>
  A code point inside a JSON string: quote, backslash and the control characters below 32 are
  escaped, and so is a surrogate that is not half of a pair.
\<close>

definition short_escape :: "nat \<Rightarrow> nat option" where
  "short_escape u = map_of [(34, 34), (92, 92), (8, 98), (9, 116), (10, 110), (12, 102), (13, 114)] u"

definition surrogate :: "nat \<Rightarrow> bool" where
  "surrogate u \<longleftrightarrow> 0xd800 \<le> u \<and> u \<le> 0xdfff"

definition json_unit :: "nat \<Rightarrow> units" where
  "json_unit u =
     (case short_escape u of
        Some c \<Rightarrow> [92, c]
      | None \<Rightarrow> if u < 32 \<or> surrogate u then 92 # 117 # hex4 u else [u])"

definition json_point :: "units \<Rightarrow> units" where
  "json_point p = (case p of [u] \<Rightarrow> json_unit u | _ \<Rightarrow> p)"

definition json_quote :: "units \<Rightarrow> units" where
  "json_quote s = 34 # concat (map json_point (code_points s)) @ [34]"

fun json_text :: "log_value \<Rightarrow> units" and json_members :: "log_fields \<Rightarrow> units" where
  "json_text (LogText s) = json_quote s"
| "json_text (LogNumber n) = ascii (dec_str n)"
| "json_text (LogObject fs) = 123 # json_members fs @ [125]"
| "json_members [] = []"
| "json_members [(k, v)] = json_quote k @ 58 # json_text v"
| "json_members ((k, v) # f # fs) = json_quote k @ 58 # json_text v @ 44 # json_members (f # fs)"

definition logLine :: "log_fields \<Rightarrow> units" where
  "logLine fields = json_text (LogObject fields)"

section \<open>Reading\<close>

text \<open>The value of four hex digits, lower case.\<close>

definition unhex :: "nat \<Rightarrow> nat" where
  "unhex u = (if u < 58 then u - 48 else u - 87)"

definition unhex4 :: "nat \<Rightarrow> nat \<Rightarrow> nat \<Rightarrow> nat \<Rightarrow> nat" where
  "unhex4 a b c d = unhex a * 4096 + unhex b * 256 + unhex c * 16 + unhex d"

definition long_escape :: "nat \<Rightarrow> nat option" where
  "long_escape c = map_of [(34, 34), (92, 92), (98, 8), (116, 9), (110, 10), (102, 12), (114, 13)] c"

text \<open>The rest of a string after its opening quote, and what follows its closing quote.\<close>

fun read_chars :: "units \<Rightarrow> (units \<times> units) option" where
  "read_chars [] = None"
| "read_chars (u # s) =
     (if u = 34 then Some ([], s)
      else if u = 92 then
        (case s of
           [] \<Rightarrow> None
         | c # t \<Rightarrow>
             if c = 117 then
               (case t of
                  h1 # h2 # h3 # h4 # t' \<Rightarrow> map_option (apfst (Cons (unhex4 h1 h2 h3 h4))) (read_chars t')
                | _ \<Rightarrow> None)
             else
               (case long_escape c of
                  None \<Rightarrow> None
                | Some v \<Rightarrow> map_option (apfst (Cons v)) (read_chars t)))
      else if u < 32 then None
      else map_option (apfst (Cons u)) (read_chars s))"

definition digit_unit :: "nat \<Rightarrow> bool" where
  "digit_unit u \<longleftrightarrow> 48 \<le> u \<and> u \<le> 57"

definition read_number :: "units \<Rightarrow> nat \<times> units" where
  "read_number s = (foldl (\<lambda>n u. 10 * n + (u - 48)) 0 (takeWhile digit_unit s), dropWhile digit_unit s)"

text \<open>Values and the members of an object after its opening brace; the fuel bounds the depth and the fields.\<close>

fun read_value :: "nat \<Rightarrow> units \<Rightarrow> (log_value \<times> units) option"
  and read_members :: "nat \<Rightarrow> units \<Rightarrow> (log_fields \<times> units) option" where
  "read_value 0 s = None"
| "read_value (Suc n) [] = None"
| "read_value (Suc n) (u # s) =
     (if u = 34 then map_option (apfst LogText) (read_chars s)
      else if digit_unit u then Some (apfst LogNumber (read_number (u # s)))
      else if u = 123 then
        (case s of
           [] \<Rightarrow> None
         | c # t \<Rightarrow> if c = 125 then Some (LogObject [], t) else map_option (apfst LogObject) (read_members n s))
      else None)"
| "read_members 0 s = None"
| "read_members (Suc n) [] = None"
| "read_members (Suc n) (u # s) =
     (if u \<noteq> 34 then None
      else case read_chars s of
          None \<Rightarrow> None
        | Some (k, s) \<Rightarrow>
            (case s of
               [] \<Rightarrow> None
             | c # s \<Rightarrow>
                 if c \<noteq> 58 then None
                 else case read_value n s of
                     None \<Rightarrow> None
                   | Some (v, s) \<Rightarrow>
                       (case s of
                          [] \<Rightarrow> None
                        | c # s \<Rightarrow>
                            if c = 125 then Some ([(k, v)], s)
                            else if c = 44 then map_option (apfst (Cons (k, v))) (read_members n s)
                            else None)))"

definition read_line :: "units \<Rightarrow> log_fields option" where
  "read_line s =
     (case read_value (length s) s of Some (LogObject fs, []) \<Rightarrow> Some fs | _ \<Rightarrow> None)"

section \<open>Strings\<close>

text \<open>Every unit of a value is a 16-bit number.\<close>

fun value_ok :: "log_value \<Rightarrow> bool" and fields_ok :: "log_fields \<Rightarrow> bool" where
  "value_ok (LogText s) = list_all (\<lambda>u. u < 65536) s"
| "value_ok (LogNumber n) = True"
| "value_ok (LogObject fs) = fields_ok fs"
| "fields_ok [] = True"
| "fields_ok ((k, v) # fs) = (list_all (\<lambda>u. u < 65536) k \<and> value_ok v \<and> fields_ok fs)"

lemma unhex_unit [simp]: "n < 16 \<Longrightarrow> unhex (hex_unit n) = n"
  by (auto simp: unhex_def hex_unit_def)

lemma unhex4_hex4: "u < 65536 \<Longrightarrow> hex4 u = [a, b, c, d] \<Longrightarrow> unhex4 a b c d = u"
  using nibbles [of u] by (auto simp: unhex4_def hex4_def)

lemma long_escape_short: "short_escape u = Some c \<Longrightarrow> long_escape c = Some u \<and> c \<noteq> 117"
  by (auto simp: short_escape_def long_escape_def split: if_splits)

lemma short_escape_None: "short_escape u = None \<Longrightarrow> u \<noteq> 34 \<and> u \<noteq> 92"
  by (auto simp: short_escape_def split: if_splits)

lemma read_json_unit:
  assumes "u < 65536"
  shows "read_chars (json_unit u @ s) = map_option (apfst (Cons u)) (read_chars s)"
proof (cases "short_escape u")
  case (Some c)
  then show ?thesis using long_escape_short [OF Some] by (simp add: json_unit_def)
next
  case None
  obtain a b c d where h: "hex4 u = [a, b, c, d]" by (simp add: hex4_def)
  show ?thesis
    using None short_escape_None [OF None] unhex4_hex4 [OF assms h] by (simp add: json_unit_def h)
qed

lemma read_json_points:
  assumes "list_all (\<lambda>u. u < 65536) s"
  shows "read_chars (concat (map json_point (code_points s)) @ 34 # r) = Some (s, r)"
  using assms
proof (induction s rule: code_points.induct)
  case (1 a b s)
  show ?case
  proof (cases "0xd800 \<le> a \<and> a \<le> 0xdbff \<and> 0xdc00 \<le> b \<and> b \<le> 0xdfff")
    case True
    with 1 show ?thesis by (simp add: json_point_def)
  next
    case False
    with 1 show ?thesis by (auto simp: json_point_def read_json_unit)
  qed
next
  case (2 a)
  then show ?case by (simp add: json_point_def read_json_unit)
qed simp

lemma read_json_quote:
  "list_all (\<lambda>u. u < 65536) s \<Longrightarrow> json_quote s @ r = 34 # t \<Longrightarrow> read_chars t = Some (s, r)"
  using read_json_points [of s r] by (auto simp: json_quote_def)

section \<open>Numbers\<close>

lemma ascii_digits: "list_all is_digit s \<Longrightarrow> list_all digit_unit (ascii s)"
  by (simp add: ascii_def list_all_iff is_digit_def code_in_def digit_unit_def)

lemma ascii_value: "foldl (\<lambda>n u. 10 * n + (u - 48)) m (ascii s) = foldl (\<lambda>n c. 10 * n + digit_val c) m s"
  by (induction s arbitrary: m) (simp_all add: ascii_def digit_val_def)

lemma read_number_printed:
  assumes "r = [] \<or> \<not> digit_unit (hd r)"
  shows "read_number (ascii (dec_str n) @ r) = (n, r)"
proof -
  have d: "list_all digit_unit (ascii (dec_str n))"
    using dec_str_digits [of n] by (intro ascii_digits) (simp add: all_digits_def)
  have "takeWhile digit_unit r = []" "dropWhile digit_unit r = r"
    using assms by (cases r; simp)+
  with d have "takeWhile digit_unit (ascii (dec_str n) @ r) = ascii (dec_str n)"
    "dropWhile digit_unit (ascii (dec_str n) @ r) = r"
    by (auto simp: list_all_iff takeWhile_append2 dropWhile_append2)
  moreover have "foldl (\<lambda>n u. 10 * n + (u - 48)) 0 (ascii (dec_str n)) = n"
    using dec_val_str [of n] by (simp add: ascii_value dec_val_def)
  ultimately show ?thesis by (simp add: read_number_def)
qed

lemma ascii_dec_str_Cons: "\<exists>u s. ascii (dec_str n) = u # s \<and> digit_unit u"
proof -
  have "dec_str n \<noteq> []" "list_all is_digit (dec_str n)" using dec_str_digits [of n] by (simp_all add: all_digits_def)
  then obtain c t where ct: "dec_str n = c # t" by (cases "dec_str n") auto
  with ascii_digits [OF \<open>list_all is_digit (dec_str n)\<close>] show ?thesis by (simp add: ascii_def)
qed

section \<open>Values\<close>

lemma json_quote_Cons: "\<exists>t. json_quote s = 34 # t"
  by (simp add: json_quote_def)

lemma read_printed:
  shows "value_ok v \<Longrightarrow> r = [] \<or> \<not> digit_unit (hd r) \<Longrightarrow> length (json_text v) \<le> n
      \<Longrightarrow> read_value n (json_text v @ r) = Some (v, r)"
    and "fields_ok fs \<Longrightarrow> fs \<noteq> [] \<Longrightarrow> length (json_members fs) \<le> n
      \<Longrightarrow> read_members n (json_members fs @ 125 # r) = Some (fs, r)"
proof (induction v and fs arbitrary: n r and n r rule: json_text_json_members.induct)
  case (1 s)
  then obtain t m where t: "json_quote s @ r = 34 # t" and n: "n = Suc m"
    by (cases n) (auto simp: json_quote_def)
  from read_json_quote [OF _ t] 1(1) show ?case by (simp add: t n)
next
  case (2 k)
  obtain u s where us: "ascii (dec_str k) = u # s" "digit_unit u" using ascii_dec_str_Cons by blast
  with 2 obtain m where n: "n = Suc m" by (cases n) auto
  have "read_number (u # s @ r) = (k, r)" using read_number_printed [OF 2(2), of k] us by simp
  moreover have "u \<noteq> 34" using us(2) by (auto simp: digit_unit_def)
  ultimately show ?case using us by (simp add: n)
next
  case (3 fs)
  then obtain m where n: "n = Suc m" by (cases n) auto
  show ?case
  proof (cases fs)
    case Nil
    then show ?thesis by (simp add: n digit_unit_def)
  next
    case (Cons f gs)
    then obtain t where t: "json_members fs @ 125 # r = 34 # t"
      by (cases f; cases gs) (auto simp: json_quote_def)
    have "read_members m (json_members fs @ 125 # r) = Some (fs, r)"
      using 3 Cons by (auto simp: n)
    then show ?thesis by (simp add: n t digit_unit_def)
  qed
next
  case 4
  then show ?case by simp
next
  case (5 k v)
  then obtain m where n: "n = Suc m" by (cases n) (auto simp: json_quote_def)
  obtain t where t: "json_quote k @ 58 # json_text v @ 125 # r = 34 # t" using json_quote_Cons [of k] by auto
  have "read_chars t = Some (k, 58 # json_text v @ 125 # r)" using read_json_quote [OF _ t] 5 by simp
  moreover have "read_value m (json_text v @ 125 # r) = Some (v, 125 # r)"
    using 5 by (intro 5(1)) (auto simp: n digit_unit_def)
  ultimately show ?case using t by (simp add: n)
next
  case (6 k v f fs)
  then obtain m where n: "n = Suc m" by (cases n) (auto simp: json_quote_def)
  let ?rest = "json_members (f # fs) @ 125 # r"
  obtain t where t: "json_quote k @ 58 # json_text v @ 44 # ?rest = 34 # t" using json_quote_Cons [of k] by auto
  have "read_chars t = Some (k, 58 # json_text v @ 44 # ?rest)" using read_json_quote [OF _ t] 6 by simp
  moreover have "read_value m (json_text v @ 44 # ?rest) = Some (v, 44 # ?rest)"
    using 6 by (intro 6(1)) (auto simp: n digit_unit_def)
  moreover have "read_members m ?rest = Some (f # fs, r)"
    using 6 by (intro 6(2)) (auto simp: n)
  ultimately show ?case using t by (simp add: n)
qed

section \<open>One line\<close>

lemma hex4_visible: "v \<in> set (hex4 u) \<Longrightarrow> 32 \<le> v"
  by (auto simp: hex4_def hex_unit_def)

lemma json_unit_visible: "v \<in> set (json_unit u) \<Longrightarrow> 32 \<le> v"
proof (cases "short_escape u")
  case None
  then show "v \<in> set (json_unit u) \<Longrightarrow> 32 \<le> v"
    by (auto simp: json_unit_def dest: hex4_visible split: if_splits)
next
  case (Some c)
  then have "c \<in> {34, 92, 98, 116, 110, 102, 114}" by (auto simp: short_escape_def split: if_splits)
  with Some show "v \<in> set (json_unit u) \<Longrightarrow> 32 \<le> v" by (auto simp: json_unit_def)
qed

lemma json_point_visible: "p \<in> set (code_points s) \<Longrightarrow> v \<in> set (json_point p) \<Longrightarrow> 32 \<le> v"
proof (induction s rule: code_points.induct)
  case (1 a b s)
  show ?case
  proof (cases "0xd800 \<le> a \<and> a \<le> 0xdbff \<and> 0xdc00 \<le> b \<and> b \<le> 0xdfff")
    case True
    with 1 show ?thesis by (auto simp: json_point_def)
  next
    case False
    with 1 have "p = [a] \<or> p \<in> set (code_points (b # s))" by auto
    with False 1 show ?thesis by (auto simp: json_point_def dest: json_unit_visible)
  qed
qed (auto simp: json_point_def dest: json_unit_visible)

lemma json_quote_visible: "v \<in> set (json_quote s) \<Longrightarrow> 32 \<le> v"
  using json_point_visible by (fastforce simp: json_quote_def)

lemma json_visible:
  shows "u \<in> set (json_text v) \<Longrightarrow> 32 \<le> u" and "u \<in> set (json_members fs) \<Longrightarrow> 32 \<le> u"
proof (induction v and fs rule: json_text_json_members.induct)
  case (2 n)
  have "list_all digit_unit (ascii (dec_str n))"
    using dec_str_digits [of n] by (intro ascii_digits) (simp add: all_digits_def)
  with 2 show ?case by (auto simp: list_all_iff digit_unit_def)
qed (auto dest: json_quote_visible)

lemma read_line_logLine: "fields_ok fields \<Longrightarrow> read_line (logLine fields) = Some fields"
  using read_printed(1) [of "LogObject fields" "[]" "length (logLine fields)"]
  by (simp add: read_line_def logLine_def)

text \<open>
  C26. One event is one line, and says what was logged. Whatever strings the fields carry, the
  printed event contains no line break and no other control character below 32, and reading it
  back as JSON gives exactly the fields, names, values and order, that the code passed: no
  value can end its string early, add a field or change another one.
\<close>

theorem log_line_reads_back:
  assumes "fields_ok fields"
  shows "read_line (logLine fields) = Some fields \<and> list_all (\<lambda>u. 32 \<le> u) (logLine fields)"
  using read_line_logLine [OF assms] json_visible(1) [of _ "LogObject fields"] by (auto simp: list_all_iff logLine_def)

definition demo_forgery :: log_fields where
  "demo_forgery =
     [(ascii ''event'', LogText (ascii ''x'')),
      (ascii ''key'', LogText (10 # 34 # ascii '',admin:'' @ [92, 0xd800])),
      (ascii ''sig'', LogObject [(ascii ''length'', LogNumber 128)])]"

theorem log_line_reads_back_witness:
  "read_line (logLine demo_forgery) = Some demo_forgery \<and> list_all (\<lambda>u. 32 \<le> u) (logLine demo_forgery)"
  by (rule log_line_reads_back) (simp add: demo_forgery_def ascii_def)

text \<open>On Latin-1 text the printer is the one that the rest of the development uses.\<close>

lemma latin1_no_surrogate: "\<not> surrogate (of_char c)" "\<not> 0xd800 \<le> (of_char c :: nat)"
proof -
  have "(of_char c :: nat) < 256" by simp
  then show "\<not> surrogate (of_char c)" "\<not> 0xd800 \<le> (of_char c :: nat)" unfolding surrogate_def by linarith+
qed

lemma json_quote_latin1: "json_quote (ascii s) = ascii (json_string s)"
proof -
  have "code_points (ascii s) = map (\<lambda>c. [of_char c]) s"
  proof (induction s)
    case (Cons a s)
    with latin1_no_surrogate(2) [of a] show ?case by (cases s) (simp_all add: ascii_def)
  qed (simp add: ascii_def)
  moreover have "json_unit (of_char c) = ascii (json_escape c)" for c
  proof -
    have low: "hex4 n = ascii (''00'' @ [hex_char (n div 16), hex_char (n mod 16)])" if "n < 32" for n :: nat
      using that by (simp add: hex4_def ascii_def hex_unit_def hex_char_def)
    show ?thesis using latin1_no_surrogate(1) [of c] low [of "of_char c"]
      by (simp add: json_unit_def short_escape_def json_escape_def Let_def ascii_def)
  qed
  ultimately show ?thesis by (simp add: json_quote_def json_string_def json_point_def ascii_def map_concat comp_def)
qed

end
