(* ===== verification/Request_Logs.thy ===== *)
theory Request_Logs
  imports Log_Line Query Webhook Guard
begin

text \<open>
  What requests write to the log. The log lines of \<open>src/auth/secp256k1.utils.ts\<close>,
  \<open>src/auth/auth.service.ts\<close>, \<open>src/auth/spark-signature.guard.ts\<close>, \<open>src/query/query.service.ts\<close> and
  \<open>src/swap/flashnet-webhook.controller.ts\<close>: the handlers that see values of unknown callers. Each
  logged version returns the lines beside the result; a lemma shows that the result is the one of
  the handler that the other theories verify. The loading of the curve library is here too,
  because its failure is only visible in the log.
\<close>

section \<open>Entries\<close>

text \<open>A message is a string that the code composed, or an object that the logger prints.\<close>

datatype log_entry = LogString units | LogFields log_fields

type_synonym 'a logged = "'a \<times> log_entry list"

definition text_field :: "js_string \<Rightarrow> units \<Rightarrow> units \<times> log_value" where
  "text_field name s = (ascii name, LogText s)"

definition number_field :: "js_string \<Rightarrow> nat \<Rightarrow> units \<times> log_value" where
  "number_field name n = (ascii name, LogNumber n)"

definition secret_field :: "js_string \<Rightarrow> js_string \<Rightarrow> units \<times> log_value" where
  "secret_field name s = (ascii name, LogObject [number_field ''length'' (describeSecret (Some (ascii s)))])"

definition event_line :: "js_string \<Rightarrow> log_fields \<Rightarrow> log_entry" where
  "event_line event fs = LogString (logLine (text_field ''event'' (ascii event) # fs))"

section \<open>Loading the curve library\<close>

text \<open>
  The native import, and the \<open>require\<close> that replaces it where dynamic import is not available. A
  module comes with what it throws when a check of a signature fails.
\<close>

record load_error =
  load_code :: "js_string option"
  load_thrown :: thrown

record secp_module =
  sm_lib :: secp_lib
  sm_thrown :: "buffer \<Rightarrow> buffer \<Rightarrow> buffer \<Rightarrow> thrown"

record secp_runtime =
  rt_import :: "load_error + secp_module"
  rt_require :: "load_error + secp_module"

definition isDynamicImportUnavailable :: "load_error \<Rightarrow> bool" where
  "isDynamicImportUnavailable e \<longleftrightarrow> load_code e = Some ''ERR_VM_DYNAMIC_IMPORT_CALLBACK_MISSING_FLAG''"

definition loadSecp256k1 :: "secp_runtime \<Rightarrow> load_error + secp_module" where
  "loadSecp256k1 R =
     (case rt_import R of
        Inr m \<Rightarrow> Inr m
      | Inl e \<Rightarrow> if isDynamicImportUnavailable e then rt_require R else Inl e)"

text \<open>To a caller that catches everything, a library that does not load is one that always throws.\<close>

definition runtime_lib :: "secp_runtime \<Rightarrow> secp_lib" where
  "runtime_lib R =
     (case loadSecp256k1 R of
        Inl e \<Rightarrow> \<lparr>secp_verify = (\<lambda>s m k. None), point_forms = (\<lambda>k. None)\<rparr>
      | Inr m \<Rightarrow> sm_lib m)"

section \<open>Signature checks\<close>

definition library_answer :: "secp_runtime \<Rightarrow> js_string \<Rightarrow> buffer \<Rightarrow> js_string \<Rightarrow> thrown + bool" where
  "library_answer R sig m key =
     (case loadSecp256k1 R of
        Inl e \<Rightarrow> Inl (load_thrown e)
      | Inr M \<Rightarrow>
          (let s = finalSigBytes (hex_to_bytes sig); k = hex_to_bytes key
           in case secp_verify (sm_lib M) s m k of None \<Rightarrow> Inl (sm_thrown M s m k) | Some b \<Rightarrow> Inr b))"

definition verify_failed :: "thrown \<Rightarrow> bool logged" where
  "verify_failed e = (False, [event_line ''secp256k1.verify_failed'' [text_field ''error'' (errorForLog e)]])"

definition verifySignature_logged :: "secp_runtime \<Rightarrow> sig_message \<Rightarrow> js_string \<Rightarrow> js_string \<Rightarrow> bool logged" where
  "verifySignature_logged R message sig key =
     (if \<not> all_hex sig then (False, [event_line ''secp256k1.invalid_sig'' [secret_field ''sig'' sig]])
      else if \<not> key_shape key
      then (False, [event_line ''secp256k1.invalid_key''
              [text_field ''key'' (sanitizeForLog (ascii key) LOG_PUBKEY_MAX_LENGTH),
               number_field ''keyLength'' (length key)]])
      else case message of
          RawMessage m \<Rightarrow>
            (case library_answer R sig m key of Inl e \<Rightarrow> verify_failed e | Inr b \<Rightarrow> (b, []))
        | HexMessage h \<Rightarrow>
            if \<not> all_hex h
            then (False, [event_line ''secp256k1.invalid_message''
                    [text_field ''message'' (sanitizeForLog (ascii h) LOG_VALUE_MAX_LENGTH),
                     number_field ''messageLength'' (length h)]])
            else (case library_answer R sig (hex_to_bytes h) key of
                    Inl e \<Rightarrow> verify_failed e
                  | Inr True \<Rightarrow> (True, [])
                  | Inr False \<Rightarrow>
                      (case library_answer R sig (ascii_bytes h) key of
                         Inl e \<Rightarrow> verify_failed e
                       | Inr True \<Rightarrow>
                           (True, [event_line ''secp256k1.verified_utf8_message''
                              [text_field ''key'' (sanitizeForLog (ascii key) LOG_PUBKEY_MAX_LENGTH)]])
                       | Inr False \<Rightarrow> (False, []))))"

lemma library_answer_verify:
  "secp_verify (runtime_lib R) (finalSigBytes (hex_to_bytes sig)) x (hex_to_bytes key)
     = (case library_answer R sig x key of Inl e \<Rightarrow> None | Inr b \<Rightarrow> Some b)"
  by (cases "loadSecp256k1 R") (simp_all add: library_answer_def runtime_lib_def Let_def split: option.split)

lemma verifySignature_result: "fst (verifySignature_logged R m sig key) = verifySignature (runtime_lib R) m sig key"
proof (cases m)
  case (RawMessage x)
  then show ?thesis
    by (cases "library_answer R sig x key")
      (simp_all add: verifySignature_def verifySignature_logged_def verify_failed_def library_answer_verify)
next
  case (HexMessage h)
  consider (thrown) e where "library_answer R sig (hex_to_bytes h) key = Inl e"
    | (yes) "library_answer R sig (hex_to_bytes h) key = Inr True"
    | (no) "library_answer R sig (hex_to_bytes h) key = Inr False"
    by (cases "library_answer R sig (hex_to_bytes h) key") auto
  then show ?thesis
  proof cases
    case no
    then show ?thesis
      by (cases "library_answer R sig (ascii_bytes h) key")
        (auto simp: HexMessage verifySignature_def verifySignature_logged_def verify_failed_def
          library_answer_verify split: bool.splits)
  qed (simp_all add: HexMessage verifySignature_def verifySignature_logged_def verify_failed_def library_answer_verify)
qed

section \<open>Registration\<close>

definition invalid_k1 :: "js_string \<Rightarrow> log_entry" where
  "invalid_k1 k1 = event_line ''lnurl_auth.invalid_k1''
     [text_field ''k1'' (sanitizeForLog (ascii k1) LOG_VALUE_MAX_LENGTH), number_field ''k1Length'' (length k1)]"

definition invalid_key :: "js_string \<Rightarrow> log_entry" where
  "invalid_key key = event_line ''lnurl_auth.invalid_key''
     [text_field ''key'' (sanitizeForLog (ascii key) LOG_PUBKEY_MAX_LENGTH), number_field ''keyLength'' (length key)]"

text \<open>
  The warning about reserved names of the configuration that are ignored, written by the first parse
  of a value: \<open>parsed\<close> are the values that the table of the process already has.
\<close>

definition ignored_entries :: "js_string list \<Rightarrow> js_string option \<Rightarrow> log_entry list" where
  "ignored_entries parsed raw =
     (case raw of
        None \<Rightarrow> []
      | Some r \<Rightarrow>
          if r = [] \<or> r \<in> set parsed then []
          else let entries = extra_entries r; invalid = filter (\<lambda>e. \<not> USERNAME_SHAPE e) entries;
                   skeletons = extraSkeletons raw
               in if 0 < length invalid \<or> length skeletons < length entries - length invalid
                  then [LogFields [text_field ''event'' (ascii ''reserved_usernames.ignored_entries''),
                          number_field ''ignored'' (length entries - length skeletons)]]
                  else [])"

definition bind_checks_logged ::
  "js_string list \<Rightarrow> collation \<Rightarrow> secp_runtime \<Rightarrow> js_string option \<Rightarrow> time_ms \<Rightarrow> js_string \<Rightarrow> js_string \<Rightarrow> js_string \<Rightarrow> js_string
   \<Rightarrow> db \<Rightarrow> (auth_error + js_string) logged" where
  "bind_checks_logged parsed ck R extra now k1 sig key rawUsername d =
     (case normalizeUsername rawUsername of
        None \<Rightarrow> (Inl UsernameFormat, [])
      | Some username \<Rightarrow>
     (case nonce_by_k1 ck k1 d of
        None \<Rightarrow> (Inl (AuthReason ''Invalid k1''), [])
      | Some nonce \<Rightarrow>
          if usedAt nonce \<noteq> None then (Inl (AuthReason ''k1 already used''), [])
          else if an_expiresAt nonce < now then (Inl (AuthReason ''k1 expired''), [])
          else if \<not> hex_k1 k1 then (Inl (AuthReason ''Invalid k1''), [invalid_k1 k1])
          else if \<not> all_hex sig
          then (Inl (AuthReason ''Invalid signature''),
                [event_line ''lnurl_auth.invalid_sig'' [secret_field ''sig'' sig]])
          else if \<not> key_shape key then (Inl (AuthReason ''Invalid key''), [invalid_key key])
          else let (ok, lines) = verifySignature_logged R (HexMessage k1) sig key
               in if \<not> ok then (Inl (AuthReason ''Invalid signature''), lines)
                  else (bind_result (rejectReservedUsername extra username) (\<lambda>_.
                        bind_result (rejectKeyWithActiveName ck (runtime_lib R) key d) (\<lambda>_.
                          case name_by_username ck username d of
                            Some _ \<Rightarrow> Inl (AuthReason ''Username already taken'')
                          | None \<Rightarrow> Inr username)), lines @ ignored_entries parsed extra)))"

lemma bind_checks_result:
  "fst (bind_checks_logged parsed ck R extra now k1 sig key raw d) = bind_checks ck (runtime_lib R) extra now k1 sig key raw d"
  by (simp add: bind_checks_logged_def bind_checks_def Let_def case_prod_beta verifySignature_result
      split: option.split)

section \<open>Lookups\<close>

text \<open>The text of an error of \<open>encodeSparkAddress\<close>; what the libraries throw is an argument.\<close>

definition spark_message :: "(spark_error \<Rightarrow> thrown) \<Rightarrow> spark_error \<Rightarrow> thrown" where
  "spark_message lib e =
     (case e of
        OddHexLength \<Rightarrow> ErrorObject (ascii ''Error'') (ascii ''Hex string must have even length.'')
      | InvalidHexByte b \<Rightarrow> ErrorObject (ascii ''Error'') (ascii (''Invalid hex byte: '' @ b))
      | PubkeyLength n \<Rightarrow> ErrorObject (ascii ''Error'')
          (ascii (''Pubkey must be 33 bytes (compressed) or 65 bytes (uncompressed). Got '' @ dec_str n @ ''.''))
      | PubkeyPrefix n \<Rightarrow> ErrorObject (ascii ''Error'')
          (ascii (''Invalid compressed public key prefix. Expected 02 or 03, got ''
             @ (if n < 16 then [hex_char n] else [hex_char (n div 16), hex_char (n mod 16)]) @ ''.''))
      | _ \<Rightarrow> lib e)"

definition spark_network :: "query_env \<Rightarrow> js_string" where
  "spark_network E = (if truthy (qe_sparkNetwork E) then nullish (qe_sparkNetwork E) [] else ''MAINNET'')"

definition spark_address_logged :: "(spark_error \<Rightarrow> thrown) \<Rightarrow> query_env \<Rightarrow> LightningName \<Rightarrow> js_string logged" where
  "spark_address_logged lib E r =
     (case encodeSparkAddress (qe_b32m E) (qe_secp E) (linkingPubKeyHex r) (spark_network E) of
        Inl e \<Rightarrow> ([], [event_line ''query.spark_address_encoding_failed''
                      [text_field ''error'' (errorForLog (spark_message lib e))]])
      | Inr a \<Rightarrow> (a, []))"

definition queryByPubKey_logged ::
  "(spark_error \<Rightarrow> thrown) \<Rightarrow> query_env \<Rightarrow> js_string \<Rightarrow> db \<Rightarrow> (query_error + QueryResponse option) logged" where
  "queryByPubKey_logged lib E pubKey d =
     (let asked = event_line ''query.by_pubkey''
                    [text_field ''pubKey'' (sanitizeForLog (ascii pubKey) LOG_PUBKEY_MAX_LENGTH)]
      in case findLightningNameByPubKey E pubKey d of
           None \<Rightarrow> (Inr None, [asked])
         | Some r \<Rightarrow>
             (case domain_of (qe_base E) of
                Inl e \<Rightarrow> (Inl (QueryBaseUrl e), [asked])
              | Inr (url, domain) \<Rightarrow>
                  let (sparkAddress, lines) = spark_address_logged lib E r
                  in (Inr (Some \<lparr>qn_username = ln_username r,
                        qn_lightningAddress = ln_username r @ ''@'' @ domain,
                        qn_sparkAddress = sparkAddress, qn_publicKey = linkingPubKeyHex r\<rparr>), asked # lines)))"

text \<open>The rows are encoded concurrently; their lines are listed in the order of the rows.\<close>

definition queryByUsername_logged ::
  "(spark_error \<Rightarrow> thrown) \<Rightarrow> query_env \<Rightarrow> js_string \<Rightarrow> db \<Rightarrow> (query_error + QueryResponse list) logged" where
  "queryByUsername_logged lib E username d =
     (let asked = event_line ''query.by_username''
                    [text_field ''username'' (sanitizeForLog (ascii username) LOG_VALUE_MAX_LENGTH)]
      in case findLightningNameByUsername E username d of
           Inl e \<Rightarrow> (Inl e, [asked])
         | Inr rows \<Rightarrow>
             if rows = [] then (Inr [], [asked])
             else (case domain_of (qe_base E) of
                     Inl e \<Rightarrow> (Inl (QueryBaseUrl e), [asked])
                   | Inr (url, domain) \<Rightarrow>
                       (Inr (map (\<lambda>r. \<lparr>qn_username = ln_username r,
                          qn_lightningAddress = ln_username r @ ''@'' @ domain,
                          qn_sparkAddress = fst (spark_address_logged lib E r),
                          qn_publicKey = linkingPubKeyHex r\<rparr>) rows),
                        asked # concat (map (\<lambda>r. snd (spark_address_logged lib E r)) rows))))"

lemma spark_address_result: "fst (spark_address_logged lib E r) = spark_address_or_empty E r"
  by (simp add: spark_address_logged_def spark_address_or_empty_def spark_network_def Let_def split: sum.split)

lemma queryByPubKey_result: "fst (queryByPubKey_logged lib E pubKey d) = queryByPubKey E pubKey d"
  by (simp add: queryByPubKey_logged_def queryByPubKey_def query_response_def Let_def case_prod_beta
      spark_address_result split: option.split sum.split)

lemma queryByUsername_result: "fst (queryByUsername_logged lib E u d) = queryByUsername E u d"
  by (auto simp: queryByUsername_logged_def queryByUsername_def query_response_def Let_def
      spark_address_result split: sum.split)

section \<open>Signed requests\<close>

definition skew_warning :: "js_string \<Rightarrow> log_entry" where
  "skew_warning raw = LogString (ascii ''AUTH_MAX_SKEW_MS=\"'' @ sanitizeForLog (ascii raw) LOG_VALUE_MAX_LENGTH
     @ ascii ''\" is not a positive number '' @ [0x2014] @ ascii '' falling back to 60000ms'')"

definition read_max_skew_logged :: "js_string option \<Rightarrow> rat logged" where
  "read_max_skew_logged raw =
     (case raw of
        None \<Rightarrow> (DEFAULT_MAX_SKEW_MS, [])
      | Some s \<Rightarrow>
          if s = [] then (DEFAULT_MAX_SKEW_MS, [])
          else (case js_ToNumber s of
              Finite x \<Rightarrow> if x \<le> 0 then (DEFAULT_MAX_SKEW_MS, [skew_warning s]) else (x, [])
            | _ \<Rightarrow> (DEFAULT_MAX_SKEW_MS, [skew_warning s])))"

definition guard_check_logged ::
  "secp_runtime \<Rightarrow> guard_lib \<Rightarrow> collation \<Rightarrow> rat \<Rightarrow> time_ms \<Rightarrow> guard_request \<Rightarrow> db
   \<Rightarrow> (guard_error + signed_request) logged" where
  "guard_check_logged R L ck maxSkewMs now req d =
     (if \<not> truthy (gr_pubkey req) \<or> \<not> truthy (gr_timestamp req) \<or> \<not> truthy (gr_signature req)
      then (Inl (Unauthorized ''Missing auth headers''), [])
      else let pubkey = the (gr_pubkey req); timestamp = the (gr_timestamp req); signature = the (gr_signature req) in
      case js_ToNumber timestamp of
        NaN \<Rightarrow> (Inl (Unauthorized ''Timestamp out of range''), [])
      | Infinite _ \<Rightarrow> (Inl (Unauthorized ''Timestamp out of range''), [])
      | Finite ts \<Rightarrow>
          if maxSkewMs < \<bar>of_int now - ts\<bar> then (Inl (Unauthorized ''Timestamp out of range''), [])
          else let meth = toUpperCase (gr_method req);
                   message = canonical_message meth (gr_originalUrl req) timestamp (body_hash L meth (gr_rawBody req));
                   normalizedPubkey = toLowerCase pubkey;
                   (valid, lines) = verifySignature_logged R (RawMessage (utf8_bytes message)) signature normalizedPubkey in
            if \<not> valid then (Inl (Unauthorized ''Invalid signature''), lines)
            else case find (\<lambda>r. text_eq ck (linkingPubKeyHex r) normalizedPubkey \<and> ln_active r) (lightning_names d) of
                None \<Rightarrow> (Inl (Unauthorized ''Unknown pubkey''), lines)
              | Some r \<Rightarrow>
                  (case user_by_id ck (ln_userId r) d of
                     None \<Rightarrow> (Inl UserMissing, lines)
                   | Some user \<Rightarrow> (Inr \<lparr>sr_user = user, sr_pubkey = normalizedPubkey, sr_method = meth,
                                       sr_message = message, sr_ts = ts\<rparr>, lines)))"

definition replay_lines :: "guard_error + unit \<Rightarrow> js_string \<Rightarrow> log_entry list" where
  "replay_lines answer pubkey =
     (let shown = sanitizeForLog (ascii pubkey) 16
      in if answer = Inl (Unauthorized ''Replayed request rejected'')
         then [LogString (ascii ''Replayed request rejected for pubkey '' @ shown)]
         else if answer = Inl (Unauthorized ''Too many signatures in flight'')
         then [LogString (ascii ''Replay cache full for pubkey '' @ shown)]
         else [])"

definition canActivate_logged ::
  "secp_runtime \<Rightarrow> guard_lib \<Rightarrow> collation \<Rightarrow> rat \<Rightarrow> time_ms \<Rightarrow> time_ms \<Rightarrow> guard_request \<Rightarrow> db \<Rightarrow> cache
   \<Rightarrow> ((guard_error + User) \<times> cache) logged" where
  "canActivate_logged R L ck maxSkewMs now now' req d seen =
     (let (checked, lines) = guard_check_logged R L ck maxSkewMs now req d
      in case checked of
           Inl e \<Rightarrow> ((Inl e, seen), lines)
         | Inr s \<Rightarrow>
             if sr_method s \<in> set REPLAY_EXEMPT_METHODS then ((Inr (sr_user s), seen), lines)
             else (case rejectReplay L maxSkewMs now' (sr_pubkey s) (sr_message s) (sr_ts s) seen of
                     (answer, seen') \<Rightarrow>
                       ((map_sum id (\<lambda>_. sr_user s) answer, seen'), lines @ replay_lines answer (sr_pubkey s))))"

lemma read_max_skew_result: "fst (read_max_skew_logged raw) = read_max_skew raw"
  by (simp add: read_max_skew_logged_def read_max_skew_def split: option.split js_number.split)

lemma guard_check_result:
  "fst (guard_check_logged R L ck skew now req d) = guard_check (L\<lparr>gl_secp := runtime_lib R\<rparr>) ck skew now req d"
  by (simp add: guard_check_logged_def guard_check_def Let_def case_prod_beta verifySignature_result body_hash_def
      split: js_number.split option.split)

lemma rejectReplay_lib: "rejectReplay (L\<lparr>gl_secp := S\<rparr>) = rejectReplay L"
  by (intro ext) (simp add: rejectReplay_def)

lemma canActivate_result:
  "fst (canActivate_logged R L ck skew now now' req d seen)
   = canActivate (L\<lparr>gl_secp := runtime_lib R\<rparr>) ck skew now now' req d seen"
  by (simp add: canActivate_logged_def canActivate_def Let_def case_prod_beta guard_check_result rejectReplay_lib
      split: sum.split)

section \<open>Webhooks\<close>

definition bool_text :: "bool \<Rightarrow> units" where
  "bool_text b = ascii (if b then ''true'' else ''false'')"

text \<open>
  The lines that the receiver writes itself; the parser says what it throws, or that a value has
  not the shape of a payload. The lines of the services it calls, the client's about a missing secret
  and the swap service's about a transition, are not part of it.
\<close>

definition handleWebhook_logged ::
  "(buffer \<Rightarrow> js_string \<Rightarrow> js_string \<Rightarrow> bool) \<Rightarrow> (buffer \<Rightarrow> thrown + FlashnetWebhookPayload option) \<Rightarrow> int
   \<Rightarrow> swap_env \<Rightarrow> js_string \<Rightarrow> webhook_request \<Rightarrow> db \<Rightarrow> (webhook_response \<times> db) logged" where
  "handleWebhook_logged verify parse maxSkewMs E url req d =
     (case wr_rawBody req of
        None \<Rightarrow> ((RawBodyUnavailable, d), [LogString (ascii ''raw body missing on '' @ sanitizeForLog (ascii url) 64)])
      | Some rawBody \<Rightarrow>
          (let signature = nullish (wr_signature req) []; timestamp = nullish (wr_timestamp req) [] in
           if signature = [] \<or> timestamp = []
           then ((MissingHeaders, d),
                 [LogString (ascii ''missing HMAC headers (sig='' @ bool_text (signature \<noteq> [])
                    @ ascii '' ts='' @ bool_text (timestamp \<noteq> []) @ ascii '')'')])
           else if \<not> isFreshTimestamp timestamp (env_now E) maxSkewMs
           then ((TimestampOutOfRange, d),
                 [LogFields [text_field ''event'' (ascii ''flashnet.webhook_stale_timestamp''),
                    number_field ''timestampLength'' (length timestamp)]])
           else if \<not> verify rawBody signature timestamp
           then ((InvalidSignature, d),
                 [LogString (ascii ''invalid HMAC signature (ts='' @ sanitizeForLog (ascii timestamp) 16 @ ascii '')'')])
           else case parse rawBody of
               Inl e \<Rightarrow> ((NoContent, d), [LogString (ascii ''webhook body parse error: '' @ errorForLog e)])
             | Inr None \<Rightarrow> ((BodyTypeError, d), [])
             | Inr (Some payload) \<Rightarrow>
                 (case applyWebhookEvent E (payload\<lparr>wp_timestamp := timestamp\<rparr>) d of
                    Inl e \<Rightarrow> ((ServerError e, d), [])
                  | Inr d' \<Rightarrow> ((NoContent, d'), []))))"

lemma handleWebhook_result:
  "fst (handleWebhook_logged verify parse skew E url req d)
   = handleWebhook verify (\<lambda>b. case parse b of Inl e \<Rightarrow> NotJson | Inr None \<Rightarrow> WrongShape | Inr (Some p) \<Rightarrow> Parsed p) skew E req d"
  by (simp add: handleWebhook_logged_def handleWebhook_def Let_def split: option.split sum.split)

section \<open>Plain entries\<close>

definition plain :: "units \<Rightarrow> bool" where
  "plain s \<longleftrightarrow> list_all (\<lambda>u. \<not> control_character u) s"

fun plain_value :: "log_value \<Rightarrow> bool" and plain_fields :: "log_fields \<Rightarrow> bool" where
  "plain_value (LogText s) = plain s"
| "plain_value (LogNumber n) = True"
| "plain_value (LogObject fs) = plain_fields fs"
| "plain_fields [] = True"
| "plain_fields ((k, v) # fs) = (plain k \<and> plain_value v \<and> plain_fields fs)"

definition plain_entry :: "log_entry \<Rightarrow> bool" where
  "plain_entry e = (case e of LogString s \<Rightarrow> plain s | LogFields fs \<Rightarrow> plain_fields fs)"

named_theorems plain_simps \<open>texts and entries without control characters\<close>

lemma plain_app [plain_simps]:
  "plain []" "plain (u # s) \<longleftrightarrow> \<not> control_character u \<and> plain s" "plain (s @ t) \<longleftrightarrow> plain s \<and> plain t"
  by (simp_all add: plain_def)

lemma plain_sanitized [plain_simps]: "plain (sanitizeForLog s n)" "plain (errorForLog e)"
  using sanitize_plain by (auto simp: plain_def list_all_iff errorForLog_def)

lemma plain_number [plain_simps]: "plain (ascii (dec_str n))"
  using dec_str_plain by (auto simp: plain_def list_all_iff)

lemma plain_hex4: "plain (hex4 u)"
  using hex_unit_plain by (simp add: plain_def hex4_def)

lemma plain_unit: "\<not> control_character u \<Longrightarrow> plain (json_unit u)"
  using plain_hex4 [of u]
  by (auto simp: json_unit_def plain_app short_escape_def control_character_def split: if_splits option.splits)

lemma plain_points: "plain s \<Longrightarrow> plain (concat (map json_point (code_points s)))"
proof (induction s rule: code_points.induct)
  case (1 a b s)
  then show ?case by (auto simp: plain_app json_point_def plain_unit)
qed (auto simp: plain_app json_point_def plain_unit)

lemma plain_quote [plain_simps]: "plain s \<Longrightarrow> plain (json_quote s)"
  using plain_points by (simp add: json_quote_def plain_app control_character_def)

lemma plain_json:
  shows "plain_value v \<Longrightarrow> plain (json_text v)" and "plain_fields fs \<Longrightarrow> plain (json_members fs)"
  by (induction v and fs rule: json_text_json_members.induct) (auto simp: plain_simps control_character_def)

lemma plain_ascii: "list_all (\<lambda>c. 32 \<le> (of_char c :: nat) \<and> (of_char c :: nat) < 127) s \<Longrightarrow> plain (ascii s)"
  using ascii_plain by (auto simp: plain_def list_all_iff)

lemma plain_event [plain_simps]:
  "plain_entry (event_line event fs) = True" if "plain (ascii event)" "plain_fields fs"
  using that plain_json(1) [of "LogObject (text_field ''event'' (ascii event) # fs)"]
  by (simp add: plain_entry_def event_line_def logLine_def text_field_def plain_ascii)

lemma plain_one_field [plain_simps]:
  "plain_fields (text_field name s # fs) \<longleftrightarrow> plain (ascii name) \<and> plain s \<and> plain_fields fs"
  "plain_fields (number_field name n # fs) \<longleftrightarrow> plain (ascii name) \<and> plain_fields fs"
  "plain_fields (secret_field name t # fs) \<longleftrightarrow> plain (ascii name) \<and> plain_fields fs"
  by (simp_all add: text_field_def number_field_def secret_field_def plain_ascii)

lemma plain_entries [plain_simps]:
  "plain_entry (LogString s) = plain s" "plain_entry (LogFields fs) = plain_fields fs"
  by (simp_all add: plain_entry_def)

lemma plain_verify: "list_all plain_entry (snd (verifySignature_logged R m sig key))"
  by (auto simp: verifySignature_logged_def verify_failed_def plain_simps plain_ascii
      split: sig_message.splits sum.splits bool.splits)

lemma plain_ignored: "list_all plain_entry (ignored_entries parsed raw)"
  by (simp add: ignored_entries_def Let_def plain_simps plain_ascii split: option.split)

lemma plain_registration: "list_all plain_entry (snd (bind_checks_logged parsed ck R extra now k1 sig key raw d))"
  using plain_verify [of R "HexMessage k1" sig key] plain_ignored
  by (auto simp: bind_checks_logged_def invalid_k1_def invalid_key_def Let_def case_prod_beta plain_simps plain_ascii
      split: option.splits)

lemma plain_spark_address: "list_all plain_entry (snd (spark_address_logged lib E r))"
  by (auto simp: spark_address_logged_def plain_simps plain_ascii split: sum.splits)

lemma plain_lookups:
  "list_all plain_entry (snd (queryByPubKey_logged lib E pubKey d))"
  "list_all plain_entry (snd (queryByUsername_logged lib E username d))"
  using plain_spark_address
  by (auto simp: queryByPubKey_logged_def queryByUsername_logged_def Let_def case_prod_beta list_all_iff
      plain_simps plain_ascii split: option.splits sum.splits)

lemma plain_guard:
  "list_all plain_entry (snd (read_max_skew_logged setting))"
  "list_all plain_entry (snd (canActivate_logged R L ck skew now now' req d seen))"
proof -
  have dash: "\<not> control_character 0x2014" by (simp add: control_character_def)
  have "list_all plain_entry (replay_lines answer p)" for answer p
    by (simp add: replay_lines_def Let_def plain_simps plain_ascii)
  moreover have "list_all plain_entry (snd (guard_check_logged R L ck skew now req d))"
    using plain_verify
    by (auto simp: guard_check_logged_def Let_def case_prod_beta split: js_number.splits option.splits)
  ultimately show "list_all plain_entry (snd (canActivate_logged R L ck skew now now' req d seen))"
    by (simp add: canActivate_logged_def Let_def case_prod_beta split: sum.split)
  show "list_all plain_entry (snd (read_max_skew_logged setting))"
    by (simp add: read_max_skew_logged_def skew_warning_def dash plain_simps plain_ascii
        split: option.split js_number.split)
qed

lemma plain_webhook: "list_all plain_entry (snd (handleWebhook_logged verify parse skew E url req d))"
  by (auto simp: handleWebhook_logged_def Let_def bool_text_def plain_simps plain_ascii
      split: option.splits sum.splits)

text \<open>
  C24. No caller can forge or scramble the log. Whatever a request carries, whatever the store
  holds and whatever the libraries throw, every entry that registration, the signature check, the
  lookups, the guard of the signed endpoints and the webhook receiver write consists of printable
  units: no line break, no terminal escape, no invisible and no direction-changing character.
\<close>

theorem request_logs_plain:
  "list_all plain_entry
     (snd (verifySignature_logged R m sig key)
      @ snd (bind_checks_logged parsed ck R extra now k1 sig key raw d)
      @ snd (queryByPubKey_logged lib Q pubKey d) @ snd (queryByUsername_logged lib Q username d)
      @ snd (read_max_skew_logged setting) @ snd (canActivate_logged R L ck skew now now' req d seen)
      @ snd (handleWebhook_logged verify parse wskew E url wreq d))"
  by (simp add: plain_verify plain_registration plain_lookups plain_guard plain_webhook)

section \<open>Secrets\<close>

text \<open>Two signatures that look alike to the code: same length, same alphabet, same answers of the library.\<close>

definition indistinguishable :: "secp_runtime \<Rightarrow> js_string \<Rightarrow> js_string \<Rightarrow> bool" where
  "indistinguishable R sig sig' \<longleftrightarrow>
     length sig = length sig' \<and> all_hex sig = all_hex sig'
     \<and> (all_hex sig \<longrightarrow> (\<forall>m key. library_answer R sig m key = library_answer R sig' m key))"

lemma secret_field_length: "length s = length t \<Longrightarrow> secret_field name s = secret_field name t"
  by (simp add: secret_field_def describeSecret_def ascii_def)

lemma verify_same_lines:
  assumes "indistinguishable R sig sig'"
  shows "verifySignature_logged R m sig key = verifySignature_logged R m sig' key"
proof -
  have hex: "all_hex sig = all_hex sig'" and sec: "secret_field ''sig'' sig = secret_field ''sig'' sig'"
    using assms by (auto simp: indistinguishable_def intro: secret_field_length)
  show ?thesis
  proof (cases "all_hex sig")
    case True
    then have answer: "library_answer R sig = library_answer R sig'"
      using assms by (intro ext) (simp add: indistinguishable_def)
    show ?thesis unfolding verifySignature_logged_def answer hex sec ..
  next
    case False
    with hex sec show ?thesis by (simp add: verifySignature_logged_def)
  qed
qed

text \<open>
  C25. Signatures stay out of the log. Two registrations, two signed requests or two webhooks that
  differ only in a signature, of the same length and with the same verdicts, write exactly the same
  lines (and get the same answer): beyond its length and the verdicts, the log tells
  nothing about a signature, in particular nothing at all about one that is not hexadecimal.
\<close>

theorem signature_stays_out_of_log:
  assumes same: "indistinguishable R sig sig'"
    and verdict: "\<forall>body ts. verify body sig ts = verify body sig' ts"
  shows "bind_checks_logged parsed ck R extra now k1 sig key raw d = bind_checks_logged parsed ck R extra now k1 sig' key raw d
    \<and> canActivate_logged R L ck skew now now' (req\<lparr>gr_signature := Some sig\<rparr>) d seen
      = canActivate_logged R L ck skew now now' (req\<lparr>gr_signature := Some sig'\<rparr>) d seen
    \<and> handleWebhook_logged verify parse wskew E url (wreq\<lparr>wr_signature := Some sig\<rparr>) d
      = handleWebhook_logged verify parse wskew E url (wreq\<lparr>wr_signature := Some sig'\<rparr>) d"
proof (intro conjI)
  have len: "length sig = length sig'" and hex: "all_hex sig = all_hex sig'"
    using same by (simp_all add: indistinguishable_def)
  have empty: "sig = [] \<longleftrightarrow> sig' = []" using len by (cases sig; cases sig') auto
  note lines = verify_same_lines [OF same] secret_field_length [OF len]
  show "bind_checks_logged parsed ck R extra now k1 sig key raw d = bind_checks_logged parsed ck R extra now k1 sig' key raw d"
    unfolding bind_checks_logged_def lines hex ..
  have "guard_check_logged R L ck skew now (req\<lparr>gr_signature := Some sig\<rparr>) d
      = guard_check_logged R L ck skew now (req\<lparr>gr_signature := Some sig'\<rparr>) d"
    by (cases "js_ToNumber (the (gr_timestamp req))") (simp_all add: guard_check_logged_def Let_def lines empty)
  then show "canActivate_logged R L ck skew now now' (req\<lparr>gr_signature := Some sig\<rparr>) d seen
      = canActivate_logged R L ck skew now now' (req\<lparr>gr_signature := Some sig'\<rparr>) d seen"
    by (simp add: canActivate_logged_def)
  show "handleWebhook_logged verify parse wskew E url (wreq\<lparr>wr_signature := Some sig\<rparr>) d
      = handleWebhook_logged verify parse wskew E url (wreq\<lparr>wr_signature := Some sig'\<rparr>) d"
    using verdict
    by (cases "wr_rawBody wreq"; cases "wr_timestamp wreq") (simp_all add: handleWebhook_logged_def nullish_def empty)
qed

definition demo_runtime :: secp_runtime where
  "demo_runtime =
     \<lparr>rt_import = Inl \<lparr>load_code = Some ''ERR_VM_DYNAMIC_IMPORT_CALLBACK_MISSING_FLAG'', load_thrown = OtherValue None\<rparr>,
      rt_require = Inr \<lparr>sm_lib = demo_secp, sm_thrown = (\<lambda>s m k. ErrorObject (ascii ''Error'') (ascii ''bad signature''))\<rparr>\<rparr>"

definition demo_registration :: "js_string \<Rightarrow> (auth_error + js_string) logged" where
  "demo_registration sig =
     bind_checks_logged [] id demo_runtime None 6 (demo_k1 (CHR ''a'')) sig demo_key_c ''x'' demo_auth_db"

theorem signature_stays_out_of_log_witness:
  "demo_registration ''aF'' = demo_registration ''Af'' \<and> demo_registration ''se'' = demo_registration ''xy''"
proof -
  have bytes: "hex_to_bytes ''aF'' = hex_to_bytes ''Af''"
    by (simp add: is_hex_def is_digit_def code_in_def hex_val_def)
  have "library_answer demo_runtime ''aF'' = library_answer demo_runtime ''Af''"
    unfolding library_answer_def bytes ..
  then have alike: "indistinguishable demo_runtime ''aF'' ''Af''" "indistinguishable demo_runtime ''se'' ''xy''"
    by (simp_all add: indistinguishable_def all_hex_def is_hex_def is_digit_def code_in_def)
  have "demo_registration s = demo_registration t" if "indistinguishable demo_runtime s t" for s t
    unfolding demo_registration_def
    by (rule signature_stays_out_of_log [OF that, where verify = "\<lambda>b s t. True", THEN conjunct1]) simp
  with alike show ?thesis by blast
qed

end
