(* ===== verification/Radix.thy ===== *)
theory Radix
  imports Prelude
begin

text \<open>
  Numbers in a base: the digits of fixed length, most significant first, and their value; the bytes
  and the hex digits of a number. \<open>n.toString(16)\<close> and \<open>padStart\<close> of the language are here, with the
  round trips that code on large integers rests on.
\<close>

section \<open>Digits\<close>

primrec digits_of :: "nat \<Rightarrow> nat \<Rightarrow> nat \<Rightarrow> nat list" where
  "digits_of B 0 n = []"
| "digits_of B (Suc k) n = digits_of B k (n div B) @ [n mod B]"

definition digits_value :: "nat \<Rightarrow> nat list \<Rightarrow> nat" where
  "digits_value B ds = foldl (\<lambda>n d. B * n + d) 0 ds"

lemma digits_value_snoc [simp]: "digits_value B (ds @ [d]) = B * digits_value B ds + d"
  by (simp add: digits_value_def)

lemma digits_value_Nil [simp]: "digits_value B [] = 0"
  by (simp add: digits_value_def)

lemma length_digits_of [simp]: "length (digits_of B k n) = k"
  by (induction k arbitrary: n) simp_all

lemma digits_of_less: "0 < B \<Longrightarrow> list_all (\<lambda>d. d < B) (digits_of B k n)"
  by (induction k arbitrary: n) simp_all

lemma digits_value_of: "n < B ^ k \<Longrightarrow> digits_value B (digits_of B k n) = n"
proof (induction k arbitrary: n)
  case (Suc k)
  from Suc.prems have "n div B < B ^ k" by (simp add: less_mult_imp_div_less mult.commute)
  with Suc.IH show ?case by simp
qed simp

lemma digits_of_value: "list_all (\<lambda>d. d < B) ds \<Longrightarrow> digits_of B (length ds) (digits_value B ds) = ds"
proof (induction ds rule: rev_induct)
  case (snoc d ds)
  then have "(B * digits_value B ds + d) div B = digits_value B ds" "(B * digits_value B ds + d) mod B = d" by simp_all
  with snoc show ?case by simp
qed simp

lemma digits_value_less: "list_all (\<lambda>d. d < B) ds \<Longrightarrow> digits_value B ds < B ^ length ds"
proof (induction ds rule: rev_induct)
  case (snoc d ds)
  then have "digits_value B ds + 1 \<le> B ^ length ds" and d: "d < B" by simp_all
  then have "B * (digits_value B ds + 1) \<le> B * B ^ length ds" by (rule_tac mult_le_mono2)
  with d show ?case by simp
qed simp

text \<open>A digit by its place.\<close>

lemma nth_digits_of: "i < k \<Longrightarrow> digits_of B k n ! i = n div B ^ (k - 1 - i) mod B"
proof (induction k arbitrary: n)
  case (Suc k)
  show ?case
  proof (cases "i < k")
    case True
    then have "k - i = Suc (k - 1 - i)" by simp
    with True Suc.IH show ?thesis by (simp add: nth_append div_mult2_eq)
  next
    case False
    with Suc.prems have "i = k" by simp
    then show ?thesis by (simp add: nth_append)
  qed
qed simp

section \<open>Bytes\<close>

definition bytes_of :: "nat \<Rightarrow> nat \<Rightarrow> buffer" where
  "bytes_of k n = map of_nat (digits_of 256 k n)"

definition bytes_value :: "buffer \<Rightarrow> nat" where
  "bytes_value b = digits_value 256 (map unat b)"

lemma length_bytes_of [simp]: "length (bytes_of k n) = k"
  by (simp add: bytes_of_def)

lemma unat_of_small: "d < 256 \<Longrightarrow> unat (of_nat d :: byte) = d"
  by (simp add: unat_of_nat)

lemma bytes_value_of: "n < 256 ^ k \<Longrightarrow> bytes_value (bytes_of k n) = n"
proof -
  have "map (unat \<circ> (of_nat :: nat \<Rightarrow> byte)) (digits_of 256 k n) = digits_of 256 k n"
    using digits_of_less [of 256 k n] by (intro map_idI) (simp add: list_all_iff unat_of_small)
  then show "n < 256 ^ k \<Longrightarrow> ?thesis" by (simp add: bytes_value_def bytes_of_def digits_value_of)
qed

lemma unat_bytes_less: "list_all (\<lambda>d. d < 256) (map unat (b :: buffer))"
  by (simp add: list_all_iff)

lemma bytes_of_value: "bytes_of (length b) (bytes_value b) = b"
  using digits_of_value [OF unat_bytes_less [of b]] by (simp add: bytes_of_def bytes_value_def comp_def)

lemma bytes_value_less: "bytes_value b < 256 ^ length b"
  using digits_value_less [OF unat_bytes_less [of b]] by (simp add: bytes_value_def)

section \<open>Hexadecimal\<close>

text \<open>\<open>n.toString(16)\<close> and \<open>s.padStart(k, c)\<close> with a single character.\<close>

fun hex_str :: "nat \<Rightarrow> js_string" where
  "hex_str n = (if n < 16 then [hex_char n] else hex_str (n div 16) @ [hex_char (n mod 16)])"

declare hex_str.simps [simp del]

definition padStart :: "js_string \<Rightarrow> nat \<Rightarrow> char \<Rightarrow> js_string" where
  "padStart s k c = replicate (k - length s) c @ s"

lemma padStart_snoc: "0 < k \<Longrightarrow> padStart (s @ [x]) (Suc k) c = padStart s k c @ [x]"
  by (simp add: padStart_def)

lemma digits_of_zero: "digits_of B k 0 = replicate k 0"
  by (induction k) (simp_all add: replicate_append_same)

lemma hex_char_zero: "hex_char 0 = CHR ''0''"
  by code_simp

lemma padStart_hex: "n < 16 ^ k \<Longrightarrow> 0 < k \<Longrightarrow> padStart (hex_str n) k (CHR ''0'') = map hex_char (digits_of 16 k n)"
proof (induction k arbitrary: n)
  case (Suc k)
  show ?case
  proof (cases "n < 16")
    case True
    then show ?thesis
      by (simp add: hex_str.simps [of n] padStart_def digits_of_zero hex_char_zero)
  next
    case False
    with Suc.prems have k: "0 < k" by (cases k) simp_all
    from Suc.prems have "n div 16 < 16 ^ k" by (simp add: less_mult_imp_div_less mult.commute)
    from Suc.IH [OF this k] False k show ?thesis
      by (simp add: hex_str.simps [of n] padStart_snoc)
  qed
qed simp

text \<open>Two hex digits for each byte.\<close>

lemma hex_of_bytes: "map hex_char (digits_of 16 (2 * k) n) = bytes_to_hex (bytes_of k n)"
proof (induction k arbitrary: n)
  case (Suc k)
  have "unat (of_nat (n mod 256) :: byte) = n mod 256" by (rule unat_of_small) simp
  moreover have "n mod 256 div 16 = n div 16 mod 16" "n mod 256 mod 16 = n mod 16"
    using mod_mult2_eq [of n 16 16] by simp_all
  moreover have "n div 16 div 16 = n div 256" by (simp add: div_mult2_eq [symmetric])
  ultimately show ?case using Suc.IH [of "n div 256"]
    by (simp add: bytes_of_def bytes_to_hex_def byte_hex_def)
qed (simp add: bytes_of_def bytes_to_hex_def)

lemma padded_hex_bytes:
  assumes "n < 256 ^ k" and "0 < k"
  shows "hex_to_bytes (padStart (hex_str n) (2 * k) (CHR ''0'')) = bytes_of k n"
proof -
  have "n < 16 ^ (2 * k)" using assms(1) by (simp add: power_mult)
  then show ?thesis using assms(2) by (simp add: padStart_hex hex_of_bytes)
qed

end
