(* ===== verification/Honest_Invoice.thy ===== *)
theory Honest_Invoice
  imports Lightning_Quote Radix
begin

text \<open>
  The counterpart of the validation: an honest issuer of invoices. The sources have one,
  \<open>src/flashnet/lightning-quote-fixtures.test-helper.ts\<close>, which the specifications of the quote
  client, the validation and the hash reader use. The bech32 codec and the keys are parameters; what
  is relied on of them is stated as \<open>codec_ok\<close> (BIP 173) and \<open>signer_ok\<close> (ECDSA).
\<close>

section \<open>The issuer\<close>

record issuer =
  is_random :: "buffer \<times> buffer" \<comment> \<open>the two calls of \<open>randomBytes(32)\<close>\<close>
  is_pubkey :: buffer \<comment> \<open>compressed\<close>
  is_sign :: "buffer \<Rightarrow> buffer" \<comment> \<open>SHA-256 and ECDSA, \<open>r\<close> and \<open>s\<close> as 32 bytes each\<close>
  is_toWords :: "buffer \<Rightarrow> nat list"
  is_encode :: "js_string \<Rightarrow> nat list \<Rightarrow> nat \<Rightarrow> js_string"

definition timestamp_words :: "nat \<Rightarrow> nat list" where
  "timestamp_words timestamp = map (\<lambda>index. timestamp div 32 ^ (6 - index) mod 32) [0..<7]"

definition description_field :: "js_string option \<Rightarrow> nat \<times> buffer" where
  "description_field descriptionHash =
     (case descriptionHash of
        None \<Rightarrow> (13, utf8_bytes ''Offline test'')
      | Some h \<Rightarrow> (23, hex_to_bytes h))"

definition issued_fields :: "issuer \<Rightarrow> js_string option \<Rightarrow> (nat \<times> nat list) list" where
  "issued_fields I descriptionHash =
     map (\<lambda>(tag, bytes). (tag, is_toWords I bytes))
       [(1, fst (is_random I)), (16, snd (is_random I)), description_field descriptionHash, (19, is_pubkey I)]"

definition unsigned_words :: "issuer \<Rightarrow> nat \<Rightarrow> js_string option \<Rightarrow> nat list" where
  "unsigned_words I timestamp descriptionHash =
     timestamp_words timestamp @ encode_fields (issued_fields I descriptionHash)"

text \<open>\<open>b.copy(target, 32)\<close>: as many bytes as fit.\<close>

definition copy_at_32 :: "buffer \<Rightarrow> buffer \<Rightarrow> buffer" where
  "copy_at_32 b target = take 32 target @ take (length target - 32) b @ drop (32 + length b) target"

text \<open>A signature in the upper half is replaced by its negative.\<close>

definition low_s :: "buffer \<Rightarrow> buffer" where
  "low_s signature =
     (let scalarS = big_endian (drop 32 signature)
      in if curve_order div 2 < scalarS
         then copy_at_32 (hex_to_bytes (padStart (hex_str (nat (curve_order - scalarS))) 64 (CHR ''0''))) signature
         else signature)"

definition testInvoice :: "invoice_lib \<Rightarrow> issuer \<Rightarrow> js_string \<Rightarrow> nat \<Rightarrow> js_string option \<Rightarrow> js_string option" where
  "testInvoice L I hrp timestamp descriptionHash =
     (let words = unsigned_words I timestamp descriptionHash
      in case bech32_fromWords L (pad_words words) of
           None \<Rightarrow> None
         | Some bytes \<Rightarrow>
             let msg = utf8_bytes hrp @ take ((length words * 5 + 7) div 8) bytes;
                 signature = low_s (is_sign I msg)
             in Some (is_encode I hrp (words @ is_toWords I (signature @ [0])) 4096))"

definition testQuote :: "invoice_lib \<Rightarrow> issuer \<Rightarrow> time_ms \<Rightarrow> raw_quote option" where
  "testQuote L I now =
     map_option
       (\<lambda>invoice. \<lparr>rq_quoteId = Some ''q_test'', rq_lightningReceiveRequestId = Some ''SparkLightningReceiveRequest:test'',
          rq_amountIn = Some ''1000'', rq_flexibleAmount = False, rq_amountMode = None, rq_feeAsset = Some ''USDB'',
          rq_route = Some [Some ''BTC'', Some ''USDB''], rq_feeBps = Some 10, rq_estimatedOut = Some ''900000'',
          rq_feeAmount = Some ''1000'', rq_roundingFeeAmount = Some ''0'', rq_totalFeeAmount = Some ''1000'',
          rq_lockedMinAmountOut = None, rq_priceLockMode = None, rq_expiresAt = toISOString L (now + 120000),
          rq_depositAddress = invoice\<rparr>)
       (testInvoice L I ''lnbc10u'' (nat (now div 1000)) None)"

section \<open>What is relied on\<close>

text \<open>
  The codec of BIP 173: data of \<open>n\<close> bytes takes the least number of 5-bit words that hold it and is
  read back; words that fill whole bytes convert; and an encoding within the limit decodes, under a
  prefix of visible characters without capitals.
\<close>

definition hrp_ok :: "js_string \<Rightarrow> bool" where
  "hrp_ok hrp \<longleftrightarrow> hrp \<noteq> [] \<and> list_all (\<lambda>c. code_in 33 126 c \<and> \<not> code_in 65 90 c) hrp"

definition codec_ok :: "invoice_lib \<Rightarrow> issuer \<Rightarrow> bool" where
  "codec_ok L I \<longleftrightarrow>
     (\<forall>b. list_all (\<lambda>w. w < 32) (is_toWords I b) \<and> length (is_toWords I b) = (8 * length b + 4) div 5
        \<and> bech32_fromWords L (is_toWords I b) = Some b)
     \<and> (\<forall>ws. list_all (\<lambda>w. w < 32) ws \<and> length ws * 5 mod 8 = 0 \<longrightarrow> bech32_fromWords L ws \<noteq> None)
     \<and> (\<forall>hrp ws n. hrp_ok hrp \<and> list_all (\<lambda>w. w < 32) ws \<and> length hrp + 7 + length ws \<le> n
          \<longrightarrow> bech32_decode L (is_encode I hrp ws n) n = Some (hrp, ws))"

text \<open>
  The signer of ECDSA: a compressed key, signatures of 64 bytes whose second half is below the order
  of the curve and that verify; and if a signature verifies, so does the one with the negative of
  its second half.
\<close>

definition signer_ok :: "invoice_lib \<Rightarrow> issuer \<Rightarrow> bool" where
  "signer_ok L I \<longleftrightarrow>
     length (is_pubkey I) = 33
     \<and> (\<forall>m. length (is_sign I m) = 64 \<and> bytes_value (drop 32 (is_sign I m)) < nat curve_order
          \<and> ecdsa_verify L (SPKI_HEADER @ is_pubkey I) m (is_sign I m) = Some True)
     \<and> (\<forall>m r s. length r = 32 \<and> s < nat curve_order
          \<and> ecdsa_verify L (SPKI_HEADER @ is_pubkey I) m (r @ bytes_of 32 s) = Some True
          \<longrightarrow> ecdsa_verify L (SPKI_HEADER @ is_pubkey I) m (r @ bytes_of 32 (nat curve_order - s)) = Some True)"

section \<open>Numbers\<close>

lemma big_endian_value: "big_endian b = int (bytes_value b)"
proof (induction b rule: rev_induct)
  case (snoc w b)
  then show ?case by (simp add: big_endian_def bytes_value_def)
qed (simp add: big_endian_def bytes_value_def)

lemma words_value_digits: "words_value ws = digits_value 32 ws"
  by (simp add: words_value_def digits_value_def)

lemma words_number_small: "words_value ws < 2 ^ 53 \<Longrightarrow> words_number ws = words_value ws"
proof (induction ws rule: rev_induct)
  case (snoc w ws)
  have v: "words_value (ws @ [w]) = 32 * words_value ws + w" by (simp add: words_value_def)
  with snoc have "words_number ws = words_value ws" by simp
  with v snoc.prems show ?case by (simp add: words_number_def mult.commute)
qed (simp add: words_number_def words_value_def)

lemma timestamp_words_digits: "timestamp_words ts = digits_of 32 7 ts"
proof (rule nth_equalityI)
  show "length (timestamp_words ts) = length (digits_of 32 7 ts)" by (simp add: timestamp_words_def)
  fix i assume "i < length (timestamp_words ts)"
  then have i: "i < 7" by (simp add: timestamp_words_def)
  then have "timestamp_words ts ! i = ts div 32 ^ (6 - i) mod 32"
    unfolding timestamp_words_def by (subst nth_map) (simp_all del: upt_rec_numeral)
  with i show "timestamp_words ts ! i = digits_of 32 7 ts ! i" by (simp add: nth_digits_of)
qed

lemma timestamp_words_props:
  "length (timestamp_words ts) = 7" "list_all (\<lambda>w. w < 32) (timestamp_words ts)"
  "ts < 2 ^ 35 \<Longrightarrow> words_value (timestamp_words ts) = ts"
proof -
  show "length (timestamp_words ts) = 7" by (simp add: timestamp_words_def)
  show "list_all (\<lambda>w. w < 32) (timestamp_words ts)" using digits_of_less [of 32 7 ts] by (simp add: timestamp_words_digits)
  show "words_value (timestamp_words ts) = ts" if "ts < 2 ^ 35"
    using that by (simp add: words_value_digits timestamp_words_digits digits_value_of)
qed

section \<open>The low half\<close>

lemma curve_order_bytes: "nat curve_order < 256 ^ 32" "0 < curve_order" "curve_order - curve_order div 2 - 1 \<le> curve_order div 2"
  by (simp_all add: curve_order_def)

lemma low_s_sound:
  assumes "signer_ok L I"
  shows "length (low_s (is_sign I m)) = 64"
    and "big_endian (drop 32 (low_s (is_sign I m))) \<le> curve_order div 2"
    and "ecdsa_verify L (SPKI_HEADER @ is_pubkey I) m (low_s (is_sign I m)) = Some True"
proof -
  let ?sig = "is_sign I m" let ?s = "bytes_value (drop 32 ?sig)"
  have sig: "length ?sig = 64" "?s < nat curve_order"
    and ver: "ecdsa_verify L (SPKI_HEADER @ is_pubkey I) m ?sig = Some True"
    and neg: "\<And>r s. length r = 32 \<Longrightarrow> s < nat curve_order
      \<Longrightarrow> ecdsa_verify L (SPKI_HEADER @ is_pubkey I) m (r @ bytes_of 32 s) = Some True
      \<Longrightarrow> ecdsa_verify L (SPKI_HEADER @ is_pubkey I) m (r @ bytes_of 32 (nat curve_order - s)) = Some True"
    using assms unfolding signer_ok_def by blast+
  have "length (low_s ?sig) = 64 \<and> big_endian (drop 32 (low_s ?sig)) \<le> curve_order div 2
      \<and> ecdsa_verify L (SPKI_HEADER @ is_pubkey I) m (low_s ?sig) = Some True"
  proof (cases "curve_order div 2 < big_endian (drop 32 ?sig)")
    case False
    then show ?thesis using sig ver by (simp add: low_s_def)
  next
    case True
    let ?n = "nat curve_order - ?s"
    have n: "nat (curve_order - big_endian (drop 32 ?sig)) = ?n" by (simp add: big_endian_value nat_diff_distrib')
    have small: "?n < 256 ^ 32" using curve_order_bytes(1) by linarith
    have b: "low_s ?sig = take 32 ?sig @ bytes_of 32 ?n"
      using True padded_hex_bytes [OF small] sig(1) by (simp add: low_s_def n copy_at_32_def)
    have "take 32 ?sig @ bytes_of 32 ?s = ?sig"
      using bytes_of_value [of "drop 32 ?sig"] sig(1) by simp
    with neg [of "take 32 ?sig" ?s] sig ver
    have v: "ecdsa_verify L (SPKI_HEADER @ is_pubkey I) m (low_s ?sig) = Some True" by (simp add: b)
    have "big_endian (drop 32 (low_s ?sig)) = int ?n"
      using sig(1) bytes_value_of [OF small] by (simp add: b big_endian_value)
    moreover have "int ?n \<le> curve_order div 2"
      using True curve_order_bytes(3) sig(2) by (simp add: big_endian_value)
    ultimately show ?thesis using v sig(1) by (simp add: b)
  qed
  then show "length (low_s ?sig) = 64" "big_endian (drop 32 (low_s ?sig)) \<le> curve_order div 2"
    "ecdsa_verify L (SPKI_HEADER @ is_pubkey I) m (low_s ?sig) = Some True" by blast+
qed

section \<open>The parts of an honest invoice\<close>

lemma pad_words_props:
  "length (pad_words ws) * 5 mod 8 = 0" "list_all (\<lambda>w. w < 32) ws \<Longrightarrow> list_all (\<lambda>w. w < 32) (pad_words ws)"
  by (induction ws rule: pad_words.induct) (subst pad_words.simps, simp)+

lemma hex_round_trip: "list_all is_hex h \<Longrightarrow> even (length h) \<Longrightarrow> bytes_to_hex (hex_to_bytes h) = toLowerCase h"
proof (induction h rule: hex_to_bytes.induct)
  case (1 a b s)
  have digit: "hex_char (hex_val c) = js_lower_char c \<and> hex_val c < 16" if "is_hex c" for c
  proof -
    have "hex_char (hex_val (char_of n)) = js_lower_char (char_of n) \<and> hex_val (char_of n) < 16"
      if "n < 256" "is_hex (char_of n)" for n :: nat
      using that by (auto simp: hex_char_def hex_val_def is_hex_def is_digit_def code_in_def js_lower_char_def)
    from this [of "of_char c"] that show ?thesis by simp
  qed
  from 1 have d: "hex_char (hex_val a) = js_lower_char a" "hex_char (hex_val b) = js_lower_char b"
    "hex_val a < 16" "hex_val b < 16" using digit by simp_all
  then have "unat (of_nat (16 * hex_val a + hex_val b) :: byte) = 16 * hex_val a + hex_val b"
    by (intro unat_of_small) linarith
  with 1 d show ?case by (simp add: bytes_to_hex_def byte_hex_def toLowerCase_def)
qed (simp_all add: bytes_to_hex_def toLowerCase_def)

definition hash_text :: "js_string \<Rightarrow> bool" where
  "hash_text h \<longleftrightarrow> length h = 64 \<and> list_all is_hex h"

definition honest :: "invoice_lib \<Rightarrow> issuer \<Rightarrow> nat \<Rightarrow> js_string option \<Rightarrow> bool" where
  "honest L I timestamp descriptionHash \<longleftrightarrow>
     codec_ok L I \<and> signer_ok L I \<and> length (fst (is_random I)) = 32 \<and> length (snd (is_random I)) = 32
     \<and> timestamp < 2 ^ 35 \<and> (case descriptionHash of None \<Rightarrow> True | Some h \<Rightarrow> hash_text h)"

lemma codec_okD:
  assumes "codec_ok L I"
  shows "list_all (\<lambda>w. w < 32) (is_toWords I b)" "length (is_toWords I b) = (8 * length b + 4) div 5"
    "bech32_fromWords L (is_toWords I b) = Some b"
    "list_all (\<lambda>w. w < 32) ws \<Longrightarrow> length ws * 5 mod 8 = 0 \<Longrightarrow> bech32_fromWords L ws \<noteq> None"
    "hrp_ok hrp \<Longrightarrow> list_all (\<lambda>w. w < 32) ws \<Longrightarrow> length hrp + 7 + length ws \<le> n
      \<Longrightarrow> bech32_decode L (is_encode I hrp ws n) n = Some (hrp, ws)"
  using assms by (simp_all add: codec_ok_def)

lemma description_length:
  assumes "case dh of None \<Rightarrow> True | Some h \<Rightarrow> hash_text h"
  shows "length (snd (description_field dh)) \<le> 32" "fst (description_field dh) \<in> {13, 23}"
    "fst (description_field dh) = 23 \<longleftrightarrow> dh \<noteq> None" "dh \<noteq> None \<Longrightarrow> length (snd (description_field dh)) = 32"
proof -
  have "length (utf8_bytes ''Offline test'') = 12" by code_simp
  then show "length (snd (description_field dh)) \<le> 32" "fst (description_field dh) \<in> {13, 23}"
    "fst (description_field dh) = 23 \<longleftrightarrow> dh \<noteq> None" "dh \<noteq> None \<Longrightarrow> length (snd (description_field dh)) = 32"
    using assms by (auto simp: description_field_def hash_text_def length_hex_to_bytes split: option.splits)
qed

text \<open>The data part: its length, its words, and what the reader finds in it.\<close>

lemma issued_fields_map:
  assumes "honest L I ts dh"
  shows "map_of (rev (issued_fields I dh)) 1 = Some (is_toWords I (fst (is_random I)))"
    "map_of (rev (issued_fields I dh)) 16 = Some (is_toWords I (snd (is_random I)))"
    "map_of (rev (issued_fields I dh)) 19 = Some (is_toWords I (is_pubkey I))"
    "map_of (rev (issued_fields I dh)) 6 = None"
    "map_of (rev (issued_fields I dh)) 23 = map_option (\<lambda>h. is_toWords I (hex_to_bytes h)) dh"
    "map_of (rev (issued_fields I dh)) 13 = None \<longleftrightarrow> dh \<noteq> None"
    "singles_ok {} (issued_fields I dh)"
  by (cases dh; simp add: issued_fields_def description_field_def)+

lemma encode_field_words:
  "t < 32 \<Longrightarrow> length ds < 1024 \<Longrightarrow> list_all (\<lambda>w. w < 32) ds \<Longrightarrow> list_all (\<lambda>w. w < 32) (encode_field (t, ds))"
  by (auto simp: encode_field_def)

lemma unsigned_words_props:
  assumes "honest L I ts dh"
  shows "list_all (\<lambda>w. w < 32) (unsigned_words I ts dh)" "length (unsigned_words I ts dh) \<le> 228"
proof -
  have h: "codec_ok L I" "signer_ok L I" "length (fst (is_random I)) = 32" "length (snd (is_random I)) = 32"
    "case dh of None \<Rightarrow> True | Some h \<Rightarrow> hash_text h" using assms by (simp_all add: honest_def)
  note c = codec_okD [OF h(1)] and d = description_length [OF h(5)]
  have pub: "length (is_pubkey I) = 33" using h(2) by (simp add: signer_ok_def)
  have len: "length (is_toWords I (snd (description_field dh))) \<le> 52"
    using d(1) unfolding c(2) by linarith
  obtain t b where tb: "description_field dh = (t, b)" by (cases "description_field dh")
  have t: "t < 32" using d(2) tb by auto
  show "list_all (\<lambda>w. w < 32) (unsigned_words I ts dh)"
    unfolding unsigned_words_def issued_fields_def
    using len t h(3,4) pub
    by (simp add: tb encode_field_words c(1,2) timestamp_words_props)
  show "length (unsigned_words I ts dh) \<le> 228"
    using len h(3,4) pub by (simp add: unsigned_words_def issued_fields_def tb c(2) timestamp_words_props)
qed

lemma testInvoice_issued:
  assumes "honest L I ts dh"
  obtains msg where "signing_bytes L hrp (unsigned_words I ts dh @ sigw) (length (unsigned_words I ts dh)) = Some msg"
    "testInvoice L I hrp ts dh
       = Some (is_encode I hrp (unsigned_words I ts dh @ is_toWords I (low_s (is_sign I msg) @ [0])) 4096)"
proof -
  have "codec_ok L I" using assms by (simp add: honest_def)
  from codec_okD(4) [OF this pad_words_props(2) pad_words_props(1)] unsigned_words_props(1) [OF assms]
  obtain b where "bech32_fromWords L (pad_words (unsigned_words I ts dh)) = Some b" by blast
  then show thesis by (intro that) (simp_all add: signing_bytes_def testInvoice_def Let_def)
qed

section \<open>Its way through the validation\<close>

text \<open>What was asked for and what the invoice carries: no hash was asked for, or the same one.\<close>

definition hash_matches :: "js_string option \<Rightarrow> js_string option \<Rightarrow> bool" where
  "hash_matches carried asked =
     (case asked of
        None \<Rightarrow> True
      | Some a \<Rightarrow> (case carried of None \<Rightarrow> False | Some c \<Rightarrow> toLowerCase c = toLowerCase a))"

lemma prefix_hrp_ok: "prefix_match hrp = Some (ds, u) \<Longrightarrow> hrp_ok hrp"
proof -
  assume p: "prefix_match hrp = Some (ds, u)"
  have "list_all (\<lambda>c. code_in 33 126 c \<and> \<not> code_in 65 90 c) ds"
    using prefix_match_Some(2) [OF p] by (auto simp: all_digits_def list_all_iff is_digit_def code_in_def)
  moreover have "list_all (\<lambda>c. code_in 33 126 c \<and> \<not> code_in 65 90 c) u"
    using prefix_match_Some(3) [OF p] by (auto simp: code_in_def)
  ultimately show ?thesis using prefix_match_Some(1) [OF p] by (simp add: hrp_ok_def code_in_def)
qed

lemma honest_tags_ok: "honest L I ts dh \<Longrightarrow> tags_ok (map_of (rev (issued_fields I dh)))"
  using issued_fields_map [of L I ts dh]
  by (cases dh) (auto simp: tags_ok_def honest_def codec_okD hash_text_def length_hex_to_bytes)

lemma honest_check_hash:
  assumes "honest L I ts dh"
  shows "check_hash L (map_of (rev (issued_fields I dh))) asked
    = (if hash_matches dh asked then Inr () else Inl DescriptionHashMismatch)"
proof -
  have "codec_ok L I" and dh: "case dh of None \<Rightarrow> True | Some h \<Rightarrow> hash_text h" using assms by (simp_all add: honest_def)
  then have "bytes_to_hex (hex_to_bytes h) = toLowerCase h" if "dh = Some h" for h
    using that by (simp add: hash_text_def hex_round_trip)
  then show ?thesis
    using issued_fields_map(5) [OF assms] codec_okD(3) [OF \<open>codec_ok L I\<close>]
    by (auto simp: check_hash_def hash_matches_def need_def split: option.split)
qed

lemma honest_check_signature:
  assumes "honest L I ts dh"
    and msg: "signing_bytes L hrp words (length (unsigned_words I ts dh)) = Some msg"
    and words: "words = unsigned_words I ts dh @ is_toWords I (low_s (is_sign I msg) @ [0])"
  shows "check_signature L hrp words (map_of (rev (issued_fields I dh))) (length (unsigned_words I ts dh)) = Inr ()"
proof -
  have h: "codec_ok L I" "signer_ok L I" using assms(1) by (simp_all add: honest_def)
  note s = low_s_sound [OF h(2), of msg] and c = codec_okD [OF h(1)]
  have pub: "length (is_pubkey I) = 33" using h(2) by (simp add: signer_ok_def)
  have low: "\<not> curve_order div 2 < big_endian (take 32 (drop 32 (low_s (is_sign I msg) @ [0])))"
    using s(1,2) by simp
  show ?thesis
    using s(1,3) msg low pub issued_fields_map(3) [OF assms(1)]
    by (simp add: check_signature_def words c(3) need_def ensure_def payee_key_def nth_append)
qed

lemma honest_invoice_expiry:
  assumes "honest L I ts dh"
  shows "invoice_expiry (unsigned_words I ts dh @ sigw) (map_of (rev (issued_fields I dh))) = (ts + 3600) * 1000"
    and "(ts + 3600) * 1000 \<le> MAX_SAFE_INTEGER"
proof -
  have ts: "ts < 2 ^ 35" using assms by (simp add: honest_def)
  then have n: "words_number (timestamp_words ts) = ts"
    using words_number_small [of "timestamp_words ts"] timestamp_words_props(3) [OF ts] by simp
  have t: "take BOLT11_TIMESTAMP_WORDS (unsigned_words I ts dh @ sigw) = timestamp_words ts"
    by (simp add: BOLT11_TIMESTAMP_WORDS_def unsigned_words_def timestamp_words_props(1))
  show "(ts + 3600) * 1000 \<le> MAX_SAFE_INTEGER" using ts by (simp add: MAX_SAFE_INTEGER_def)
  have "to_double (ts + 3600) = ts + 3600" "to_double ((ts + 3600) * 1000) = (ts + 3600) * 1000"
    using ts by (intro to_double_small; simp)+
  then show "invoice_expiry (unsigned_words I ts dh @ sigw) (map_of (rev (issued_fields I dh))) = (ts + 3600) * 1000"
    using n by (simp only: invoice_expiry_def t lifetime_def issued_fields_map(4) [OF assms] option.case)
qed

text \<open>
  C13. The validation is not too strict. An invoice that an honest issuer signs, for any amount prefix,
  any time of 35 bits, with a memo or with a description hash, in a quote whose fields and amount are
  in order and that have not expired, is accepted exactly when no description hash was asked
  for or the one it carries, in any spelling; a different or a missing hash is told apart
  from every other failure. The accepted quote is unchanged but for its expiry, the earlier of the two.
\<close>

theorem honest_invoice_accepted:
  assumes "honest L I ts dh" and "testInvoice L I hrp ts dh = Some invoice"
    and fields: "fields_ok q sats" "rq_depositAddress q = invoice"
    and amount: "prefix_match hrp = Some (ds, u)" "js_BigInt sats = Some s" "invoice_msat ds u = Some (s * 1000)"
    and short: "length hrp \<le> 3000"
    and time: "Date_parse L (rq_expiresAt q) = Some e" "now < e" "now' < int ((ts + 3600) * 1000)"
  shows "validateLightningQuote L now now' (Some q) sats asked
    = (if hash_matches dh asked
       then Inr (q\<lparr>rq_expiresAt := toISOString L (min e (int ((ts + 3600) * 1000)))\<rparr>)
       else Inl DescriptionHashMismatch)"
proof -
  let ?w = "unsigned_words I ts dh" let ?tags = "map_of (rev (issued_fields I dh))"
  have cs: "codec_ok L I" "signer_ok L I" using assms(1) by (simp_all add: honest_def)
  obtain msg where inv: "testInvoice L I hrp ts dh = Some (is_encode I hrp (?w @ is_toWords I (low_s (is_sign I msg) @ [0])) 4096)"
    and m: "\<And>sigw. signing_bytes L hrp (?w @ sigw) (length ?w) = Some msg"
  proof -
    obtain msg where "signing_bytes L hrp (?w @ []) (length ?w) = Some msg"
      "testInvoice L I hrp ts dh = Some (is_encode I hrp (?w @ is_toWords I (low_s (is_sign I msg) @ [0])) 4096)"
      by (rule testInvoice_issued [OF assms(1)])
    then show thesis by (intro that) (simp_all add: signing_bytes_def)
  qed
  let ?sig = "is_toWords I (low_s (is_sign I msg) @ [0])"
  have sig: "length ?sig = 104" "list_all (\<lambda>w. w < 32) ?sig"
    using codec_okD(1,2) [OF cs(1)] low_s_sound(1) [OF cs(2), of msg] by simp_all
  have inv': "rq_depositAddress q = is_encode I hrp (?w @ ?sig) 4096" using inv assms(2) fields(2) by simp
  have dec: "bech32_decode L (rq_depositAddress q) 4096 = Some (hrp, ?w @ ?sig)"
    unfolding inv' using unsigned_words_props [OF assms(1)] sig short prefix_hrp_ok [OF amount(1)]
    by (intro codec_okD(5) [OF cs(1)]) simp_all
  have long: "111 \<le> length (?w @ ?sig)"
    using sig(1) by (simp add: unsigned_words_def timestamp_words_props(1))
  have head: "quote_invoice_words L now q sats = Inr (e, hrp, ?w @ ?sig)"
    using fields(1) time(1,2) dec amount long by (simp add: quote_invoice_words_def need_def ensure_def)
  have tags: "readBolt11Tags (?w @ ?sig) = Inr (?tags, int (length ?w))"
    using readBolt11Tags_encoded [of "timestamp_words ts" ?sig "issued_fields I dh"] sig(1)
      issued_fields_map(7) [OF assms(1)] timestamp_words_props(1) [of ts]
    by (simp add: unsigned_words_def BOLT11_TIMESTAMP_WORDS_def BOLT11_SIGNATURE_WORDS_def)
  note signed = honest_check_signature [OF assms(1) m refl]
  show ?thesis
    using time(3) honest_invoice_expiry(2) [OF assms(1)]
    by (simp add: validateLightningQuote_def need_def ensure_def head tags honest_tags_ok [OF assms(1)] signed
        honest_check_hash [OF assms(1)] honest_invoice_expiry(1) [OF assms(1)] del: of_nat_add of_nat_mult)
qed

section \<open>The fixture is accepted\<close>

text \<open>
  A codec that satisfies \<open>codec_ok\<close>: the conversion of BIP 173 between bytes and 5-bit words, and an
  encoding without a checksum.
\<close>

definition ref_toWords :: "buffer \<Rightarrow> nat list" where
  "ref_toWords b =
     (let k = (8 * length b + 4) div 5 in digits_of 32 k (bytes_value b * 2 ^ (5 * k - 8 * length b)))"

definition ref_fromWords :: "nat list \<Rightarrow> buffer option" where
  "ref_fromWords ws =
     (let p = 5 * length ws mod 8; v = digits_value 32 ws
      in if p < 5 \<and> v mod 2 ^ p = 0 then Some (bytes_of (5 * length ws div 8) (v div 2 ^ p)) else None)"

definition ref_encode :: "js_string \<Rightarrow> nat list \<Rightarrow> nat \<Rightarrow> js_string" where
  "ref_encode hrp ws n = hrp @ ''1'' @ map (\<lambda>w. char_of (w + 64)) ws"

definition ref_decode :: "js_string \<Rightarrow> nat \<Rightarrow> (js_string \<times> nat list) option" where
  "ref_decode s n =
     (case dropWhile (\<lambda>c. c \<noteq> CHR ''1'') (rev s) of
        [] \<Rightarrow> None
      | _ # r \<Rightarrow> Some (rev r, map (\<lambda>c. of_char c - 64) (rev (takeWhile (\<lambda>c. c \<noteq> CHR ''1'') (rev s)))))"

lemma ref_words_round_trip: "ref_fromWords (ref_toWords b) = Some b"
proof -
  define n where "n = length b"
  define k where "k = (8 * n + 4) div 5"
  define p where "p = 5 * k - 8 * n"
  have le: "8 * n \<le> 5 * k" "5 * k \<le> 8 * n + 4" unfolding k_def by linarith+
  then have eq: "5 * k = 8 * n + p" "p < 5" unfolding p_def by linarith+
  then have p: "5 * k div 8 = n" "5 * k mod 8 = p" "p < 5" "5 * k = 8 * n + p" by simp_all
  have small: "bytes_value b * 2 ^ p < 32 ^ k"
  proof -
    have "bytes_value b * 2 ^ p < 256 ^ n * 2 ^ p" using bytes_value_less [of b] by (simp add: n_def)
    also have "\<dots> = 2 ^ (8 * n + p)" by (simp add: power_add power_mult)
    also have "\<dots> = 32 ^ k" unfolding p(4) [symmetric] by (simp add: power_mult)
    finally show ?thesis .
  qed
  have "ref_toWords b = digits_of 32 k (bytes_value b * 2 ^ p)"
    by (simp add: ref_toWords_def Let_def n_def [symmetric] k_def [symmetric] p_def [symmetric])
  then show ?thesis
    using p digits_value_of [OF small] bytes_of_value [of b] by (simp add: ref_fromWords_def n_def)
qed

lemma cut_at:
  assumes "\<forall>c \<in> set xs. c \<noteq> a"
  shows "dropWhile (\<lambda>c. c \<noteq> a) (xs @ a # ys) = a # ys" "takeWhile (\<lambda>c. c \<noteq> a) (xs @ a # ys) = xs"
  using assms by (induction xs) simp_all

lemma ref_decode_encode: "list_all (\<lambda>w. w < 32) ws \<Longrightarrow> ref_decode (ref_encode hrp ws n) m = Some (hrp, ws)"
proof -
  assume ws: "list_all (\<lambda>w. w < 32) ws"
  have decoded: "(of_char (char_of (w + 64) :: char) :: nat) = w + 64" if "w < 32" for w :: nat
    using that by simp
  have ne: "(char_of (w + 64) :: char) \<noteq> CHR ''1''" if "w < 32" for w :: nat
  proof
    assume "(char_of (w + 64) :: char) = CHR ''1''"
    then have "(of_char (char_of (w + 64) :: char) :: nat) = of_char (CHR ''1'')" by simp
    with decoded [OF that] show False by simp
  qed
  let ?cs = "rev (map (\<lambda>w. char_of (w + 64)) ws) :: js_string"
  have all: "\<forall>c \<in> set ?cs. c \<noteq> CHR ''1''" using ws ne by (auto simp: list_all_iff)
  have r: "rev (ref_encode hrp ws n) = ?cs @ CHR ''1'' # rev hrp" by (simp add: ref_encode_def)
  have "dropWhile (\<lambda>c. c \<noteq> CHR ''1'') (rev (ref_encode hrp ws n)) = CHR ''1'' # rev hrp"
    "takeWhile (\<lambda>c. c \<noteq> CHR ''1'') (rev (ref_encode hrp ws n)) = ?cs"
    unfolding r by (rule cut_at [OF all])+
  moreover have "map (\<lambda>w. of_char (char_of (w + 64) :: char) - 64) ws = ws"
    using ws by (intro map_idI) (auto simp: list_all_iff)
  ultimately show ?thesis by (simp add: ref_decode_def comp_def)
qed

definition demo_codec :: invoice_lib where
  "demo_codec = \<lparr>bech32_decode = ref_decode, bech32_fromWords = ref_fromWords, sha256 = (\<lambda>b. b),
     recoverPublicKey = (\<lambda>s h. None), ecdsa_verify = (\<lambda>k m s. Some True),
     Date_parse = (\<lambda>s. Some (int (dec_val s))), toISOString = int_str\<rparr>"

text \<open>Its signatures lie in the upper half, so that the issuer has to negate them.\<close>

definition demo_issuer :: issuer where
  "demo_issuer = \<lparr>is_random = (replicate 32 7, replicate 32 9), is_pubkey = replicate 33 2,
     is_sign = (\<lambda>m. replicate 32 3 @ bytes_of 32 (nat curve_order - 1)),
     is_toWords = ref_toWords, is_encode = ref_encode\<rparr>"

lemma demo_codec_ok: "codec_ok demo_codec demo_issuer"
  using digits_of_less [of 32]
  by (auto simp: codec_ok_def demo_codec_def demo_issuer_def ref_words_round_trip ref_decode_encode)
    (auto simp: ref_toWords_def ref_fromWords_def Let_def mult.commute)

lemma demo_signer_ok: "signer_ok demo_codec demo_issuer"
  using bytes_value_of [of "nat curve_order - 1" 32] curve_order_bytes
  by (simp add: signer_ok_def demo_codec_def demo_issuer_def)

lemma demo_honest: "honest demo_codec demo_issuer 1700000000 None"
  by (simp add: honest_def demo_codec_ok demo_signer_ok) (simp add: demo_issuer_def)

theorem honest_invoice_accepted_witness:
  "\<exists>q. testQuote demo_codec demo_issuer 1700000000000 = Some q
     \<and> validateLightningQuote demo_codec 1700000000000 1700000000000 (Some q) ''1000'' None = Inr q
     \<and> validateLightningQuote demo_codec 1700000000000 1700000000000 (Some q) ''1000'' (Some (replicate 64 (CHR ''0'')))
       = Inl DescriptionHashMismatch"
proof -
  obtain inv where inv: "testInvoice demo_codec demo_issuer ''lnbc10u'' 1700000000 None = Some inv"
    using testInvoice_issued [OF demo_honest] by metis
  then obtain q where q: "testQuote demo_codec demo_issuer 1700000000000 = Some q" "rq_depositAddress q = inv"
    "fields_ok q ''1000''" "rq_expiresAt q = int_str 1700000120000"
    by (auto simp: testQuote_def demo_codec_def fields_ok_def startsWith_def amount_ok_def digits_between_def
        is_digit_def code_in_def)
  have "int (dec_val (int_str 1700000120000)) = 1700000120000" by (simp add: int_str_def)
  then have e: "Date_parse demo_codec (rq_expiresAt q) = Some 1700000120000" by (simp add: demo_codec_def q(4))
  have amount: "prefix_match ''lnbc10u'' = Some (''10'', ''u'')" "js_BigInt ''1000'' = Some 1000"
    "invoice_msat ''10'' ''u'' = Some (1000 * 1000)" by code_simp+
  have "validateLightningQuote demo_codec 1700000000000 1700000000000 (Some q) ''1000'' asked
      = (if hash_matches None asked then Inr q else Inl DescriptionHashMismatch)" for asked
    using honest_invoice_accepted [OF demo_honest inv q(3,2) amount, of 1700000120000 1700000000000 1700000000000 asked]
      e q(4) by (simp add: demo_codec_def)
  with q(1) show ?thesis by (auto simp: hash_matches_def)
qed

end
