(* ===== verification/Spec2Isabelle.thy ===== *)
theory Spec2Isabelle
  imports Reconciler Access Deliveries Request_Logs Honest_Invoice
begin

text \<open>
  A model of the server of this repository (\<open>src/\<close>, TypeScript on NestJS and Prisma): Lightning
  addresses for Spark wallets, with names bound to keys, LNURL-pay invoices in satoshi or, through
  Flashnet, in USDB, and refund cases for swaps that fail.

  \<^bold>\<open>The program.\<close> A client proves a key by signing a challenge and gets a name
  (\<open>src/auth/\<close>); it signs later requests with that key (\<open>spark-signature.guard.ts\<close>) to read or change
  the name (\<open>src/username/\<close>) or the currency it receives (\<open>src/currency-preference/\<close>). A payer looks
  the name up (\<open>src/query/\<close>, \<open>src/lnurl/\<close>) and asks for an invoice, which comes from the Spark wallet
  (\<open>src/lightspark/\<close>) or from a quote of Flashnet (\<open>src/flashnet/\<close>, \<open>src/swap/\<close>). Flashnet reports the
  swap by signed webhooks, and a reconciler asks for what no webhook reported. A failed swap opens a
  refund case, which an operator resolves behind a bearer token (\<open>src/refund-case/\<close>). Everything is
  kept in one MySQL database; only the replay cache of the guard, the cursors of the reconciler and
  the flags of the purge live in the process.

  \<^bold>\<open>Theories and sources.\<close>
  \<^item> \<open>Prelude\<close>, \<open>Js_Number\<close>: the runtime the sources use: strings, case mapping, white space, JSON
    strings, \<open>Number\<close> and \<open>BigInt\<close> of a string with doubles rounded as IEEE does, bytes.
  \<^item> \<open>Db\<close>: \<open>prisma/schema.prisma\<close>: a record for each table, a table as its list of rows, unique
    indexes under an arbitrary collation, \<open>create\<close> and \<open>update\<close> with Prisma's error codes; the locale
    \<open>keyed_table\<close>.
  \<^item> \<open>Usernames\<close>: \<open>common/utils.ts\<close>, \<open>common/reserved-usernames.ts\<close>. \<open>Secp\<close>: \<open>auth/secp256k1.utils.ts\<close>.
    \<open>Spark_Address\<close>: \<open>common/spark-address.utils.ts\<close>. \<open>Log_Sanitize\<close>, \<open>Log_Line\<close>: \<open>common/log-sanitize.ts\<close>.
    \<open>Request_Logs\<close>: the lines that the handlers of unknown callers write to the log, beside the results
    that the other theories verify, and the loading of the curve library.
  \<^item> \<open>Auth\<close>: \<open>auth/auth.service.ts\<close>, \<open>auth/auth.controller.ts\<close> and the loop of the purge;
    \<open>Nonce_Purge\<close>: the service around that loop, with timers, flag, promise and shutdown.
  \<^item> \<open>Username_Change\<close>: \<open>username/username.service.ts\<close>. \<open>Guard\<close>: \<open>auth/spark-signature.guard.ts\<close>.
    \<open>User_Endpoints\<close>: the controllers behind that guard.
  \<^item> \<open>Refund_Case\<close>: \<open>refund-case/refund-case.service.ts\<close>. \<open>Ops\<close>: \<open>internal-ops.guard.ts\<close>, the two
    controllers behind it, and the preferences.
  \<^item> \<open>Swap_State_Machine\<close>, \<open>Swap\<close>, \<open>Swap_Quote\<close>: \<open>swap/swap-state-machine.ts\<close>, \<open>swap/swap.service.ts\<close>.
    \<open>Order_Writers\<close>: the contract between the components that write orders. \<open>Fair_Scan\<close>: paging by
    cursor, as a theory of ordered sets. \<open>Reconciler\<close>: \<open>swap/quote-reconciler.service.ts\<close>.
    \<open>Webhook\<close>: \<open>swap/flashnet-webhook.controller.ts\<close>, \<open>swap/webhook-timestamp.ts\<close>.
  \<^item> \<open>Flashnet\<close>, \<open>Lightning_Quote\<close>, \<open>Bolt11\<close>: \<open>flashnet/\<close> with its mock and the validation of quotes,
    \<open>common/bolt11-tags.ts\<close>, \<open>common/bolt11-description-hash.ts\<close>. \<open>Honest_Invoice\<close>: the issuer of signed
    invoices that the sources check the validation with, \<open>flashnet/lightning-quote-fixtures.test-helper.ts\<close>;
    \<open>Radix\<close>: digits of numbers, bytes and hexadecimal text, which it needs.
  \<^item> \<open>Lnurl\<close>: \<open>lnurl/\<close>, \<open>lightspark/\<close>. \<open>Query\<close>: \<open>query/\<close>. \<open>Rate_Limit\<close>: \<open>rate-limit/\<close>.
    \<open>Bootstrap\<close>: \<open>main.ts\<close>, \<open>config/\<close>, \<open>app.controller.ts\<close>, the user decorator.
  \<^item> \<open>Store\<close>, \<open>Store_Ops\<close>: the invariant of all tables together, the contract \<open>store_evolves\<close>, and
    the proof that every writing operation keeps it. \<open>Server\<close>: the routes that \<open>app.module.ts\<close> joins,
    as one function, and the history of the service. \<open>Overlap\<close>: the same history with resolutions of
    refund cases and the last writes of payment requests in flight, under a weaker contract. \<open>Deliveries\<close>: what repeated deliveries of a
    webhook event do in that history. \<open>Access\<close>: who may write what.

  \<^bold>\<open>State.\<close> A store is the record \<open>db\<close> of \<open>Db\<close>. An operation takes the store and returns an error
  (\<open>Inl\<close>) or a result with the new store (\<open>Inr\<close>); a transaction that throws leaves the store as it
  was. Where the code reads, awaits and writes later, the two parts are definitions of their own
  (\<open>bind_checks\<close> and \<open>bind_commit\<close>, \<open>change_load\<close>, \<open>claim_check\<close> and \<open>change_commit\<close>, \<open>resolve_check\<close> and
  \<open>update_case\<close>, \<open>select_batch\<close> and \<open>delete_batch\<close>), and the step relations \<open>name_step\<close>, \<open>auth_step\<close>,
  \<open>purge_step\<close>, \<open>server_step\<close> and \<open>overlapping_step\<close> interleave them; the reconciler takes what others do between its
  accesses as a function that keeps the contract \<open>order_writer\<close>. Ids, clocks and random bytes are
  arguments.

  \<^bold>\<open>What is shown.\<close>
  \<^item> Names: one active name for each account and no name ever released, under any interleaving;
    quotas; the effects and the races of registrations and changes; canonical normal form, and the
    reserved-name test against an index-free specification.
  \<^item> Authentication: single use of a challenge, what an accepted request proves, no replay inside
    the window, signatures independent of their encoding, the exact conditions of the two guards and
    of the webhook signature; for every route, what a write must have shown.
  \<^item> Payments: exact amounts, quotes accepted only with a signed, unexpired invoice of the right
    amount and hash, every honestly signed invoice accepted unless the hash asked for differs, the metadata hash in every invoice of the USDB route, and on the satoshi route, where the SDK is not
    checked, an error in the log for every invoice without it; one stored invoice for each answer,
    the fallback to satoshi, and payments that follow a registration or a change of name.
  \<^item> Swaps: every writer of orders refines the order machine, an event is handled once, also when it overtakes its quote, a failed
    order has a refund case, cases are resolved once, and no waiting order starves.
  \<^item> Logs: entries that no caller can forge or scramble, structured events that read back as they were
    written, signatures that leave no trace but their length.
  \<^item> The whole: from the empty database on, under any history, the store keeps its invariant and
    only evolves; with resolutions of refund cases and payments in flight a closed case may still
    change, but it never reopens, and nothing else is lost.
  \<^item> Several theorems state a defect of the code precisely: two spellings of one key, a quota that
    two changes in flight exceed, the gap between two clock readings of the guard, a shutdown that
    does not wait for the purge.

  \<^bold>\<open>Bounds.\<close> The tag reader of \<open>Bolt11\<close> has a measure, and a third of the words plus one rounds are
  enough for it. The purge runs at most \<open>PURGE_MAX_BATCHES\<close> batches, as in the code. A queue of the
  reconciler that offers at most \<open>n\<close> different orders over a run polls each within \<open>n\<close> divided by the
  page size plus two batches. No definition uses fuel that the code does not have.

  \<^bold>\<open>Parameters.\<close> The curve library, SHA-256, HMAC, bech32 and bech32m codecs, the Spark wallet, HTTP
  answers of Flashnet, decimal arithmetic, \<open>Date\<close> parsing and printing, the host name of a URL, JSON
  parsing of webhook bodies and the collation of the database are arguments; a theorem that relies
  on one of them names what it relies on, and its witness gives a concrete one.

  \<^bold>\<open>Not modelled.\<close> Dependency injection, decorators that only declare, the HTTP server and routing of
  paths; the counters of the throttler package; connection handling; the log lines of the components
  that \<open>Request_Logs\<close> does not name, those of the Flashnet client and the swap service during a
  webhook included. Strings are Latin-1 code units except in \<open>Log_Sanitize\<close> and
  \<open>Log_Line\<close>. In \<open>server_step\<close> and \<open>overlapping_step\<close> a request runs as a whole except where suspended
  registrations and changes, and in \<open>overlapping_step\<close> resolutions and the last statement of a payment
  request, are steps of their own. The two statements of a case
  resolution are split in \<open>overlapping_step\<close> only, because split they break the contract of
  \<open>server_step\<close>, a defect that \<open>Refund_Case\<close> shows.
\<close>

section \<open>From registration to payment\<close>

lemma name_found_active:
  assumes "name_by_username ck u d = Some r" and "ln_active r"
  shows "find (\<lambda>r. text_eq ck (ln_username r) u \<and> ln_active r) (lightning_names d) = Some r"
proof -
  have "where_key ck ln_username_key [Text u] = (\<lambda>r. text_eq ck (ln_username r) u)"
    by (intro ext) (simp add: where_key_def row_key_def ln_username_key_def text_eq_def)
  then have "find (\<lambda>r. text_eq ck (ln_username r) u) (lightning_names d) = Some r"
    using assms(1) by (simp add: name_by_username_def find_unique_def)
  then show ?thesis using assms(2) by (rule find_stronger)
qed

text \<open>
  C17. A registered name can be paid. After a successful registration, provided the names stored
  before carry their key while active and the collation ignores the case of the key, the
  metadata endpoint serves the name under the spelling that was registered, with the callback of
  the canonical name, and the public lookup by the key returns that name, its address and the
  key.
\<close>

theorem registered_name_is_payable:
  assumes reg: "verifyAndBindUsername ck L extra abort now now' ids k1 sig key raw d = Inr d'"
    and keys: "\<forall>r \<in> set (lightning_names d). ln_active r \<longrightarrow> activePubKey r = Some (linkingPubKeyHex r)"
    and caseless: "ck (toLowerCase key) = ck key"
    and E: "le_ck E = ck" "domain_of (le_base E) = Inr (url, domain)" and Q: "qe_ck Q = ck" "qe_base Q = le_base E"
  shows "\<exists>u m r. normalizeUsername raw = Some u
    \<and> getLnurlPayMetadata E raw d' = Inr m \<and> pm_callback m = url @ ''/lnurl/callback/'' @ u
    \<and> query_username_endpoint Q key d' = Inr r
    \<and> qn_username r = u \<and> qn_lightningAddress r = u @ ''@'' @ domain \<and> qn_publicKey r = key"
proof -
  from verifyAndBind_effect [OF reg] obtain u where
    u: "normalizeUsername raw = Some u"
      "\<forall>r \<in> set (lightning_names d). \<not> holds_key ck (equivalentPubKeyForms L key) r"
      "name_by_username ck u d' = Some (new_name (snd ids) u (fst ids) key now')"
      "lightning_names d' = lightning_names d @ [new_name (snd ids) u (fst ids) key now']" by auto
  let ?r = "new_name (snd ids) u (fst ids) key now'"
  have r: "ln_active ?r" "ln_username ?r = u" "linkingPubKeyHex ?r = key" by (simp_all add: new_name_def)
  have base: "truthy (bu_publicBaseUrl (le_base E))" using E(2) by (auto simp: domain_of_def split: if_splits)
  have meta: "getLnurlPayMetadata E raw d' = Inr \<lparr>pm_callback = url @ ''/lnurl/callback/'' @ u,
      pm_minSendable = MIN_SENDABLE_MSAT, pm_maxSendable = MAX_SENDABLE_MSAT,
      pm_metadata = buildLnurlPayMetadata u domain\<rparr>"
    using name_found_active [OF u(3) r(1)] u(1) E base r(2)
    by (simp add: getLnurlPayMetadata_def findActiveLightningName_def)
  have old: "\<not> (text_eq ck (linkingPubKeyHex x) key \<and> ln_active x)" if x: "x \<in> set (lightning_names d)" for x
  proof
    assume a: "text_eq ck (linkingPubKeyHex x) key \<and> ln_active x"
    then have "activePubKey x = Some (linkingPubKeyHex x)" using keys x by blast
    moreover have "toLowerCase key \<in> set (equivalentPubKeyForms L key)" by (simp add: equivalentPubKeyForms_set)
    moreover have "text_eq ck (linkingPubKeyHex x) (toLowerCase key)" using a caseless by (simp add: text_eq_def)
    ultimately have "holds_key ck (equivalentPubKeyForms L key) x" by (auto simp: holds_key_def list_ex_iff)
    with u(2) x show False by blast
  qed
  then have "find (\<lambda>x. text_eq ck (linkingPubKeyHex x) key \<and> ln_active x) (lightning_names d) = None"
    by (auto simp: find_None_iff)
  then have "findLightningNameByPubKey Q key d' = Some ?r"
    using r u(4) Q(1) by (simp add: findLightningNameByPubKey_def find_append_Some text_eq_def)
  then have "query_username_endpoint Q key d' = Inr (query_response Q domain ?r)"
    using E(2) Q(2) by (simp add: query_username_endpoint_def queryByPubKey_def)
  with meta u(1) r show ?thesis by (auto simp: query_response_def)
qed

definition demo_query :: query_env where
  "demo_query = \<lparr>qe_ck = id, qe_contains = (\<lambda>c t. str_includes c t), qe_base = le_base demo_lnurl,
     qe_sparkNetwork = None, qe_secp = demo_secp, qe_b32m = demo_b32m\<rparr>"

theorem registered_name_is_payable_witness:
  "\<exists>m r. getLnurlPayMetadata demo_lnurl ''x'' demo_registered = Inr m
     \<and> query_username_endpoint demo_query demo_key_c demo_registered = Inr r \<and> qn_lightningAddress r = ''x@h''"
proof -
  have reg: "verifyAndBindUsername id demo_point None None 5 6 (''u1'', ''l1'') (demo_k1 (CHR ''a'')) ''ab'' demo_key_c ''x'' demo_auth_db
      = Inr demo_registered"
    by (simp add: verifyAndBindUsername_def demo_checks demo_commit)
  have "\<forall>r \<in> set (lightning_names demo_auth_db). ln_active r \<longrightarrow> activePubKey r = Some (linkingPubKeyHex r)"
    by (simp add: demo_auth_db_def empty_db_def)
  moreover have "id (toLowerCase demo_key_c) = id demo_key_c"
    by (simp add: demo_key_c_def toLowerCase_def js_lower_char_def code_in_def)
  moreover have "domain_of (le_base demo_lnurl) = Inr (''https://h'', ''h'')"
    by (simp add: domain_of_def demo_lnurl_def nullish_def getDomainFromBaseUrl_def)
  ultimately have "\<exists>u m r. normalizeUsername ''x'' = Some u
    \<and> getLnurlPayMetadata demo_lnurl ''x'' demo_registered = Inr m \<and> pm_callback m = ''https://h'' @ ''/lnurl/callback/'' @ u
    \<and> query_username_endpoint demo_query demo_key_c demo_registered = Inr r
    \<and> qn_username r = u \<and> qn_lightningAddress r = u @ ''@'' @ ''h'' \<and> qn_publicKey r = demo_key_c"
    by (intro registered_name_is_payable [OF reg]) (simp_all add: demo_query_def)
  then show ?thesis by (auto simp: demo_normal)
qed

section \<open>From one name to the next\<close>

text \<open>After a committed change the old name is retired, and the row of the new one is active.\<close>

lemma change_commit_moves:
  assumes ok: "accounts_ok ck d" and ld: "change_load ck extra userId raw d = Inr p"
    and c: "change_commit ck nid now p d = Inr d'"
  shows "\<forall>r \<in> set (lightning_names d'). text_eq ck (ln_username r) (ln_username (as_active (cp_state p))) \<longrightarrow> \<not> ln_active r"
    and "\<exists>r \<in> set (lightning_names d'). ln_active r \<and> ln_username r = cp_username p
           \<and> text_eq ck (ln_userId r) userId \<and> linkingPubKeyHex r = linkingPubKeyHex (as_active (cp_state p))"
proof -
  note l = change_load_Inr [OF ld] and pl = change_load_plan_ok [OF ld]
  have ok': "accounts_ok ck d'" and kept: "persists (lightning_names d) (lightning_names d')"
    using change_commit_ok [OF ok pl c] by simp_all
  obtain a where a: "a \<in> set (lightning_names d')" "same_name (as_active (cp_state p)) a" "\<not> ln_active a"
    "text_eq ck (ln_userId a) userId"
    using ok pl c
  proof (cases rule: commit_shape)
    case (1 a xs ys)
    have same: "same_name (as_active (cp_state p)) (retire_name a)"
      using 1(2) by (simp add: same_name_def retire_name_def)
    moreover have "retire_name a \<in> set (lightning_names d')"
      using 1(6)
    proof (elim disjE exE conjE)
      fix oo b :: LightningName and us vs :: "LightningName list"
      assume b: "cp_owned p = Some oo" "xs @ retire_name a # ys = us @ b # vs" "same_name b oo"
        "lightning_names d' = us @ b\<lparr>ln_active := True, activePubKey := Some (linkingPubKeyHex b)\<rparr> # vs"
      have "ln_username b = cp_username p" using plan_owned_username [OF ld b(1)] b(3) by (simp add: same_name_def)
      then have "retire_name a \<noteq> b" using l(6) same by (auto simp: same_name_def)
      moreover have "retire_name a \<in> set (us @ b # vs)" unfolding b(2) [symmetric] by simp
      ultimately show ?thesis unfolding b(4) by auto
    qed simp
    ultimately show thesis using 1(3) l(2) by (intro that [of "retire_name a"]) (simp_all add: retire_name_def)
  qed
  show "\<forall>r \<in> set (lightning_names d'). text_eq ck (ln_username r) (ln_username (as_active (cp_state p))) \<longrightarrow> \<not> ln_active r"
  proof (intro ballI impI)
    fix r assume r: "r \<in> set (lightning_names d')" "text_eq ck (ln_username r) (ln_username (as_active (cp_state p)))"
    with a(1,2) have "r = a"
      by (intro uniq_clash_eq [OF names_okD(1) [OF ok'], of "(''lightning_names_username_key'', ln_username_key)"])
         (auto simp: lightning_name_ixs_def clash_def row_key_def ln_username_key_def text_eq_def same_name_def)
    with a(3) show "\<not> ln_active r" by simp
  qed
  from change_commit_rows(3) [OF ok pl plan_owned_username [OF ld] c] l(2) obtain r where
    r: "r \<in> set (lightning_names d')" "text_eq ck (ln_userId r) userId" "ln_active r" "ln_username r = cp_username p" by auto
  have "text_eq ck (ln_userId r) (ln_userId a)" using r(2) a(4) by (simp add: text_eq_def)
  then have "linkingPubKeyHex r = linkingPubKeyHex a" by (rule names_okD(3) [OF ok' r(1) a(1)])
  with r a(2) show "\<exists>r \<in> set (lightning_names d'). ln_active r \<and> ln_username r = cp_username p
      \<and> text_eq ck (ln_userId r) userId \<and> linkingPubKeyHex r = linkingPubKeyHex (as_active (cp_state p))"
    by (auto simp: same_name_def)
qed

text \<open>
  C18. Payments follow a name change. After a change that was answered with success, the payment
  endpoints no longer know the old name, and the new one leads to the same account and the same
  key: the metadata endpoint serves it, and the callback would pay that key.
\<close>

theorem payments_follow_change:
  assumes ok: "accounts_ok (le_ck E) d" and st: "loadState (le_ck E) userId d = Inr st"
    and ch: "changeUsername (le_ck E) (le_base E) extra nid now userId raw d = (Inr resp, d')"
    and old: "normalizeUsername (ln_username (as_active st)) = Some (ln_username (as_active st))"
  shows "getLnurlPayMetadata E (ln_username (as_active st)) d' = Inl NameNotFound
    \<and> (\<exists>url domain m r. domain_of (le_base E) = Inr (url, domain)
        \<and> getLnurlPayMetadata E raw d' = Inr m \<and> pm_callback m = url @ ''/lnurl/callback/'' @ cr_username resp
        \<and> findActiveLightningName (le_ck E) raw d' = Inr (Some r)
        \<and> text_eq (le_ck E) (ln_userId r) userId \<and> linkingPubKeyHex r = linkingPubKeyHex (as_active st))"
proof -
  from ch obtain p where p: "change_load (le_ck E) extra userId raw d = Inr p"
    by (auto simp: changeUsername_def split: sum.splits)
  note l = change_load_Inr [OF p]
  have st_eq: "cp_state p = st" using st l(1) by simp
  have early: "convergedResponse (le_ck E) (le_base E) userId (cp_username p) sw d \<noteq> Inr (Some x)" for sw x
    using st l(6) st_eq by (simp add: convergedResponse_def)
  then have c: "change_commit (le_ck E) nid now p d = Inr d'" "change_success (le_base E) p = Inr resp"
    using ch p l(2)
    by (auto simp: changeUsername_def claim_check_def change_conflict_def bind_result_Inr_iff
        split: sum.splits option.splits if_splits db_error.splits)
  note moves = change_commit_moves [OF ok p c(1), unfolded st_eq]
  from c(2) obtain url domain where dom: "domain_of (le_base E) = Inr (url, domain)" and u: "cr_username resp = cp_username p"
    by (cases "bu_publicBaseUrl (le_base E)")
       (auto simp: change_success_def change_response_def toLightningAddress_def bind_result_Inr_iff domain_of_def nullish_def
        split: if_splits)
  from dom have base: "truthy (bu_publicBaseUrl (le_base E))" by (auto simp: domain_of_def split: if_splits)
  have gone: "findActiveLightningName (le_ck E) (ln_username (as_active st)) d' = Inr None"
    using moves(1) old by (auto simp: findActiveLightningName_def find_None_iff)
  obtain r where r: "find (\<lambda>r. text_eq (le_ck E) (ln_username r) (cp_username p) \<and> ln_active r) (lightning_names d') = Some r"
    using moves(2) by (cases "find (\<lambda>r. text_eq (le_ck E) (ln_username r) (cp_username p) \<and> ln_active r) (lightning_names d')")
      (auto simp: find_None_iff)
  from moves(2) obtain n where n: "n \<in> set (lightning_names d')" "ln_username n = cp_username p"
    "text_eq (le_ck E) (ln_userId n) userId" "linkingPubKeyHex n = linkingPubKeyHex (as_active st)" by blast
  have "r \<in> set (lightning_names d')" "text_eq (le_ck E) (ln_username r) (cp_username p)"
    using r by (auto simp: find_Some_iff)
  with n have "r = n"
    using change_commit_ok [OF ok change_load_plan_ok [OF p] c(1)]
    by (intro uniq_clash_eq [OF names_okD(1), of "le_ck E" _ "lightning_names d'" "(''lightning_names_username_key'', ln_username_key)"])
       (auto simp: lightning_name_ixs_def clash_def row_key_def ln_username_key_def text_eq_def)
  moreover have "findActiveLightningName (le_ck E) raw d' = Inr (Some r)"
    using l(3) r by (simp add: findActiveLightningName_def)
  ultimately show ?thesis
    using gone n u dom base by (simp add: getLnurlPayMetadata_def)
qed

theorem payments_follow_change_witness:
  "getLnurlPayMetadata (demo_lnurl\<lparr>le_base := Username_Change.demo_base\<rparr>) ''x'' demo_account_y = Inl NameNotFound"
proof -
  let ?E = "demo_lnurl\<lparr>le_base := Username_Change.demo_base\<rparr>"
  obtain resp where "change_success Username_Change.demo_base (demo_claim ''y'') = Inr resp"
    by (simp add: change_success_def change_response_def toLightningAddress_def getDomainFromBaseUrl_def
        Username_Change.demo_base_def demo_claim_def)
  then have ch: "changeUsername (le_ck ?E) (le_base ?E) None ''l3'' 3 ''u1'' ''y'' demo_account = (Inr resp, demo_account_y)"
    using demo_change by (simp add: demo_env_def demo_lnurl_def)
  have st: "loadState (le_ck ?E) ''u1'' demo_account = Inr demo_state"
    using change_load_Inr(1) [OF demo_loads(1)] by (simp add: demo_claim_def)
  have x: "ln_username (as_active demo_state) = ''x''" by (simp add: demo_state_def demo_row_def)
  have ok: "accounts_ok (le_ck ?E) demo_account" using demo_accounts_ok by simp
  have "normalizeUsername ''x'' = Some ''x''" by code_simp
  with payments_follow_change [OF ok st ch] show ?thesis by (simp add: x)
qed

end
